(* ===== verification/Prelude.thy ===== *)
theory Prelude
  imports Main "HOL-Library.Multiset" "HOL-Library.Word"
begin

text \<open>
  The library every component theory builds on.

  \<^item> The Go types the models share: byte strings, \<open>time.Time\<close> and \<open>time.Duration\<close> as
    integers (nanoseconds or seconds, as the component says), \<open>int\<close> as unbounded integers
    except where a component keeps the width.
  \<^item> The functions of the Go package \<open>strings\<close> that the sources call, as executable
    functions on byte strings. \<open>ToLower\<close>, \<open>ToUpper\<close> and \<open>TrimSpace\<close> are written for ASCII,
    the alphabet of the identifiers, headers and host names they are applied to.
  \<^item> The contract of \<open>sort.Slice\<close>, which is not stable: a permutation of the input in which
    no element is less than an earlier one.
  \<^item> The interface \<open>keyed_store\<close>: a stateful table that refines a finite map.
  \<^item> The simp collections \<open>go_string_simps\<close> (string functions) and \<open>guard_simps\<close>
    (unfolding of the guards of handlers).
\<close>

named_theorems go_string_simps
named_theorems guard_simps

type_synonym bytes = string
type_synonym time = int
type_synonym duration = int

subsection \<open>Package strings\<close>

definition hasPrefix :: "string \<Rightarrow> string \<Rightarrow> bool" where
  "hasPrefix s p \<longleftrightarrow> take (length p) s = p"

definition hasSuffix :: "string \<Rightarrow> string \<Rightarrow> bool" where
  "hasSuffix s p \<longleftrightarrow> length p \<le> length s \<and> drop (length s - length p) s = p"

fun indexOf :: "string \<Rightarrow> string \<Rightarrow> nat option" where
  "indexOf [] p = (if p = [] then Some 0 else None)"
| "indexOf (c # s) p = (if hasPrefix (c # s) p then Some 0 else map_option Suc (indexOf s p))"

definition contains :: "string \<Rightarrow> string \<Rightarrow> bool" where
  "contains s p \<longleftrightarrow> indexOf s p \<noteq> None"

definition countChar :: "string \<Rightarrow> char \<Rightarrow> nat" where
  "countChar s c = count_list s c"

fun splitOn :: "char \<Rightarrow> string \<Rightarrow> string list" where
  "splitOn c [] = [[]]"
| "splitOn c (x # xs) =
     (if x = c then [] # splitOn c xs
      else (case splitOn c xs of [] \<Rightarrow> [[x]] | w # ws \<Rightarrow> (x # w) # ws))"

definition isSpaceByte :: "char \<Rightarrow> bool" where
  "isSpaceByte c \<longleftrightarrow> of_char c \<in> {9, 10, 11, 12, 13, 32 :: nat}"

definition trimLeftP :: "(char \<Rightarrow> bool) \<Rightarrow> string \<Rightarrow> string" where
  "trimLeftP P s = dropWhile P s"

definition trimRightP :: "(char \<Rightarrow> bool) \<Rightarrow> string \<Rightarrow> string" where
  "trimRightP P s = rev (dropWhile P (rev s))"

definition trimSpace :: "string \<Rightarrow> string" where
  "trimSpace s = trimRightP isSpaceByte (trimLeftP isSpaceByte s)"

definition toLowerByte :: "char \<Rightarrow> char" where
  "toLowerByte c = (let n = of_char c :: nat in if 65 \<le> n \<and> n \<le> 90 then char_of (n + 32) else c)"

definition toUpperByte :: "char \<Rightarrow> char" where
  "toUpperByte c = (let n = of_char c :: nat in if 97 \<le> n \<and> n \<le> 122 then char_of (n - 32) else c)"

definition toLower :: "string \<Rightarrow> string" where
  "toLower s = map toLowerByte s"

definition toUpper :: "string \<Rightarrow> string" where
  "toUpper s = map toUpperByte s"

definition joinWith :: "string \<Rightarrow> string list \<Rightarrow> string" where
  "joinWith sep ws = (case ws of [] \<Rightarrow> [] | w # rest \<Rightarrow> w @ concat (map (\<lambda>v. sep @ v) rest))"

definition trimChars :: "char list \<Rightarrow> string \<Rightarrow> string" where
  "trimChars cs s = trimRightP (\<lambda>c. c \<in> set cs) (trimLeftP (\<lambda>c. c \<in> set cs) s)"

subsection \<open>Package path/filepath on Unix\<close>

text \<open>\<open>Clean\<close> drops empty and \<open>.\<close> elements and lets \<open>..\<close> remove the element before it; the
  accumulator holds the elements kept so far, last one first.\<close>

fun clean_elems :: "bool \<Rightarrow> string list \<Rightarrow> string list \<Rightarrow> string list" where
  "clean_elems rooted acc [] = rev acc"
| "clean_elems rooted acc (e # es) =
     (if e = [] \<or> e = ''.'' then clean_elems rooted acc es
      else if e = ''..'' then
        (case acc of
           [] \<Rightarrow> if rooted then clean_elems rooted [] es else clean_elems rooted [e] es
         | a # acc' \<Rightarrow> if a = ''..'' then clean_elems rooted (e # acc) es else clean_elems rooted acc' es)
      else clean_elems rooted (e # acc) es)"

definition filepath_Clean :: "string \<Rightarrow> string" where
  "filepath_Clean p =
     (let rooted = hasPrefix p ''/''; es = clean_elems rooted [] (splitOn (CHR ''/'') p)
      in if rooted then CHR ''/'' # joinWith ''/'' es
         else if es = [] then ''.'' else joinWith ''/'' es)"

definition filepath_Join :: "string list \<Rightarrow> string" where
  "filepath_Join es =
     (case dropWhile (\<lambda>e. e = []) es of [] \<Rightarrow> [] | es' \<Rightarrow> filepath_Clean (joinWith ''/'' es'))"

subsection \<open>The formatting verb percent-d\<close>

fun natToDec :: "nat \<Rightarrow> string" where
  "natToDec n = (if n < 10 then [char_of (48 + n)] else natToDec (n div 10) @ [char_of (48 + n mod 10)])"

declare natToDec.simps [simp del]

definition itoa :: "int \<Rightarrow> string" where
  "itoa i = (if i < 0 then CHR ''-'' # natToDec (nat (- i)) else natToDec (nat i))"

text \<open>\<open>strconv.Atoi\<close>: an optional sign and decimal digits, within the range of int64.\<close>

definition digit_val :: "char \<Rightarrow> int option" where
  "digit_val c = (let n = of_char c :: nat in if 48 \<le> n \<and> n \<le> 57 then Some (int n - 48) else None)"

fun digits_val :: "int \<Rightarrow> string \<Rightarrow> int option" where
  "digits_val acc [] = Some acc"
| "digits_val acc (c # s) = (case digit_val c of None \<Rightarrow> None | Some d \<Rightarrow> digits_val (acc * 10 + d) s)"

definition atoi :: "string \<Rightarrow> int option" where
  "atoi s =
     (let neg = hasPrefix s ''-''; body = (if neg \<or> hasPrefix s ''+'' then drop 1 s else s)
      in if body = [] then None
         else (case digits_val 0 body of
                 None \<Rightarrow> None
               | Some n \<Rightarrow>
                   let v = (if neg then - n else n)
                   in if - (2 ^ 63) \<le> v \<and> v < 2 ^ 63 then Some v else None))"

subsection \<open>Lemmas on strings\<close>

lemma hasPrefix_iff: "hasPrefix s p \<longleftrightarrow> (\<exists>r. s = p @ r)"
proof
  assume "hasPrefix s p"
  then have "s = p @ drop (length p) s"
    by (metis append_take_drop_id hasPrefix_def)
  then show "\<exists>r. s = p @ r" by blast
qed (auto simp: hasPrefix_def)

lemma hasSuffix_iff: "hasSuffix s p \<longleftrightarrow> (\<exists>r. s = r @ p)"
proof
  assume "hasSuffix s p"
  then have "s = take (length s - length p) s @ p"
    by (metis append_take_drop_id hasSuffix_def)
  then show "\<exists>r. s = r @ p" by blast
qed (auto simp: hasSuffix_def)

lemma hasPrefix_Nil [simp, go_string_simps]: "hasPrefix s []"
  by (simp add: hasPrefix_def)

lemma hasPrefix_append [simp, go_string_simps]: "hasPrefix (p @ r) p"
  by (simp add: hasPrefix_def)

lemma indexOf_take:
  "indexOf s p = Some i \<Longrightarrow> hasPrefix (drop i s) p"
  by (induction s arbitrary: i) (auto split: if_splits)

lemma indexOf_Some_iff_prefix:
  "indexOf s p = Some i \<Longrightarrow> i \<le> length s \<and> hasPrefix (drop i s) p"
  by (induction s arbitrary: i) (auto split: if_splits simp: hasPrefix_def)

lemma indexOf_append_Some: "indexOf (a @ p @ b) p \<noteq> None"
  by (induction a) (auto simp: hasPrefix_iff, cases p, cases b, auto simp: hasPrefix_def)

lemma contains_iff: "contains s p \<longleftrightarrow> (\<exists>a b. s = a @ p @ b)"
proof
  assume "contains s p"
  then obtain i where "indexOf s p = Some i" by (auto simp: contains_def)
  then have "hasPrefix (drop i s) p" by (simp add: indexOf_Some_iff_prefix)
  then obtain r where "drop i s = p @ r" by (auto simp: hasPrefix_iff)
  then have "s = take i s @ p @ r" by (metis append_take_drop_id)
  then show "\<exists>a b. s = a @ p @ b" by blast
next
  assume "\<exists>a b. s = a @ p @ b"
  then show "contains s p" using indexOf_append_Some by (auto simp: contains_def)
qed

lemma countChar_append [simp, go_string_simps]: "countChar (a @ b) c = countChar a c + countChar b c"
  by (simp add: countChar_def)

lemma countChar_Cons [simp, go_string_simps]:
  "countChar (x # s) c = (if x = c then Suc (countChar s c) else countChar s c)"
  by (simp add: countChar_def)

lemma countChar_Nil [simp, go_string_simps]: "countChar [] c = 0"
  by (simp add: countChar_def)

lemma countChar_0_iff: "countChar s c = 0 \<longleftrightarrow> c \<notin> set s"
  by (simp add: countChar_def count_list_0_iff)

subsection \<open>The contract of sort.Slice\<close>

text \<open>
  \<open>sort.Slice\<close> promises a permutation sorted by \<open>lt\<close> and nothing more: it is not stable. Models
  that sort take the sorter as an argument. \<open>insertionSort\<close> is what the library runs on slices
  of fewer than twelve elements, and it meets the contract for a strict weak order.
\<close>

fun insertRev :: "('a \<Rightarrow> 'a \<Rightarrow> bool) \<Rightarrow> 'a \<Rightarrow> 'a list \<Rightarrow> 'a list" where
  "insertRev lt x [] = [x]"
| "insertRev lt x (y # ys) = (if lt x y then y # insertRev lt x ys else x # y # ys)"

definition insertionSort :: "('a \<Rightarrow> 'a \<Rightarrow> bool) \<Rightarrow> 'a list \<Rightarrow> 'a list" where
  "insertionSort lt xs = rev (foldl (\<lambda>acc x. insertRev lt x acc) [] xs)"

lemma find_split: "find P ys = Some x \<Longrightarrow> \<exists>us vs. ys = us @ x # vs \<and> P x \<and> (\<forall>u\<in>set us. \<not> P u)"
proof (induction ys)
  case (Cons y ys)
  show ?case
  proof (cases "P y")
    case True
    with Cons.prems show ?thesis by (intro exI [of _ "[]"] exI [of _ ys]) auto
  next
    case False
    with Cons obtain us vs where "ys = us @ x # vs" "P x" "\<forall>u\<in>set us. \<not> P u" by auto
    with False show ?thesis by (intro exI [of _ "y # us"] exI [of _ vs]) auto
  qed
qed simp

locale slice_sorter =
  fixes lt :: "'a \<Rightarrow> 'a \<Rightarrow> bool"
    and srt :: "'a list \<Rightarrow> 'a list"
  assumes sort_mset: "mset (srt xs) = mset xs"
    and sort_sorted: "sorted_wrt (\<lambda>a b. \<not> lt b a) (srt xs)"
begin

lemma sort_set: "set (srt xs) = set xs"
  by (metis sort_mset mset_eq_setD)

lemma sort_distinct_map: "distinct (map f (srt xs)) = distinct (map f xs)"
  by (metis mset_map sort_mset mset_eq_imp_distinct_iff)

lemma lt_irrefl: "\<not> lt x x"
proof -
  have "length (srt [x, x]) = 2" using sort_mset [of "[x, x]"] by (metis mset_eq_length length_Cons list.size(3) numeral_2_eq_2)
  moreover have "\<forall>y\<in>set (srt [x, x]). y = x" by (simp add: sort_set)
  ultimately have "srt [x, x] = replicate 2 x" by (intro replicate_eqI) auto
  then show ?thesis using sort_sorted [of "[x, x]"] by (simp add: numeral_2_eq_2)
qed

lemma find_first_best:
  assumes "find P (srt xs) = Some x"
  shows "x \<in> set xs \<and> P x \<and> (\<forall>y\<in>set xs. P y \<longrightarrow> \<not> lt y x)"
proof -
  obtain us vs where s: "srt xs = us @ x # vs" and "P x" and no: "\<forall>u\<in>set us. \<not> P u"
    using find_split [OF assms] by blast
  moreover have "x \<in> set xs"
    using s sort_set by (metis in_set_conv_decomp)
  moreover have "\<not> lt y x" if "y \<in> set xs" and "P y" for y
  proof -
    have "y \<in> set (us @ x # vs)" using that(1) s sort_set by metis
    with that(2) no have "y = x \<or> y \<in> set vs" by auto
    then show ?thesis
    proof
      assume "y \<in> set vs"
      then show ?thesis using sort_sorted [of xs] s by (auto simp: sorted_wrt_append)
    next
      assume "y = x"
      then show ?thesis by (simp add: lt_irrefl)
    qed
  qed
  ultimately show ?thesis by blast
qed

lemma find_none: "find P (srt xs) = None \<longleftrightarrow> (\<forall>y\<in>set xs. \<not> P y)"
  by (auto simp: find_None_iff sort_set)

end

lemma mset_insertRev: "mset (insertRev lt x ys) = add_mset x (mset ys)"
  by (induction ys) auto

lemma set_insertRev: "set (insertRev lt x ys) = insert x (set ys)"
  by (induction ys) auto

lemma mset_foldl_insertRev:
  "mset (foldl (\<lambda>acc x. insertRev lt x acc) acc xs) = mset acc + mset xs"
  by (induction xs arbitrary: acc) (auto simp: mset_insertRev)

lemma sorted_insertRev:
  assumes asym: "\<And>a b. lt a b \<Longrightarrow> \<not> lt b a"
    and trans: "\<And>a b c. \<not> lt b a \<Longrightarrow> \<not> lt c b \<Longrightarrow> \<not> lt c a"
    and "sorted_wrt (\<lambda>a b. \<not> lt a b) ys"
  shows "sorted_wrt (\<lambda>a b. \<not> lt a b) (insertRev lt x ys)"
  using assms(3)
proof (induction ys)
  case (Cons y ys)
  show ?case
  proof (cases "lt x y")
    case True
    with Cons show ?thesis by (auto simp: set_insertRev dest: asym)
  next
    case False
    moreover have "\<not> lt x z" if "z \<in> set ys" for z
      using False Cons.prems that trans [of y z x] by auto
    ultimately show ?thesis using Cons.prems by auto
  qed
qed simp

lemma slice_sorter_insertionSort:
  assumes asym: "\<And>a b. lt a b \<Longrightarrow> \<not> lt b a"
    and trans: "\<And>a b c. \<not> lt b a \<Longrightarrow> \<not> lt c b \<Longrightarrow> \<not> lt c a"
  shows "slice_sorter lt (insertionSort lt)"
proof
  fix xs
  show "mset (insertionSort lt xs) = mset xs"
    by (simp add: insertionSort_def mset_foldl_insertRev)
  have "sorted_wrt (\<lambda>a b. \<not> lt a b) (foldl (\<lambda>acc x. insertRev lt x acc) acc xs)"
    if "sorted_wrt (\<lambda>a b. \<not> lt a b) acc" for acc
    using that
  proof (induction xs arbitrary: acc)
    case (Cons x xs)
    have "sorted_wrt (\<lambda>a b. \<not> lt a b) (insertRev lt x acc)"
      by (rule sorted_insertRev [OF asym trans Cons.prems])
    then show ?case using Cons.IH by simp
  qed simp
  from this [of "[]"] show "sorted_wrt (\<lambda>a b. \<not> lt b a) (insertionSort lt xs)"
    by (simp add: insertionSort_def sorted_wrt_rev)
qed

subsection \<open>Tables that refine a map\<close>

text \<open>
  A stateful table with an update and a delete by key. \<open>abs\<close> reads the table as a map,
  \<open>inv\<close> is the representation invariant, \<open>key_ok\<close> and \<open>ok\<close> the keys and entries that are
  stored as given. The clients of the route table and of the key-value store use these laws only.
\<close>

locale keyed_store =
  fixes abs :: "'s \<Rightarrow> 'k \<Rightarrow> 'v option"
    and inv :: "'s \<Rightarrow> bool"
    and upsert :: "'k \<Rightarrow> 'v \<Rightarrow> 's \<Rightarrow> 's"
    and delete :: "'k \<Rightarrow> 's \<Rightarrow> 's"
    and key_ok :: "'k \<Rightarrow> bool"
    and ok :: "'k \<Rightarrow> 'v \<Rightarrow> bool"
  assumes abs_upsert: "inv s \<Longrightarrow> ok k v \<Longrightarrow> abs (upsert k v s) = (abs s)(k \<mapsto> v)"
    and abs_delete: "inv s \<Longrightarrow> key_ok k \<Longrightarrow> abs (delete k s) = (abs s)(k := None)"
    and ok_key: "ok k v \<Longrightarrow> key_ok k"
    and inv_upsert: "inv s \<Longrightarrow> ok k v \<Longrightarrow> inv (upsert k v s)"
    and inv_delete: "inv s \<Longrightarrow> inv (delete k s)"
begin

lemma lookup_after_upsert: "inv s \<Longrightarrow> ok k v \<Longrightarrow> abs (upsert k v s) k = Some v"
  by (simp add: abs_upsert)

lemma lookup_other_key: "inv s \<Longrightarrow> ok k v \<Longrightarrow> k' \<noteq> k \<Longrightarrow> abs (upsert k v s) k' = abs s k'"
  by (simp add: abs_upsert)

lemma last_write_wins:
  "inv s \<Longrightarrow> ok k v \<Longrightarrow> ok k w \<Longrightarrow> abs (upsert k w (upsert k v s)) = abs (upsert k w s)"
  by (simp add: abs_upsert inv_upsert)

lemma delete_undoes_upsert:
  "inv s \<Longrightarrow> ok k v \<Longrightarrow> abs s k = None \<Longrightarrow> abs (delete k (upsert k v s)) = abs s"
  by (simp add: abs_upsert abs_delete inv_upsert ok_key fun_upd_idem)

lemma upserts_commute:
  "inv s \<Longrightarrow> ok k v \<Longrightarrow> ok k' w \<Longrightarrow> k \<noteq> k' \<Longrightarrow>
   abs (upsert k v (upsert k' w s)) = abs (upsert k' w (upsert k v s))"
  by (simp add: abs_upsert inv_upsert fun_upd_twist)

end

subsection \<open>Sorted listings\<close>

text \<open>An update of rows that keeps the sort key commutes with an ordered listing.\<close>

lemma sort_key_map: "(\<And>x. k (f x) = k x) \<Longrightarrow> sort_key k (map f xs) = map f (sort_key k xs)"
proof (induction xs)
  case (Cons x xs)
  have "insort_key k (f x) (map f ys) = map f (insort_key k x ys)" for ys
    using Cons.prems by (induction ys) simp_all
  then show ?case using Cons by simp
qed simp

subsection \<open>Machine integers\<close>

text \<open>Go's int64 arithmetic: the result of an operation on unbounded integers, wrapped to 64 bits in
  two's complement.\<close>

definition int64 :: "int \<Rightarrow> int" where
  "int64 n = (n + 2 ^ 63) mod 2 ^ 64 - 2 ^ 63"

lemma int64_id [simp]: "- (2 ^ 63) \<le> n \<Longrightarrow> n < 2 ^ 63 \<Longrightarrow> int64 n = n"
  by (simp add: int64_def)

lemma int64_range: "- (2 ^ 63) \<le> int64 n" "int64 n < 2 ^ 63"
  using pos_mod_bound[of "2 ^ 64" "n + 2 ^ 63"] pos_mod_sign[of "2 ^ 64" "n + 2 ^ 63"] by (simp_all add: int64_def)

end
