(* ===== verification/Route_Table.thy ===== *)
theory Route_Table
  imports Prelude
begin

text \<open>
  The ingress routing table, \<open>src/internal/ingress/router.go\<close>.

  A table is one immutable snapshot, the slice of entries that the atomic pointer holds; the
  write operations take the writer mutex, build a new slice and store it, so each is one step
  on the state. Sorting uses \<open>sort.Slice\<close>, whose order among ties is not fixed, so every write
  takes the sorter as an argument.

  Shown here: the table refines a map from (host, path prefix) to entries over every history of
  writes, whatever the sorter does with ties; \<open>Match\<close> returns a route that no other matching
  route precedes, and returns none only if no route matches; a wildcard host matches exactly one
  extra label; the host plays no part in the precedence between matching routes.
\<close>

subsection \<open>Data\<close>

record RouteEntry =
  re_Host :: string
  re_PathPrefix :: string
  re_Priority :: int
  re_ServiceName :: string
  re_Backends :: "string list"
  re_LBStrategy :: string
  re_Middlewares :: "string list"
  re_TLS :: bool
  re_StripPrefix :: bool
  re_HealthPath :: string
  re_AppID :: string

record RouteTable =
  rt_entries :: "RouteEntry list"

type_synonym route_sorter = "RouteEntry list \<Rightarrow> RouteEntry list"

definition NewRouteTable :: RouteTable where
  "NewRouteTable = \<lparr>rt_entries = []\<rparr>"

subsection \<open>Operations\<close>

definition route_less :: "RouteEntry \<Rightarrow> RouteEntry \<Rightarrow> bool" where
  "route_less a b =
     (if re_Priority a \<noteq> re_Priority b then re_Priority a > re_Priority b
      else length (re_PathPrefix a) > length (re_PathPrefix b))"

definition rt_replace :: "route_sorter \<Rightarrow> (RouteEntry list \<Rightarrow> RouteEntry list) \<Rightarrow> RouteTable \<Rightarrow> RouteTable" where
  "rt_replace srt mutate rt = rt\<lparr>rt_entries := srt (mutate (rt_entries rt))\<rparr>"

definition default_prefix :: "string \<Rightarrow> string" where
  "default_prefix p = (if p = [] then ''/'' else p)"

definition normalize_entry :: "RouteEntry \<Rightarrow> RouteEntry" where
  "normalize_entry e = e\<lparr>re_PathPrefix := default_prefix (re_PathPrefix e)\<rparr>"

fun put_entry :: "RouteEntry \<Rightarrow> RouteEntry list \<Rightarrow> RouteEntry list" where
  "put_entry e [] = [e]"
| "put_entry e (r # rs) =
     (if re_Host r = re_Host e \<and> re_PathPrefix r = re_PathPrefix e then e # rs
      else r # put_entry e rs)"

definition rt_Upsert :: "route_sorter \<Rightarrow> RouteEntry \<Rightarrow> RouteTable \<Rightarrow> RouteTable" where
  "rt_Upsert srt entry rt = (let e = normalize_entry entry in rt_replace srt (put_entry e) rt)"

fun drop_entry :: "string \<Rightarrow> string \<Rightarrow> RouteEntry list \<Rightarrow> RouteEntry list" where
  "drop_entry host p [] = []"
| "drop_entry host p (r # rs) =
     (if re_Host r = host \<and> re_PathPrefix r = p then rs else r # drop_entry host p rs)"

definition rt_Remove :: "route_sorter \<Rightarrow> string \<Rightarrow> string \<Rightarrow> RouteTable \<Rightarrow> RouteTable" where
  "rt_Remove srt host pathPrefix rt = rt_replace srt (drop_entry host (default_prefix pathPrefix)) rt"

definition rt_RemoveByAppID :: "route_sorter \<Rightarrow> string \<Rightarrow> RouteTable \<Rightarrow> RouteTable" where
  "rt_RemoveByAppID srt appID rt = rt_replace srt (filter (\<lambda>r. re_AppID r \<noteq> appID)) rt"

definition matchHost :: "string \<Rightarrow> string \<Rightarrow> bool" where
  "matchHost pat host =
     (if pat = host then True
      else if hasPrefix pat ''*.'' then
        hasSuffix host (drop 1 pat) \<and> countChar host (CHR ''.'') = countChar pat (CHR ''.'')
      else False)"

definition matchPath :: "string \<Rightarrow> string \<Rightarrow> bool" where
  "matchPath pre path = (if pre = ''/'' then True else hasPrefix path pre)"

definition route_matches :: "string \<Rightarrow> string \<Rightarrow> RouteEntry \<Rightarrow> bool" where
  "route_matches host path r \<longleftrightarrow> matchHost (re_Host r) host \<and> matchPath (re_PathPrefix r) path"

definition rt_Match :: "RouteTable \<Rightarrow> string \<Rightarrow> string \<Rightarrow> RouteEntry option" where
  "rt_Match rt host path = find (route_matches host path) (rt_entries rt)"

definition rt_All :: "RouteTable \<Rightarrow> RouteEntry list" where
  "rt_All rt = rt_entries rt"

definition rt_Count :: "RouteTable \<Rightarrow> nat" where
  "rt_Count rt = length (rt_entries rt)"

subsection \<open>The abstract table\<close>

type_synonym route_key = "string \<times> string"

definition route_key :: "RouteEntry \<Rightarrow> route_key" where
  "route_key e = (re_Host e, re_PathPrefix e)"

definition route_map :: "RouteTable \<Rightarrow> route_key \<Rightarrow> RouteEntry option" where
  "route_map rt k = find (\<lambda>r. route_key r = k) (rt_entries rt)"

definition routes_inv :: "RouteTable \<Rightarrow> bool" where
  "routes_inv rt \<longleftrightarrow>
     distinct (map route_key (rt_entries rt))
     \<and> sorted_wrt (\<lambda>a b. \<not> route_less b a) (rt_entries rt)
     \<and> (\<forall>r\<in>set (rt_entries rt). re_PathPrefix r \<noteq> [])"

datatype route_op =
    OpUpsert RouteEntry
  | OpRemove string string
  | OpRemoveByApp string

fun rt_step :: "route_sorter \<Rightarrow> route_op \<Rightarrow> RouteTable \<Rightarrow> RouteTable" where
  "rt_step srt (OpUpsert e) rt = rt_Upsert srt e rt"
| "rt_step srt (OpRemove h p) rt = rt_Remove srt h p rt"
| "rt_step srt (OpRemoveByApp a) rt = rt_RemoveByAppID srt a rt"

definition rt_run :: "route_sorter \<Rightarrow> route_op list \<Rightarrow> RouteTable" where
  "rt_run srt ops = foldl (\<lambda>rt op. rt_step srt op rt) NewRouteTable ops"

fun spec_step :: "route_op \<Rightarrow> (route_key \<Rightarrow> RouteEntry option) \<Rightarrow> (route_key \<Rightarrow> RouteEntry option)" where
  "spec_step (OpUpsert e) m = m(route_key (normalize_entry e) \<mapsto> normalize_entry e)"
| "spec_step (OpRemove h p) m = m((h, default_prefix p) := None)"
| "spec_step (OpRemoveByApp a) m =
     (\<lambda>k. case m k of None \<Rightarrow> None | Some r \<Rightarrow> if re_AppID r = a then None else Some r)"

definition spec_run :: "route_op list \<Rightarrow> (route_key \<Rightarrow> RouteEntry option)" where
  "spec_run ops = foldl (\<lambda>m op. spec_step op m) Map.empty ops"

subsection \<open>The table as a set of entries\<close>

lemma find_unique:
  assumes "distinct (map f xs)"
  shows "find (\<lambda>x. f x = k) xs = Some x \<longleftrightarrow> x \<in> set xs \<and> f x = k"
  using assms by (induction xs) (auto simp: image_iff)

lemma route_map_iff:
  "routes_inv rt \<Longrightarrow> route_map rt k = Some r \<longleftrightarrow> r \<in> set (rt_entries rt) \<and> route_key r = k"
  unfolding routes_inv_def route_map_def by (rule find_unique) simp

lemma set_put_entry:
  "distinct (map route_key rs) \<Longrightarrow>
   set (put_entry e rs) = insert e {r \<in> set rs. route_key r \<noteq> route_key e}"
  by (induction rs) (auto simp: route_key_def image_iff)

lemma keys_put_entry: "set (map route_key (put_entry e rs)) = insert (route_key e) (route_key ` set rs)"
  by (induction rs) (auto simp: route_key_def)

lemma distinct_put_entry:
  "distinct (map route_key rs) \<Longrightarrow> distinct (map route_key (put_entry e rs))"
proof (induction rs)
  case (Cons r rs)
  then show ?case
    using keys_put_entry [of e rs] by (auto simp: route_key_def image_iff)
qed simp

lemma set_drop_entry:
  "distinct (map route_key rs) \<Longrightarrow> set (drop_entry h p rs) = {r \<in> set rs. route_key r \<noteq> (h, p)}"
  by (induction rs) (auto simp: route_key_def image_iff)

lemma distinct_drop_entry:
  "distinct (map route_key rs) \<Longrightarrow> distinct (map route_key (drop_entry h p rs))"
proof (induction rs)
  case (Cons r rs)
  then show ?case
    using set_drop_entry [of rs h p] by (auto simp: image_iff)
qed simp

lemma distinct_filter_key:
  "distinct (map route_key rs) \<Longrightarrow> distinct (map route_key (filter P rs))"
  by (induction rs) auto

lemma default_prefix_nonempty [simp]: "default_prefix p \<noteq> []"
  by (simp add: default_prefix_def)

lemma default_prefix_idem [simp]: "p \<noteq> [] \<Longrightarrow> default_prefix p = p"
  by (simp add: default_prefix_def)

lemma route_map_eqI:
  assumes "routes_inv rt"
    and "\<And>k r. m k = Some r \<longleftrightarrow> r \<in> set (rt_entries rt) \<and> route_key r = k"
  shows "route_map rt = m"
proof
  fix k
  show "route_map rt k = m k"
    using route_map_iff [OF assms(1), of k] assms(2) [of k]
    by (cases "route_map rt k"; cases "m k") auto
qed

lemma route_less_asym: "route_less a b \<Longrightarrow> \<not> route_less b a"
  by (auto simp: route_less_def split: if_splits)

lemma route_less_negtrans: "\<not> route_less b a \<Longrightarrow> \<not> route_less c b \<Longrightarrow> \<not> route_less c a"
  by (auto simp: route_less_def split: if_splits)

interpretation short_sort: slice_sorter route_less "insertionSort route_less"
  by (rule slice_sorter_insertionSort) (blast dest: route_less_asym, blast dest: route_less_negtrans)

subsection \<open>Every write keeps the invariant and refines the map\<close>

context slice_sorter
begin

lemma replace_distinct:
  assumes "distinct (map f ys)"
  shows "distinct (map f (srt ys))"
  using assms by (simp add: sort_distinct_map)

end

lemma replace_inv:
  assumes "slice_sorter route_less srt"
    and "distinct (map route_key (mutate (rt_entries rt)))"
    and "\<forall>r\<in>set (mutate (rt_entries rt)). re_PathPrefix r \<noteq> []"
  shows "routes_inv (rt_replace srt mutate rt)"
  using assms
  by (simp add: routes_inv_def rt_replace_def slice_sorter.replace_distinct
      slice_sorter.sort_set slice_sorter.sort_sorted)

lemma replace_set:
  "slice_sorter route_less srt \<Longrightarrow> set (rt_entries (rt_replace srt mutate rt)) = set (mutate (rt_entries rt))"
  by (simp add: rt_replace_def slice_sorter.sort_set)

lemma Upsert_inv:
  assumes "slice_sorter route_less srt" and "routes_inv rt"
  shows "routes_inv (rt_Upsert srt e rt)"
  unfolding rt_Upsert_def Let_def
  using assms by (intro replace_inv)
    (auto simp: routes_inv_def distinct_put_entry set_put_entry normalize_entry_def)

lemma Upsert_map:
  assumes "slice_sorter route_less srt" and "routes_inv rt"
  shows "route_map (rt_Upsert srt e rt) =
    (route_map rt)(route_key (normalize_entry e) \<mapsto> normalize_entry e)"
proof (rule route_map_eqI [OF Upsert_inv [OF assms]])
  fix k r
  have d: "distinct (map route_key (rt_entries rt))" using assms(2) by (simp add: routes_inv_def)
  show "((route_map rt)(route_key (normalize_entry e) \<mapsto> normalize_entry e)) k = Some r \<longleftrightarrow>
      r \<in> set (rt_entries (rt_Upsert srt e rt)) \<and> route_key r = k"
    using route_map_iff [OF assms(2), of k r]
    by (auto simp: rt_Upsert_def Let_def replace_set [OF assms(1)] set_put_entry [OF d])
qed

lemma Remove_inv:
  assumes "slice_sorter route_less srt" and "routes_inv rt"
  shows "routes_inv (rt_Remove srt h p rt)"
  unfolding rt_Remove_def
  using assms by (intro replace_inv) (auto simp: routes_inv_def distinct_drop_entry set_drop_entry)

lemma Remove_map:
  assumes "slice_sorter route_less srt" and "routes_inv rt"
  shows "route_map (rt_Remove srt h p rt) = (route_map rt)((h, default_prefix p) := None)"
proof (rule route_map_eqI [OF Remove_inv [OF assms]])
  fix k r
  have d: "distinct (map route_key (rt_entries rt))" using assms(2) by (simp add: routes_inv_def)
  show "((route_map rt)((h, default_prefix p) := None)) k = Some r \<longleftrightarrow>
      r \<in> set (rt_entries (rt_Remove srt h p rt)) \<and> route_key r = k"
    using route_map_iff [OF assms(2), of k r]
    by (auto simp: rt_Remove_def replace_set [OF assms(1)] set_drop_entry [OF d])
qed

lemma RemoveByAppID_inv:
  assumes "slice_sorter route_less srt" and "routes_inv rt"
  shows "routes_inv (rt_RemoveByAppID srt a rt)"
  unfolding rt_RemoveByAppID_def
  using assms by (intro replace_inv) (auto simp: routes_inv_def distinct_filter_key)

lemma RemoveByAppID_map:
  assumes "slice_sorter route_less srt" and "routes_inv rt"
  shows "route_map (rt_RemoveByAppID srt a rt) = spec_step (OpRemoveByApp a) (route_map rt)"
proof (rule route_map_eqI [OF RemoveByAppID_inv [OF assms]])
  fix k r
  have "spec_step (OpRemoveByApp a) (route_map rt) k = Some r \<longleftrightarrow> route_map rt k = Some r \<and> re_AppID r \<noteq> a"
    by (auto split: option.splits)
  then show "spec_step (OpRemoveByApp a) (route_map rt) k = Some r \<longleftrightarrow>
      r \<in> set (rt_entries (rt_RemoveByAppID srt a rt)) \<and> route_key r = k"
    using route_map_iff [OF assms(2), of k r]
    by (auto simp: rt_RemoveByAppID_def replace_set [OF assms(1)])
qed

lemma step_refines:
  assumes "slice_sorter route_less srt" and "routes_inv rt"
  shows "routes_inv (rt_step srt op rt) \<and> route_map (rt_step srt op rt) = spec_step op (route_map rt)"
  using assms
  by (cases op) (auto simp: Upsert_inv Upsert_map Remove_inv Remove_map RemoveByAppID_inv RemoveByAppID_map
      simp del: spec_step.simps(3))

lemma NewRouteTable_inv [simp]: "routes_inv NewRouteTable"
  by (simp add: routes_inv_def NewRouteTable_def)

lemma run_refines:
  assumes "slice_sorter route_less srt"
  shows "routes_inv (rt_run srt ops) \<and> route_map (rt_run srt ops) = spec_run ops"
proof (induction ops rule: rev_induct)
  case Nil
  show ?case
    by (simp add: rt_run_def spec_run_def) (simp add: route_map_def NewRouteTable_def fun_eq_iff)
next
  case (snoc op ops)
  then show ?case
    using step_refines [OF assms, of "rt_run srt ops" op] by (simp add: rt_run_def spec_run_def)
qed

text \<open>The table as an instance of the map interface, keyed by host and path prefix.\<close>

lemma normalize_entry_id: "re_PathPrefix v \<noteq> [] \<Longrightarrow> normalize_entry v = v"
  by (simp add: normalize_entry_def)

interpretation routes: keyed_store route_map routes_inv
    "\<lambda>k v. rt_Upsert (insertionSort route_less) v"
    "\<lambda>k. rt_Remove (insertionSort route_less) (fst k) (snd k)"
    "\<lambda>k. snd k \<noteq> []"
    "\<lambda>k v. route_key v = k \<and> re_PathPrefix v \<noteq> []"
  by unfold_locales
    (auto simp: Upsert_map Upsert_inv Remove_map Remove_inv normalize_entry_id route_key_def
      short_sort.slice_sorter_axioms)

subsection \<open>Matching\<close>

lemma matchHost_wildcard:
  "matchHost (''*.'' @ d) host \<longleftrightarrow> (\<exists>l. host = l @ ''.'' @ d \<and> CHR ''.'' \<notin> set l)"
proof
  assume m: "matchHost (''*.'' @ d) host"
  show "\<exists>l. host = l @ ''.'' @ d \<and> CHR ''.'' \<notin> set l"
  proof (cases "''*.'' @ d = host")
    case True
    then show ?thesis by (intro exI [of _ "''*''"]) auto
  next
    case False
    with m have s: "hasSuffix host (''.'' @ d)" and c: "countChar host (CHR ''.'') = Suc (countChar d (CHR ''.''))"
      by (auto simp: matchHost_def split: if_splits)
    from s obtain l where h: "host = l @ ''.'' @ d" by (auto simp: hasSuffix_iff)
    with c have "countChar l (CHR ''.'') = 0" by simp
    with h show ?thesis by (auto simp: countChar_0_iff)
  qed
next
  assume "\<exists>l. host = l @ ''.'' @ d \<and> CHR ''.'' \<notin> set l"
  then obtain l where h: "host = l @ ''.'' @ d" and l: "countChar l (CHR ''.'') = 0"
    by (auto simp: countChar_0_iff)
  have "hasSuffix host (''.'' @ d)" using h by (auto simp: hasSuffix_iff)
  with h l show "matchHost (''*.'' @ d) host" by (simp add: matchHost_def hasPrefix_def)
qed

lemma sorted_find_best:
  assumes "sorted_wrt (\<lambda>a b. \<not> route_less b a) rs" and "find P rs = Some r"
  shows "r \<in> set rs \<and> P r \<and> (\<forall>r'\<in>set rs. P r' \<longrightarrow> \<not> route_less r' r)"
proof -
  obtain us vs where rs: "rs = us @ r # vs" and "P r" and no: "\<forall>u\<in>set us. \<not> P u"
    using find_split [OF assms(2)] by blast
  moreover have "\<not> route_less r r" by (simp add: route_less_def)
  ultimately show ?thesis using assms(1) by (auto simp: sorted_wrt_append)
qed

lemma Match_best:
  assumes "routes_inv rt" and "rt_Match rt host path = Some r"
  shows "route_map rt (route_key r) = Some r \<and> route_matches host path r
    \<and> (\<forall>k r'. route_map rt k = Some r' \<and> route_matches host path r' \<longrightarrow> \<not> route_less r' r)"
  using assms sorted_find_best [of "rt_entries rt" "route_matches host path" r]
  by (auto simp: rt_Match_def routes_inv_def route_map_iff [OF assms(1)])

lemma Match_none:
  assumes "routes_inv rt"
  shows "rt_Match rt host path = None \<longleftrightarrow> \<not> (\<exists>k r. route_map rt k = Some r \<and> route_matches host path r)"
  unfolding rt_Match_def find_None_iff using route_map_iff [OF assms] by metis

subsection \<open>Properties\<close>

text \<open>
  C1. Over every history of Upsert, Remove and RemoveByAppID the routing table is the map from
  (host, path prefix) to the last entry written under that key and not removed since, whatever
  the order sort.Slice gives to ties; and the stored slice stays sorted by priority and prefix
  length, with one entry per key and no empty prefix.
\<close>

theorem route_table_refines_map:
  assumes "slice_sorter route_less srt"
  shows "route_map (rt_run srt ops) = spec_run ops \<and> routes_inv (rt_run srt ops)"
  using run_refines [OF assms] by blast

definition ex_route :: "string \<Rightarrow> string \<Rightarrow> int \<Rightarrow> string \<Rightarrow> RouteEntry" where
  "ex_route h p prio app = \<lparr>re_Host = h, re_PathPrefix = p, re_Priority = prio,
     re_ServiceName = app, re_Backends = [''10.0.0.1:80''], re_LBStrategy = ''round-robin'',
     re_Middlewares = [], re_TLS = False, re_StripPrefix = False, re_HealthPath = [], re_AppID = app\<rparr>"

lemma route_table_refines_map_witness:
  "route_map (rt_run (insertionSort route_less)
      [OpUpsert (ex_route ''a.io'' [] 0 ''x''), OpUpsert (ex_route ''a.io'' ''/api'' 0 ''y''),
       OpRemoveByApp ''x'']) (''a.io'', ''/api'') = Some (ex_route ''a.io'' ''/api'' 0 ''y'')"
  using route_table_refines_map [OF short_sort.slice_sorter_axioms, of
      "[OpUpsert (ex_route ''a.io'' [] 0 ''x''), OpUpsert (ex_route ''a.io'' ''/api'' 0 ''y''),
       OpRemoveByApp ''x'']"]
  by (simp add: spec_run_def normalize_entry_def default_prefix_def route_key_def ex_route_def)



text \<open>
  A wildcard pattern *.d matches exactly the hosts that put one dot-free label in front of
  .d: a wildcard never reaches into a deeper subdomain and never matches d itself.
\<close>

theorem wildcard_host_one_label:
  "matchHost (''*.'' @ d) host \<longleftrightarrow> (\<exists>l. host = l @ ''.'' @ d \<and> CHR ''.'' \<notin> set l)"
  by (rule matchHost_wildcard)

text \<open>
  Precedence between matching routes ignores the host pattern: there is a table holding an
  exact-host route and a wildcard route that both match a request, in which Match returns the
  wildcard route.
\<close>

theorem exact_host_not_preferred:
  assumes "slice_sorter route_less srt"
  shows "\<exists>ops host path r e. rt_Match (rt_run srt ops) host path = Some r \<and> re_Host r \<noteq> host
     \<and> spec_run ops (route_key e) = Some e \<and> re_Host e = host \<and> route_matches host path e"
proof -
  let ?e = "ex_route ''app.io.com'' ''/'' 0 ''exact''"
  let ?w = "ex_route ''*.io.com'' ''/api'' 0 ''wild''"
  let ?ops = "[OpUpsert ?e, OpUpsert ?w]"
  let ?h = "''app.io.com''" let ?p = "''/api''"
  have sp: "spec_run ?ops k = (if k = route_key ?w then Some ?w else if k = route_key ?e then Some ?e else None)" for k
    by (simp add: spec_run_def normalize_entry_def default_prefix_def route_key_def ex_route_def)
  have me: "route_matches ?h ?p ?e" and mw: "route_matches ?h ?p ?w"
    by (simp_all add: route_matches_def matchHost_def matchPath_def hasPrefix_def hasSuffix_def ex_route_def)
  have we: "route_less ?w ?e" by (simp add: route_less_def ex_route_def)
  have kne: "route_key ?w \<noteq> route_key ?e" by (simp add: route_key_def ex_route_def)
  have best: "routes_inv (rt_run srt ?ops)" and map: "route_map (rt_run srt ?ops) = spec_run ?ops"
    using run_refines [OF assms, of ?ops] by auto
  have "rt_Match (rt_run srt ?ops) ?h ?p \<noteq> None"
    using Match_none [OF best, of ?h ?p] me sp [of "route_key ?e"] kne map by (metis (no_types, lifting))
  then obtain r where r: "rt_Match (rt_run srt ?ops) ?h ?p = Some r" by auto
  have "r = ?w"
    using Match_best [OF best r] sp map we mw kne by (metis (no_types, lifting) option.distinct(1) option.inject)
  then have "re_Host r \<noteq> ?h" by (simp add: ex_route_def)
  with r me sp [of "route_key ?e"] kne show ?thesis
    by (intro exI [of _ ?ops] exI [of _ ?h] exI [of _ ?p] exI [of _ r] exI [of _ ?e])
      (simp add: ex_route_def route_key_def)
qed

lemma exact_host_not_preferred_witness:
  "\<exists>ops host path r e. rt_Match (rt_run (insertionSort route_less) ops) host path = Some r \<and> re_Host r \<noteq> host
     \<and> spec_run ops (route_key e) = Some e \<and> re_Host e = host \<and> route_matches host path e"
  by (rule exact_host_not_preferred [OF short_sort.slice_sorter_axioms])

end
