(* ===== verification/Module_Registry.thy ===== *)
theory Module_Registry
  imports Prelude
begin

text \<open>
  The module registry of \<open>internal/core/registry.go\<close>: registration, dependency resolution by
  depth-first search, and the lifecycle calls in dependency order.

  A module is an interface value: its identifier, its dependency list and the effects of its
  \<open>Init\<close>, \<open>Start\<close> and \<open>Stop\<close> methods on the state \<open>'w\<close> of the process, each with an optional
  error. Go iterates over a map in an unspecified order, so \<open>Resolve\<close> takes the enumeration
  \<open>ids\<close> of the registered identifiers as an argument. The recursion of the local function
  \<open>visit\<close> carries fuel; \<open>Resolve\<close> starts it with one more than the number of modules, and
  the error \<open>OutOfFuel\<close> is shown to be impossible.
\<close>

datatype HealthStatus = HealthOK | HealthDegraded | HealthDown

record 'w Module =
  md_ID :: string
  md_Dependencies :: "string list"
  md_Init :: "'w \<Rightarrow> 'w \<times> string option"
  md_Start :: "'w \<Rightarrow> 'w \<times> string option"
  md_Stop :: "'w \<Rightarrow> 'w \<times> string option"
  md_Health :: "'w \<Rightarrow> HealthStatus"

record 'w Registry =
  rg_modules :: "string \<rightharpoonup> 'w Module"
  rg_order :: "string list"

definition NewRegistry :: "'w Registry" where
  "NewRegistry = \<lparr>rg_modules = Map.empty, rg_order = []\<rparr>"

datatype RegistryError =
    AlreadyRegistered string
  | CircularDependency string
  | UnknownDependency string
  | OutOfFuel
  | InitFailed string string
  | StartFailed string string
  | StopFailed string string
  | NilModule string

definition rg_Register :: "'w Registry \<Rightarrow> 'w Module \<Rightarrow> RegistryError + 'w Registry" where
  "rg_Register r m =
     (if rg_modules r (md_ID m) \<noteq> None then Inl (AlreadyRegistered (md_ID m))
      else Inr (r\<lparr>rg_modules := (rg_modules r)(md_ID m \<mapsto> m)\<rparr>))"

subsection \<open>Resolve\<close>

record visit_state =
  vs_visited :: "string \<Rightarrow> bool"
  vs_visiting :: "string \<Rightarrow> bool"
  vs_sorted :: "string list"

fun rg_visit :: "(string \<rightharpoonup> 'w Module) \<Rightarrow> nat \<Rightarrow> string \<Rightarrow> visit_state \<Rightarrow> RegistryError + visit_state"
  and rg_visit_deps ::
    "(string \<rightharpoonup> 'w Module) \<Rightarrow> nat \<Rightarrow> string list \<Rightarrow> visit_state \<Rightarrow> RegistryError + visit_state"
where
  "rg_visit ms 0 mid st = Inl OutOfFuel"
| "rg_visit ms (Suc n) mid st =
     (if vs_visited st mid then Inr st
      else if vs_visiting st mid then Inl (CircularDependency mid)
      else
        let st1 = st\<lparr>vs_visiting := (vs_visiting st)(mid := True)\<rparr>
        in case ms mid of
             None \<Rightarrow> Inl (UnknownDependency mid)
           | Some m \<Rightarrow>
               (case rg_visit_deps ms n (md_Dependencies m) st1 of
                  Inl e \<Rightarrow> Inl e
                | Inr st2 \<Rightarrow>
                    Inr (st2\<lparr>vs_visiting := (vs_visiting st2)(mid := False),
                             vs_visited := (vs_visited st2)(mid := True),
                             vs_sorted := vs_sorted st2 @ [mid]\<rparr>)))"
| "rg_visit_deps ms n [] st = Inr st"
| "rg_visit_deps ms n (d # ds) st =
     (case rg_visit ms n d st of Inl e \<Rightarrow> Inl e | Inr st1 \<Rightarrow> rg_visit_deps ms n ds st1)"

definition rg_Resolve :: "string list \<Rightarrow> 'w Registry \<Rightarrow> RegistryError + 'w Registry" where
  "rg_Resolve ids r =
     (case rg_visit_deps (rg_modules r) (Suc (length ids)) ids
             \<lparr>vs_visited = (\<lambda>_. False), vs_visiting = (\<lambda>_. False), vs_sorted = []\<rparr> of
        Inl e \<Rightarrow> Inl e
      | Inr st \<Rightarrow> Inr (r\<lparr>rg_order := vs_sorted st\<rparr>))"

subsection \<open>Lifecycle calls\<close>

fun call_loop ::
  "('w Module \<Rightarrow> 'w \<Rightarrow> 'w \<times> string option) \<Rightarrow> (string \<Rightarrow> string \<Rightarrow> RegistryError) \<Rightarrow>
   (string \<rightharpoonup> 'w Module) \<Rightarrow> string list \<Rightarrow> 'w \<Rightarrow> 'w \<times> RegistryError option" where
  "call_loop call err ms [] w = (w, None)"
| "call_loop call err ms (mid # ids) w =
     (case ms mid of
        None \<Rightarrow> (w, Some (NilModule mid))
      | Some m \<Rightarrow>
          (case call m w of
             (w', Some e) \<Rightarrow> (w', Some (err mid e))
           | (w', None) \<Rightarrow> call_loop call err ms ids w'))"

definition rg_InitAll :: "'w Registry \<Rightarrow> 'w \<Rightarrow> 'w \<times> RegistryError option" where
  "rg_InitAll r w = call_loop md_Init InitFailed (rg_modules r) (rg_order r) w"

definition rg_StartAll :: "'w Registry \<Rightarrow> 'w \<Rightarrow> 'w \<times> RegistryError option" where
  "rg_StartAll r w = call_loop md_Start StartFailed (rg_modules r) (rg_order r) w"

fun stop_loop ::
  "(string \<rightharpoonup> 'w Module) \<Rightarrow> string list \<Rightarrow> RegistryError option \<Rightarrow> 'w \<Rightarrow> 'w \<times> RegistryError option" where
  "stop_loop ms [] firstErr w = (w, firstErr)"
| "stop_loop ms (mid # ids) firstErr w =
     (case ms mid of
        None \<Rightarrow> (w, Some (NilModule mid))
      | Some m \<Rightarrow>
          (case md_Stop m w of
             (w', Some e) \<Rightarrow>
               stop_loop ms ids
                 (case firstErr of None \<Rightarrow> Some (StopFailed mid e) | Some f \<Rightarrow> Some f) w'
           | (w', None) \<Rightarrow> stop_loop ms ids firstErr w'))"

definition rg_StopAll :: "'w Registry \<Rightarrow> 'w \<Rightarrow> 'w \<times> RegistryError option" where
  "rg_StopAll r w = stop_loop (rg_modules r) (rev (rg_order r)) None w"

definition rg_Get :: "'w Registry \<Rightarrow> string \<Rightarrow> 'w Module option" where
  "rg_Get r mid = rg_modules r mid"

definition rg_All :: "'w Registry \<Rightarrow> string list" where
  "rg_All r = rg_order r"

definition rg_HealthAll :: "'w Registry \<Rightarrow> 'w \<Rightarrow> (string \<rightharpoonup> HealthStatus)" where
  "rg_HealthAll r w = (\<lambda>mid. map_option (\<lambda>m. md_Health m w) (rg_modules r mid))"

subsection \<open>Specification of the order\<close>

definition deps_of :: "(string \<rightharpoonup> 'w Module) \<Rightarrow> string \<Rightarrow> string set" where
  "deps_of ms mid = (case ms mid of None \<Rightarrow> {} | Some m \<Rightarrow> set (md_Dependencies m))"

definition dep_rel :: "(string \<rightharpoonup> 'w Module) \<Rightarrow> (string \<times> string) set" where
  "dep_rel ms = {(d, mid). d \<in> deps_of ms mid}"

definition resolvable :: "(string \<rightharpoonup> 'w Module) \<Rightarrow> bool" where
  "resolvable ms \<longleftrightarrow> (\<forall>mid. deps_of ms mid \<subseteq> dom ms) \<and> acyclic (dep_rel ms)"

definition deps_precede :: "(string \<rightharpoonup> 'w Module) \<Rightarrow> string list \<Rightarrow> bool" where
  "deps_precede ms xs \<longleftrightarrow> (\<forall>us x vs. xs = us @ x # vs \<longrightarrow> deps_of ms x \<subseteq> set us)"

definition visit_inv :: "(string \<rightharpoonup> 'w Module) \<Rightarrow> visit_state \<Rightarrow> bool" where
  "visit_inv ms st \<longleftrightarrow>
     (\<forall>x. vs_visited st x \<longleftrightarrow> x \<in> set (vs_sorted st)) \<and> distinct (vs_sorted st)
     \<and> deps_precede ms (vs_sorted st) \<and> set (vs_sorted st) \<subseteq> dom ms"

lemma deps_precede_Nil [simp]: "deps_precede ms []"
  by (simp add: deps_precede_def)

lemma deps_precede_snoc [simp]:
  "deps_precede ms (xs @ [x]) \<longleftrightarrow> deps_precede ms xs \<and> deps_of ms x \<subseteq> set xs"
proof -
  have "xs @ [x] = us @ y # vs \<longleftrightarrow>
      (vs = [] \<and> us = xs \<and> y = x) \<or> (\<exists>ws. vs = ws @ [x] \<and> xs = us @ y # ws)" for us y vs
    by (cases vs rule: rev_cases) auto
  then show ?thesis
    unfolding deps_precede_def by (simp only:) blast
qed

lemma deps_precedeD: "deps_precede ms (us @ x # vs) \<Longrightarrow> deps_of ms x \<subseteq> set us"
  by (simp add: deps_precede_def)

lemma visit_inv_extend:
  assumes "visit_inv ms st" "mid \<notin> set (vs_sorted st)" "deps_of ms mid \<subseteq> set (vs_sorted st)"
    and "mid \<in> dom ms"
  shows "visit_inv ms (st\<lparr>vs_visiting := v, vs_visited := (vs_visited st)(mid := True),
                         vs_sorted := vs_sorted st @ [mid]\<rparr>)"
  using assms by (auto simp: visit_inv_def)

text \<open>What a successful visit establishes: the invariant, growth of the order, an unchanged
  \<open>visiting\<close> set, and that no module still being visited enters the order.\<close>

definition visit_post :: "(string \<rightharpoonup> 'w Module) \<Rightarrow> visit_state \<Rightarrow> visit_state \<Rightarrow> bool" where
  "visit_post ms st st' \<longleftrightarrow>
     visit_inv ms st' \<and> set (vs_sorted st) \<subseteq> set (vs_sorted st')
     \<and> vs_visiting st' = vs_visiting st
     \<and> (\<forall>x. vs_visiting st x \<and> x \<in> set (vs_sorted st') \<longrightarrow> x \<in> set (vs_sorted st))"

lemma visit_post_refl [simp]: "visit_post ms st st \<longleftrightarrow> visit_inv ms st"
  by (auto simp: visit_post_def)

lemma visit_post_trans:
  "visit_post ms st st1 \<Longrightarrow> visit_post ms st1 st2 \<Longrightarrow> visit_post ms st st2"
  unfolding visit_post_def by (metis subset_trans)

lemma visit_success:
  "visit_inv ms st \<Longrightarrow> rg_visit ms n i st = Inr st' \<Longrightarrow>
     visit_post ms st st' \<and> i \<in> set (vs_sorted st')"
  "visit_inv ms st \<Longrightarrow> rg_visit_deps ms n ds st = Inr st' \<Longrightarrow>
     visit_post ms st st' \<and> set ds \<subseteq> set (vs_sorted st')"
proof (induction ms n i st and ms n ds st arbitrary: st' and st' rule: rg_visit_rg_visit_deps.induct)
  case (2 ms n i st)
  show ?case
  proof (cases "vs_visited st i")
    case True
    then show ?thesis using 2 by (auto simp: visit_inv_def)
  next
    case new: False
    then obtain m st2 where m: "ms i = Some m" "\<not> vs_visiting st i"
      and run: "rg_visit_deps ms n (md_Dependencies m)
                  (st\<lparr>vs_visiting := (vs_visiting st)(i := True)\<rparr>) = Inr st2"
      and st': "st' = st2\<lparr>vs_visiting := (vs_visiting st2)(i := False),
                        vs_visited := (vs_visited st2)(i := True),
                        vs_sorted := vs_sorted st2 @ [i]\<rparr>"
      using 2(3) by (auto simp: Let_def split: if_splits option.splits sum.splits)
    have inv1: "visit_inv ms (st\<lparr>vs_visiting := (vs_visiting st)(i := True)\<rparr>)"
      using 2(2) by (simp add: visit_inv_def)
    have post: "visit_post ms (st\<lparr>vs_visiting := (vs_visiting st)(i := True)\<rparr>) st2"
      and deps: "set (md_Dependencies m) \<subseteq> set (vs_sorted st2)"
      using 2(1)[OF new m(2) refl m(1) inv1 run] by auto
    have "i \<notin> set (vs_sorted st2)"
      using post new 2(2) by (auto simp: visit_post_def visit_inv_def)
    then have "visit_inv ms st'"
      unfolding st' using post deps m by (intro visit_inv_extend) (auto simp: visit_post_def deps_of_def)
    then show ?thesis
      using post m(2) fun_upd_idem[of "vs_visiting st" i False] by (auto simp: st' visit_post_def)
  qed
next
  case (4 ms n d ds st)
  then obtain st1 where run: "rg_visit ms n d st = Inr st1" "rg_visit_deps ms n ds st1 = Inr st'"
    by (auto split: sum.splits)
  have one: "visit_post ms st st1 \<and> d \<in> set (vs_sorted st1)"
    using 4(1)[OF 4(3) run(1)] .
  then have "visit_inv ms st1"
    by (simp add: visit_post_def)
  then have two: "visit_post ms st1 st' \<and> set ds \<subseteq> set (vs_sorted st')"
    using 4(2)[OF run(1) _ run(2)] by simp
  have "d \<in> set (vs_sorted st')"
    using one two by (auto simp: visit_post_def)
  then show ?case
    using one two by (auto intro: visit_post_trans)
qed simp_all

text \<open>What a failing visit reports.  The modules being visited all depend, transitively, on the
  one visited next, so meeting one of them again is a cycle.\<close>

definition on_path :: "(string \<rightharpoonup> 'w Module) \<Rightarrow> visit_state \<Rightarrow> string \<Rightarrow> bool" where
  "on_path ms st i \<longleftrightarrow> (\<forall>x. vs_visiting st x \<longrightarrow> (i, x) \<in> (dep_rel ms)\<^sup>+)"

definition referenced :: "(string \<rightharpoonup> 'w Module) \<Rightarrow> string \<Rightarrow> bool" where
  "referenced ms i \<longleftrightarrow> i \<in> dom ms \<or> (\<exists>j. i \<in> deps_of ms j)"

definition resolve_error_ok :: "(string \<rightharpoonup> 'w Module) \<Rightarrow> RegistryError \<Rightarrow> bool" where
  "resolve_error_ok ms e \<longleftrightarrow>
     (case e of
        CircularDependency x \<Rightarrow> (x, x) \<in> (dep_rel ms)\<^sup>+
      | UnknownDependency x \<Rightarrow> x \<notin> dom ms \<and> (\<exists>j. x \<in> deps_of ms j)
      | _ \<Rightarrow> False)"

lemma on_path_step:
  assumes "on_path ms st i" "ms i = Some m" "d \<in> set (md_Dependencies m)"
  shows "on_path ms (st\<lparr>vs_visiting := (vs_visiting st)(i := True)\<rparr>) d"
proof -
  have "(d, i) \<in> dep_rel ms"
    using assms by (auto simp: dep_rel_def deps_of_def)
  then show ?thesis
    using assms(1) by (auto simp: on_path_def intro: trancl_into_trancl2)
qed

lemma unvisited_decrease:
  assumes "finite (dom ms)" "ms i = Some m" "\<not> v i"
  shows "card {x \<in> dom ms. \<not> (v(i := True)) x} < card {x \<in> dom ms. \<not> v x}"
  using assms by (intro psubset_card_mono) auto

lemma visit_failure:
  "visit_inv ms st \<Longrightarrow> finite (dom ms) \<Longrightarrow> card {x \<in> dom ms. \<not> vs_visiting st x} < n \<Longrightarrow>
     on_path ms st i \<Longrightarrow> referenced ms i \<Longrightarrow> rg_visit ms n i st = Inl e \<Longrightarrow> resolve_error_ok ms e"
  "visit_inv ms st \<Longrightarrow> finite (dom ms) \<Longrightarrow> card {x \<in> dom ms. \<not> vs_visiting st x} < n \<Longrightarrow>
     (\<forall>d\<in>set ds. on_path ms st d \<and> referenced ms d) \<Longrightarrow>
     rg_visit_deps ms n ds st = Inl e \<Longrightarrow> resolve_error_ok ms e"
proof (induction ms n i st and ms n ds st arbitrary: e and e rule: rg_visit_rg_visit_deps.induct)
  case (2 ms n i st)
  show ?case
  proof (cases "vs_visited st i \<or> vs_visiting st i \<or> ms i = None")
    case True
    then show ?thesis
      using 2(2-) by (auto simp: resolve_error_ok_def on_path_def referenced_def split: if_splits)
  next
    case new: False
    then obtain m where m: "ms i = Some m" "\<not> vs_visited st i" "\<not> vs_visiting st i"
      by blast
    let ?st1 = "st\<lparr>vs_visiting := (vs_visiting st)(i := True)\<rparr>"
    have run: "rg_visit_deps ms n (md_Dependencies m) ?st1 = Inl e"
      using 2(7) m by (auto simp: Let_def split: sum.splits)
    have inv1: "visit_inv ms ?st1"
      using 2(2) by (simp add: visit_inv_def)
    have fuel: "card {x \<in> dom ms. \<not> vs_visiting ?st1 x} < n"
      using unvisited_decrease[of ms i m "vs_visiting st"] 2(3,4) m by simp
    have "\<forall>d\<in>set (md_Dependencies m). on_path ms ?st1 d \<and> referenced ms d"
      using on_path_step[OF 2(5) m(1)] m(1) by (auto simp: referenced_def deps_of_def split: option.splits)
    then show ?thesis
      using 2(1)[OF m(2,3) refl m(1) inv1 2(3) fuel _ run] by simp
  qed
next
  case (4 ms n d ds st)
  show ?case
  proof (cases "rg_visit ms n d st")
    case (Inl e')
    then show ?thesis using 4 by simp
  next
    case (Inr st1)
    have post: "visit_post ms st st1"
      using visit_success(1)[OF 4(3) Inr] by simp
    then show ?thesis
      using 4(2)[OF Inr, of e] 4(3-) Inr by (simp add: visit_post_def on_path_def)
  qed
qed simp_all

lemma resolvable_no_error: "resolvable ms \<Longrightarrow> \<not> resolve_error_ok ms e"
  by (auto simp: resolvable_def resolve_error_ok_def acyclic_def split: RegistryError.splits)

lemma deps_precede_acyclic:
  assumes "deps_precede ms xs" "distinct xs" "set xs = dom ms"
  shows "acyclic (dep_rel ms)"
proof -
  define pos where "pos x = length (takeWhile (\<lambda>y. y \<noteq> x) xs)" for x
  have "pos d < pos i" if "(d, i) \<in> dep_rel ms" for d i
  proof -
    have "i \<in> set xs"
      using that assms(3) by (auto simp: dep_rel_def deps_of_def split: option.splits)
    then obtain us vs where xs: "xs = us @ i # vs" "i \<notin> set us"
      using split_list_first by fastforce
    moreover have "d \<in> set us"
      using assms(1) that xs by (auto simp: deps_precede_def dep_rel_def)
    moreover have "length (takeWhile (\<lambda>y. y \<noteq> d) us) < length us" if "d \<in> set us" for us
      using that by (induction us) auto
    moreover have "takeWhile (\<lambda>y. y \<noteq> i) xs = us"
      using xs by (auto simp: takeWhile_tail takeWhile_eq_all_conv)
    ultimately show ?thesis
      by (simp add: pos_def takeWhile_append1)
  qed
  then have "dep_rel ms \<subseteq> measure pos"
    by auto
  then show ?thesis
    by (rule wf_acyclic[OF wf_subset[OF wf_measure]])
qed

lemma deps_precede_closed:
  assumes "deps_precede ms xs" "set xs = dom ms"
  shows "deps_of ms i \<subseteq> dom ms"
proof (cases "i \<in> set xs")
  case True
  then obtain us vs where "xs = us @ i # vs"
    by (meson split_list)
  then have "deps_of ms i \<subseteq> set us \<and> set us \<subseteq> set xs"
    using assms(1) by (auto simp: deps_precede_def)
  then show ?thesis
    using assms(2) by blast
next
  case False
  then have "ms i = None"
    using assms(2) by (simp add: domIff)
  then show ?thesis
    by (simp add: deps_of_def)
qed

lemma resolve_error_state:
  assumes "distinct ids" "set ids = dom (rg_modules r)" "rg_Resolve ids r = Inl e"
  shows "resolve_error_ok (rg_modules r) e"
proof -
  let ?st = "\<lparr>vs_visited = (\<lambda>_. False), vs_visiting = (\<lambda>_. False), vs_sorted = []\<rparr>"
  have "visit_inv (rg_modules r) ?st"
    by (simp add: visit_inv_def)
  moreover have "finite (dom (rg_modules r))" "card (dom (rg_modules r)) < Suc (length ids)"
    using assms(1) by (simp_all add: assms(2)[symmetric] distinct_card)
  moreover have "\<forall>d\<in>set ids. on_path (rg_modules r) ?st d \<and> referenced (rg_modules r) d"
    using assms(2) by (simp add: on_path_def referenced_def)
  ultimately show ?thesis
    using visit_failure(2)[of "rg_modules r" ?st "Suc (length ids)" ids e] assms(3)
    by (auto simp: rg_Resolve_def split: sum.splits)
qed

lemma resolve_order:
  assumes "set ids = dom (rg_modules r)" "rg_Resolve ids r = Inr r'"
  shows "r' = r\<lparr>rg_order := rg_order r'\<rparr>" "distinct (rg_order r')"
    "set (rg_order r') = dom (rg_modules r)" "deps_precede (rg_modules r) (rg_order r')"
proof -
  let ?st = "\<lparr>vs_visited = (\<lambda>_. False), vs_visiting = (\<lambda>_. False), vs_sorted = []\<rparr>"
  obtain st where run: "rg_visit_deps (rg_modules r) (Suc (length ids)) ids ?st = Inr st"
    and r': "r' = r\<lparr>rg_order := vs_sorted st\<rparr>"
    using assms(2) by (auto simp: rg_Resolve_def split: sum.splits)
  have "visit_inv (rg_modules r) ?st"
    by (simp add: visit_inv_def)
  then have "visit_post (rg_modules r) ?st st \<and> set ids \<subseteq> set (vs_sorted st)"
    using visit_success(2) run by blast
  then show "r' = r\<lparr>rg_order := rg_order r'\<rparr>" "distinct (rg_order r')"
    "set (rg_order r') = dom (rg_modules r)" "deps_precede (rg_modules r) (rg_order r')"
    using assms(1) by (auto simp: r' visit_post_def visit_inv_def)
qed

text \<open>
  C2. Resolve is correct and complete: it succeeds exactly when every dependency is registered and
  the dependency relation has no cycle; then the new order lists every module once, each after all
  of its dependencies, and nothing else of the registry changes. An error names a module that is on
  a cycle, or one that is depended on and not registered; the search always ends.
\<close>

theorem resolve_correct:
  assumes "distinct ids" "set ids = dom (rg_modules r)"
  shows "case rg_Resolve ids r of
      Inr r' \<Rightarrow> resolvable (rg_modules r) \<and> r' = r\<lparr>rg_order := rg_order r'\<rparr>
        \<and> distinct (rg_order r') \<and> set (rg_order r') = dom (rg_modules r)
        \<and> deps_precede (rg_modules r) (rg_order r')
    | Inl e \<Rightarrow> \<not> resolvable (rg_modules r) \<and> resolve_error_ok (rg_modules r) e"
proof (cases "rg_Resolve ids r")
  case (Inl e)
  then show ?thesis
    using resolve_error_state[OF assms Inl] resolvable_no_error by auto
next
  case (Inr r')
  note ord = resolve_order[OF assms(2) Inr]
  then have "resolvable (rg_modules r)"
    unfolding resolvable_def using deps_precede_acyclic deps_precede_closed by blast
  then show ?thesis
    using ord Inr by simp
qed

definition ex_module :: "string \<Rightarrow> string list \<Rightarrow> (string list) Module" where
  "ex_module i ds = \<lparr>md_ID = i, md_Dependencies = ds,
     md_Init = (\<lambda>w. (w @ [i], None)), md_Start = (\<lambda>w. (w @ [i], None)),
     md_Stop = (\<lambda>w. (w @ [i], if i = ''db'' then Some ''busy'' else None)), md_Health = (\<lambda>_. HealthOK)\<rparr>"

definition ex_registry :: "(string list) Registry" where
  "ex_registry = \<lparr>rg_modules = [''api'' \<mapsto> ex_module ''api'' [''db''], ''db'' \<mapsto> ex_module ''db'' []],
                  rg_order = []\<rparr>"

lemma ex_registry_resolved:
  "rg_Resolve [''api'', ''db''] ex_registry = Inr (ex_registry\<lparr>rg_order := [''db'', ''api'']\<rparr>)"
  by (simp add: rg_Resolve_def ex_registry_def ex_module_def numeral_2_eq_2 Let_def)

lemma ex_registry_ids: "distinct [''api'', ''db'']" "set [''api'', ''db''] = dom (rg_modules ex_registry)"
  by (auto simp: ex_registry_def split: if_splits)

theorem resolve_correct_witness:
  "deps_precede (rg_modules ex_registry) [''db'', ''api''] \<and> resolvable (rg_modules ex_registry)"
  using resolve_correct[OF ex_registry_ids] by (simp add: ex_registry_resolved)

subsection \<open>Lifecycle properties\<close>

definition call_run ::
  "('w Module \<Rightarrow> 'w \<Rightarrow> 'w \<times> string option) \<Rightarrow> (string \<rightharpoonup> 'w Module) \<Rightarrow> string list \<Rightarrow> 'w \<Rightarrow> 'w" where
  "call_run call ms xs w = fold (\<lambda>i w. fst (call (the (ms i)) w)) xs w"

fun calls_ok ::
  "('w Module \<Rightarrow> 'w \<Rightarrow> 'w \<times> string option) \<Rightarrow> (string \<rightharpoonup> 'w Module) \<Rightarrow> string list \<Rightarrow> 'w \<Rightarrow> bool" where
  "calls_ok call ms [] w \<longleftrightarrow> True"
| "calls_ok call ms (i # xs) w \<longleftrightarrow>
     snd (call (the (ms i)) w) = None \<and> calls_ok call ms xs (fst (call (the (ms i)) w))"

lemma call_run_simps [simp]:
  "call_run call ms [] w = w"
  "call_run call ms (i # xs) w = call_run call ms xs (fst (call (the (ms i)) w))"
  by (simp_all add: call_run_def)

lemma call_loop_ok:
  "set xs \<subseteq> dom ms \<Longrightarrow> call_loop call err ms xs w = (w', None) \<Longrightarrow>
   w' = call_run call ms xs w \<and> calls_ok call ms xs w"
  by (induction xs arbitrary: w) (auto split: option.splits prod.splits)

lemma call_loop_err:
  "set xs \<subseteq> dom ms \<Longrightarrow> call_loop call err ms xs w = (w', Some r) \<Longrightarrow>
   \<exists>us i vs e. xs = us @ i # vs \<and> calls_ok call ms us w \<and> r = err i e
     \<and> call (the (ms i)) (call_run call ms us w) = (w', Some e)"
proof (induction xs arbitrary: w)
  case (Cons i xs)
  then obtain m where m: "ms i = Some m"
    by auto
  show ?case
  proof (cases "snd (call m w)")
    case None
    then have "call_loop call err ms xs (fst (call m w)) = (w', Some r)"
      using m Cons(3) by (auto split: prod.splits)
    then obtain us j vs e where "xs = us @ j # vs" "calls_ok call ms us (fst (call m w))" "r = err j e"
        "call (the (ms j)) (call_run call ms us (fst (call m w))) = (w', Some e)"
      using Cons(1)[of "fst (call m w)"] Cons(2) by auto
    then have "i # xs = (i # us) @ j # vs \<and> calls_ok call ms (i # us) w \<and> r = err j e
        \<and> call (the (ms j)) (call_run call ms (i # us) w) = (w', Some e)"
      using None m by simp
    then show ?thesis
      by blast
  next
    case (Some e)
    then have "i # xs = [] @ i # xs \<and> calls_ok call ms [] w \<and> r = err i e
        \<and> call (the (ms i)) (call_run call ms [] w) = (w', Some e)"
      using m Cons(3) by (auto split: prod.splits)
    then show ?thesis
      by blast
  qed
qed simp

fun stop_errors :: "(string \<rightharpoonup> 'w Module) \<Rightarrow> string list \<Rightarrow> 'w \<Rightarrow> RegistryError list" where
  "stop_errors ms [] w = []"
| "stop_errors ms (i # xs) w =
     (case md_Stop (the (ms i)) w of
        (w', None) \<Rightarrow> stop_errors ms xs w'
      | (w', Some e) \<Rightarrow> StopFailed i e # stop_errors ms xs w')"

lemma stop_loop_result:
  "set xs \<subseteq> dom ms \<Longrightarrow>
   stop_loop ms xs err w =
     (call_run md_Stop ms xs w,
      case err of Some f \<Rightarrow> Some f
      | None \<Rightarrow> (case stop_errors ms xs w of [] \<Rightarrow> None | e # _ \<Rightarrow> Some e))"
  by (induction xs arbitrary: err w) (auto split: option.splits prod.splits)

lemma deps_precede_rev:
  assumes "deps_precede ms xs" "distinct xs" "rev xs = us @ i # vs"
  shows "deps_of ms i \<subseteq> set vs" "deps_of ms i \<inter> set us = {}"
proof -
  have xs: "xs = rev vs @ i # rev us"
    using assms(3) by (metis append.assoc append_Cons append_Nil rev.simps(2) rev_append rev_rev_ident)
  then show "deps_of ms i \<subseteq> set vs"
    using assms(1) deps_precedeD[of ms "rev vs"] by simp
  then show "deps_of ms i \<inter> set us = {}"
    using assms(2) xs by auto
qed

text \<open>
  InitAll initialises the modules in dependency order: on a resolved registry it either calls
  Init once on every module, each after all of its dependencies and none failing, or it stops at the
  first module whose Init fails, reports that module and its error, and that module's dependencies
  had all been initialised without error.
\<close>

theorem init_all_in_order:
  assumes "set ids = dom (rg_modules r)" "rg_Resolve ids r = Inr r'"
  shows "case rg_InitAll r' w of
      (w', None) \<Rightarrow> w' = call_run md_Init (rg_modules r) (rg_order r') w
        \<and> calls_ok md_Init (rg_modules r) (rg_order r') w
    | (w', Some err) \<Rightarrow> \<exists>us i vs e. rg_order r' = us @ i # vs \<and> deps_of (rg_modules r) i \<subseteq> set us
        \<and> calls_ok md_Init (rg_modules r) us w \<and> err = InitFailed i e
        \<and> md_Init (the (rg_modules r i)) (call_run md_Init (rg_modules r) us w) = (w', Some e)"
proof -
  note ord = resolve_order[OF assms]
  have ms: "rg_modules r' = rg_modules r"
    using ord(1) by (metis Registry.select_convs(1) Registry.surjective Registry.update_convs(2))
  have run: "rg_InitAll r' w = call_loop md_Init InitFailed (rg_modules r) (rg_order r') w"
    by (simp add: rg_InitAll_def ms)
  have sub: "set (rg_order r') \<subseteq> dom (rg_modules r)"
    using ord(3) by simp
  show ?thesis
  proof (cases "rg_InitAll r' w")
    case (Pair w' res)
    note eq = Pair[unfolded run]
    show ?thesis
    proof (cases res)
      case None
      then show ?thesis
        using call_loop_ok[OF sub] eq Pair by simp
    next
      case (Some err)
      then obtain us i vs e where "rg_order r' = us @ i # vs" "calls_ok md_Init (rg_modules r) us w"
        "err = InitFailed i e"
        "md_Init (the (rg_modules r i)) (call_run md_Init (rg_modules r) us w) = (w', Some e)"
        using call_loop_err[OF sub] eq by blast
      moreover from this(1) have "deps_of (rg_modules r) i \<subseteq> set us"
        using ord(4) deps_precedeD by metis
      ultimately show ?thesis
        unfolding Pair Some prod.case option.case by blast
    qed
  qed
qed

theorem init_all_in_order_witness:
  "rg_InitAll (ex_registry\<lparr>rg_order := [''db'', ''api'']\<rparr>) [] = ([''db'', ''api''], None)
   \<and> calls_ok md_Init (rg_modules ex_registry) [''db'', ''api''] []"
  using init_all_in_order[OF ex_registry_ids(2) ex_registry_resolved, of "[]"]
  by (simp add: rg_InitAll_def ex_registry_def ex_module_def)

text \<open>
  StopAll reaches every module: on a resolved registry it calls Stop on all modules in reverse
  order whatever fails on the way, so each module stops before everything it depends on, and it
  returns the first of the errors, or none if there was none.
\<close>

theorem stop_all_reverse:
  assumes "set ids = dom (rg_modules r)" "rg_Resolve ids r = Inr r'"
  shows "rg_StopAll r' w =
      (call_run md_Stop (rg_modules r) (rev (rg_order r')) w,
       case stop_errors (rg_modules r) (rev (rg_order r')) w of [] \<Rightarrow> None | e # _ \<Rightarrow> Some e)
    \<and> (\<forall>us i vs. rev (rg_order r') = us @ i # vs \<longrightarrow>
         deps_of (rg_modules r) i \<subseteq> set vs \<and> deps_of (rg_modules r) i \<inter> set us = {})"
proof -
  note ord = resolve_order[OF assms]
  have ms: "rg_modules r' = rg_modules r"
    using ord(1) by (metis Registry.select_convs(1) Registry.surjective Registry.update_convs(2))
  show ?thesis
    using deps_precede_rev[OF ord(4,2)] ord(3) by (simp add: rg_StopAll_def ms stop_loop_result)
qed

theorem stop_all_reverse_witness:
  "rg_StopAll (ex_registry\<lparr>rg_order := [''db'', ''api'']\<rparr>) [] =
     ([''api'', ''db''], Some (StopFailed ''db'' ''busy''))"
  using stop_all_reverse[OF ex_registry_ids(2) ex_registry_resolved, of "[]"]
  by (simp add: ex_registry_def ex_module_def)

end
