(* ===== verification/Circuit_Breaker.thy ===== *)
theory Circuit_Breaker
  imports Prelude
begin

text \<open>
  The circuit breaker of \<open>internal/core/circuitbreaker.go\<close>.

  \<open>beforeCall\<close> and \<open>afterCall\<close> are the two critical sections of \<open>Execute\<close>; the protected
  function runs between them without the lock, so concurrent calls interleave as arbitrary
  sequences of the two. The clock \<open>now()\<close> is an argument of every operation that reads it. The
  result of the protected function says whether \<open>errors.As\<close> finds a \<open>noRetryError\<close> in it.
\<close>

datatype circuit_state = CircuitClosed | CircuitOpen | CircuitHalfOpen

datatype call_result = CallOK | CallNoRetry string | CallErr string

record CircuitBreakerConfig =
  cc_FailureThreshold :: int
  cc_ResetTimeout :: duration
  cc_HalfOpenMaxCalls :: int

record CircuitBreaker =
  cb_name :: string
  cb_state :: circuit_state
  cb_failures :: int
  cb_successes :: int
  cb_lastFailure :: time
  cb_failureThreshold :: int
  cb_resetTimeout :: duration
  cb_halfOpenMax :: int
  cb_halfOpenCalls :: int

record CircuitBreakerStats =
  cs_Name :: string
  cs_State :: circuit_state
  cs_Failures :: int
  cs_LastFailure :: time

definition second :: duration where
  "second = 1000000000"

definition DefaultCircuitBreakerConfig :: CircuitBreakerConfig where
  "DefaultCircuitBreakerConfig =
     \<lparr>cc_FailureThreshold = 5, cc_ResetTimeout = 30 * second, cc_HalfOpenMaxCalls = 1\<rparr>"

definition NewCircuitBreaker :: "string \<Rightarrow> CircuitBreakerConfig \<Rightarrow> CircuitBreaker" where
  "NewCircuitBreaker name cfg =
     \<lparr>cb_name = name, cb_state = CircuitClosed, cb_failures = 0, cb_successes = 0, cb_lastFailure = 0,
      cb_failureThreshold = (if cc_FailureThreshold cfg \<le> 0 then 5 else cc_FailureThreshold cfg),
      cb_resetTimeout = (if cc_ResetTimeout cfg \<le> 0 then 30 * second else cc_ResetTimeout cfg),
      cb_halfOpenMax = (if cc_HalfOpenMaxCalls cfg \<le> 0 then 1 else cc_HalfOpenMaxCalls cfg),
      cb_halfOpenCalls = 0\<rparr>"

definition currentState :: "CircuitBreaker \<Rightarrow> time \<Rightarrow> circuit_state" where
  "currentState cb now =
     (if cb_state cb = CircuitOpen \<and> now - cb_lastFailure cb \<ge> cb_resetTimeout cb then CircuitHalfOpen
      else cb_state cb)"

text \<open>\<open>beforeCall\<close> returns whether the call is admitted; a rejection is \<open>ErrCircuitOpen\<close>.\<close>

definition beforeCall :: "CircuitBreaker \<Rightarrow> time \<Rightarrow> CircuitBreaker \<times> bool" where
  "beforeCall cb now =
     (case currentState cb now of
        CircuitClosed \<Rightarrow> (cb, True)
      | CircuitOpen \<Rightarrow> (cb, False)
      | CircuitHalfOpen \<Rightarrow>
          (if cb_halfOpenCalls cb \<ge> cb_halfOpenMax cb then (cb, False)
           else (cb\<lparr>cb_halfOpenCalls := cb_halfOpenCalls cb + 1\<rparr>, True)))"

definition cb_reset :: "CircuitBreaker \<Rightarrow> CircuitBreaker" where
  "cb_reset cb = cb\<lparr>cb_state := CircuitClosed, cb_failures := 0, cb_successes := 0, cb_halfOpenCalls := 0\<rparr>"

definition onSuccess :: "CircuitBreaker \<Rightarrow> circuit_state \<Rightarrow> CircuitBreaker" where
  "onSuccess cb state =
     (case state of
        CircuitHalfOpen \<Rightarrow>
          let cb1 = cb\<lparr>cb_successes := cb_successes cb + 1\<rparr>
          in if cb_successes cb1 \<ge> cb_halfOpenMax cb1 then cb_reset cb1 else cb1
      | CircuitClosed \<Rightarrow> cb\<lparr>cb_failures := 0\<rparr>
      | CircuitOpen \<Rightarrow> cb)"

definition onFailure :: "CircuitBreaker \<Rightarrow> circuit_state \<Rightarrow> time \<Rightarrow> CircuitBreaker" where
  "onFailure cb state now =
     (let cb1 = cb\<lparr>cb_failures := cb_failures cb + 1, cb_lastFailure := now\<rparr>
      in case state of
           CircuitClosed \<Rightarrow>
             (if cb_failures cb1 \<ge> cb_failureThreshold cb1 then cb1\<lparr>cb_state := CircuitOpen\<rparr> else cb1)
         | CircuitHalfOpen \<Rightarrow> cb1\<lparr>cb_state := CircuitOpen, cb_halfOpenCalls := 0, cb_successes := 0\<rparr>
         | CircuitOpen \<Rightarrow> cb1)"

definition afterCall :: "CircuitBreaker \<Rightarrow> time \<Rightarrow> call_result \<Rightarrow> CircuitBreaker" where
  "afterCall cb now res =
     (let state = currentState cb now
      in case res of
           CallOK \<Rightarrow> onSuccess cb state
         | CallNoRetry e \<Rightarrow> cb
         | CallErr e \<Rightarrow> onFailure cb state now)"

datatype exec_outcome = Rejected | Ran call_result

definition cb_Execute ::
  "CircuitBreaker option \<Rightarrow> time \<Rightarrow> time \<Rightarrow> call_result \<Rightarrow> CircuitBreaker option \<times> exec_outcome" where
  "cb_Execute cbo t1 t2 res =
     (case cbo of
        None \<Rightarrow> (None, Ran res)
      | Some cb \<Rightarrow>
          (case beforeCall cb t1 of
             (cb1, False) \<Rightarrow> (Some cb1, Rejected)
           | (cb1, True) \<Rightarrow> (Some (afterCall cb1 t2 res), Ran res)))"

definition cb_State :: "CircuitBreaker option \<Rightarrow> time \<Rightarrow> circuit_state" where
  "cb_State cbo now = (case cbo of None \<Rightarrow> CircuitClosed | Some cb \<Rightarrow> currentState cb now)"

definition cb_Stats :: "CircuitBreaker option \<Rightarrow> time \<Rightarrow> CircuitBreakerStats" where
  "cb_Stats cbo now =
     (case cbo of
        None \<Rightarrow> \<lparr>cs_Name = [], cs_State = CircuitClosed, cs_Failures = 0, cs_LastFailure = 0\<rparr>
      | Some cb \<Rightarrow> \<lparr>cs_Name = cb_name cb, cs_State = currentState cb now,
                    cs_Failures = cb_failures cb, cs_LastFailure = cb_lastFailure cb\<rparr>)"

definition cb_Reset :: "CircuitBreaker \<Rightarrow> CircuitBreaker" where
  "cb_Reset cb = cb_reset cb"

subsection \<open>Interleavings\<close>

datatype cb_event = Before time | After time call_result | ManualReset

fun cb_event_step :: "cb_event \<Rightarrow> CircuitBreaker \<Rightarrow> CircuitBreaker" where
  "cb_event_step (Before t) cb = fst (beforeCall cb t)"
| "cb_event_step (After t r) cb = afterCall cb t r"
| "cb_event_step ManualReset cb = cb_Reset cb"

definition cb_inv :: "CircuitBreaker \<Rightarrow> bool" where
  "cb_inv cb \<longleftrightarrow>
     cb_failureThreshold cb > 0 \<and> cb_resetTimeout cb > 0 \<and> cb_halfOpenMax cb > 0 \<and> cb_failures cb \<ge> 0
     \<and> 0 \<le> cb_successes cb \<and> cb_successes cb < cb_halfOpenMax cb
     \<and> 0 \<le> cb_halfOpenCalls cb \<and> cb_halfOpenCalls cb \<le> cb_halfOpenMax cb
     \<and> cb_state cb \<noteq> CircuitHalfOpen
     \<and> (cb_state cb = CircuitClosed \<longrightarrow>
          cb_failures cb < cb_failureThreshold cb \<and> cb_successes cb = 0 \<and> cb_halfOpenCalls cb = 0)"

lemmas cb_defs = beforeCall_def afterCall_def onSuccess_def onFailure_def cb_reset_def cb_Reset_def
  currentState_def Let_def

lemma cb_inv_new [simp]: "cb_inv (NewCircuitBreaker name cfg)"
  by (simp add: cb_inv_def NewCircuitBreaker_def second_def)

lemma cb_inv_step: "cb_inv cb \<Longrightarrow> cb_inv (cb_event_step ev cb)"
  by (cases ev; cases "cb_state cb")
     (auto simp: cb_inv_def cb_defs split: call_result.splits)

lemma cb_inv_run: "cb_inv cb \<Longrightarrow> cb_inv (fold cb_event_step evs cb)"
  by (induction evs arbitrary: cb) (simp_all add: cb_inv_step)

text \<open>
  C22. The breaker's invariant holds after every interleaving of admissions, completions and
  manual resets of concurrent calls: half-open is never stored, a closed breaker has fewer failures
  than the threshold and no probe bookkeeping, and a half-open one never admits more probes than its
  maximum between two resets of the count.
\<close>

theorem cb_invariant:
  "cb_inv (fold cb_event_step evs (NewCircuitBreaker name cfg))"
  by (simp add: cb_inv_run)

subsection \<open>Tripping and recovery\<close>

fun cb_run :: "CircuitBreaker \<Rightarrow> (time \<times> time \<times> call_result) list \<Rightarrow> CircuitBreaker \<times> exec_outcome list" where
  "cb_run cb [] = (cb, [])"
| "cb_run cb ((t1, t2, res) # cs) =
     (case cb_Execute (Some cb) t1 t2 res of
        (None, out) \<Rightarrow> (cb, [out])
      | (Some cb1, out) \<Rightarrow> (case cb_run cb1 cs of (cb2, outs) \<Rightarrow> (cb2, out # outs)))"

fun consecutive_failures :: "int \<Rightarrow> call_result list \<Rightarrow> int" where
  "consecutive_failures n [] = n"
| "consecutive_failures n (CallOK # rs) = consecutive_failures 0 rs"
| "consecutive_failures n (CallNoRetry e # rs) = consecutive_failures n rs"
| "consecutive_failures n (CallErr e # rs) = consecutive_failures (n + 1) rs"

definition results_of :: "(time \<times> time \<times> call_result) list \<Rightarrow> call_result list" where
  "results_of cs = map (snd \<circ> snd) cs"

lemma results_of_simps [simp]:
  "results_of [] = []" "results_of ((t1, t2, r) # cs) = r # results_of cs"
  by (simp_all add: results_of_def)

lemma consecutive_failures_Cons:
  "consecutive_failures n (r # rs) = consecutive_failures (consecutive_failures n [r]) rs"
  by (cases r) simp_all

lemma execute_closed:
  assumes "cb_inv cb" "cb_state cb = CircuitClosed"
  obtains cb1 where "cb_Execute (Some cb) t1 t2 r = (Some cb1, Ran r)" "cb_inv cb1"
    "cb_failureThreshold cb1 = cb_failureThreshold cb"
    "cb_failures cb1 = consecutive_failures (cb_failures cb) [r]"
    "cb_state cb1 = (if cb_failureThreshold cb \<le> cb_failures cb1 then CircuitOpen else CircuitClosed)"
proof
  let ?cb1 = "afterCall cb t2 r"
  show "cb_Execute (Some cb) t1 t2 r = (Some ?cb1, Ran r)"
    using assms by (simp add: cb_Execute_def beforeCall_def currentState_def)
  show "cb_inv ?cb1"
    using cb_inv_step[OF assms(1), of "After t2 r"] by simp
  show "cb_failureThreshold ?cb1 = cb_failureThreshold cb"
    "cb_failures ?cb1 = consecutive_failures (cb_failures cb) [r]"
    "cb_state ?cb1 = (if cb_failureThreshold cb \<le> cb_failures ?cb1 then CircuitOpen else CircuitClosed)"
    using assms by (cases r; auto simp: cb_defs cb_inv_def)+
qed

lemma closed_run:
  assumes "cb_inv cb" "cb_state cb = CircuitClosed"
    and "\<forall>k<length cs. consecutive_failures (cb_failures cb) (results_of (take k cs)) < cb_failureThreshold cb"
  shows "\<exists>cb'. cb_run cb cs = (cb', map Ran (results_of cs))
    \<and> cb_failures cb' = consecutive_failures (cb_failures cb) (results_of cs)
    \<and> cb_state cb' = (if cb_failureThreshold cb \<le> cb_failures cb' then CircuitOpen else CircuitClosed)"
  using assms
proof (induction cs arbitrary: cb)
  case Nil
  then show ?case by (simp add: cb_inv_def)
next
  case (Cons c cs)
  obtain t1 t2 r where c: "c = (t1, t2, r)"
    by (cases c) auto
  obtain cb1 where cb1: "cb_Execute (Some cb) t1 t2 r = (Some cb1, Ran r)" "cb_inv cb1"
    "cb_failureThreshold cb1 = cb_failureThreshold cb"
    "cb_failures cb1 = consecutive_failures (cb_failures cb) [r]"
    "cb_state cb1 = (if cb_failureThreshold cb \<le> cb_failures cb1 then CircuitOpen else CircuitClosed)"
    using execute_closed[OF Cons(2,3)] by blast
  show ?case
  proof (cases "cs = []")
    case True
    then show ?thesis using cb1 c by simp
  next
    case False
    have prefix: "consecutive_failures (cb_failures cb1) (results_of (take k cs)) < cb_failureThreshold cb"
      if "k < length cs" for k
      using spec[OF Cons(4), of "Suc k"] that c cb1(4)
      by (simp add: consecutive_failures_Cons[of _ r "results_of _"])
    have "cb_state cb1 = CircuitClosed"
      using prefix[of 0] False cb1(5) by simp
    then obtain cb' where "cb_run cb1 cs = (cb', map Ran (results_of cs))"
      "cb_failures cb' = consecutive_failures (cb_failures cb1) (results_of cs)"
      "cb_state cb' = (if cb_failureThreshold cb1 \<le> cb_failures cb' then CircuitOpen else CircuitClosed)"
      using Cons(1)[OF cb1(2)] prefix cb1(3) by auto
    then show ?thesis
      using cb1 c by (simp add: consecutive_failures_Cons[of _ r "results_of _"])
  qed
qed

text \<open>
  A breaker fresh from its constructor admits every call of a sequence in which no proper prefix
  has reached the threshold of consecutive counted failures, and it is open afterwards exactly when
  the whole sequence reaches it. A success starts the count again; a non-retryable error leaves it.
\<close>

theorem cb_trips_at_threshold:
  assumes "\<forall>k<length cs. consecutive_failures 0 (results_of (take k cs))
             < cb_failureThreshold (NewCircuitBreaker name cfg)"
  shows "\<exists>cb'. cb_run (NewCircuitBreaker name cfg) cs = (cb', map Ran (results_of cs))
    \<and> cb_state cb' = (if cb_failureThreshold (NewCircuitBreaker name cfg)
                          \<le> consecutive_failures 0 (results_of cs)
                       then CircuitOpen else CircuitClosed)"
proof -
  have new: "cb_state (NewCircuitBreaker name cfg) = CircuitClosed"
    "cb_failures (NewCircuitBreaker name cfg) = 0"
    by (simp_all add: NewCircuitBreaker_def)
  show ?thesis
    using closed_run[OF cb_inv_new, of name cfg cs] new assms by auto
qed

definition ex_fail :: "nat \<Rightarrow> (time \<times> time \<times> call_result) list" where
  "ex_fail n = replicate n (0, 1, CallErr ''timeout'')"

theorem cb_trips_at_threshold_witness:
  "\<exists>cb'. cb_run (NewCircuitBreaker ''git'' \<lparr>cc_FailureThreshold = 2, cc_ResetTimeout = 0, cc_HalfOpenMaxCalls = 0\<rparr>)
      (ex_fail 2) = (cb', [Ran (CallErr ''timeout''), Ran (CallErr ''timeout'')]) \<and> cb_state cb' = CircuitOpen"
proof -
  have "\<forall>k<length (ex_fail 2). consecutive_failures 0 (results_of (take k (ex_fail 2))) < 2"
    by (simp add: ex_fail_def numeral_2_eq_2 less_Suc_eq)
  then show ?thesis
    using cb_trips_at_threshold[of "ex_fail 2" "''git''"
        "\<lparr>cc_FailureThreshold = 2, cc_ResetTimeout = 0, cc_HalfOpenMaxCalls = 0\<rparr>"]
    by (simp add: NewCircuitBreaker_def ex_fail_def numeral_2_eq_2)
qed

lemma execute_open:
  assumes "cb_state cb = CircuitOpen" "t1 - cb_lastFailure cb < cb_resetTimeout cb"
  shows "cb_Execute (Some cb) t1 t2 r = (Some cb, Rejected)"
  using assms by (simp add: cb_Execute_def beforeCall_def currentState_def)

lemma execute_probe_ok:
  assumes "cb_state cb = CircuitOpen" "t1 - cb_lastFailure cb \<ge> cb_resetTimeout cb" "t1 \<le> t2"
    and "cb_halfOpenCalls cb < cb_halfOpenMax cb"
  shows "cb_Execute (Some cb) t1 t2 CallOK =
    (Some (if cb_successes cb + 1 < cb_halfOpenMax cb
           then cb\<lparr>cb_halfOpenCalls := cb_halfOpenCalls cb + 1, cb_successes := cb_successes cb + 1\<rparr>
           else cb_reset cb), Ran CallOK)"
  using assms by (simp add: cb_Execute_def cb_defs)

lemma probes_close:
  assumes "cb_state cb = CircuitOpen" "cb_halfOpenCalls cb = cb_successes cb"
    "cb_successes cb + int (length cs) = cb_halfOpenMax cb" "cs \<noteq> []"
    and "\<forall>c\<in>set cs. fst c - cb_lastFailure cb \<ge> cb_resetTimeout cb \<and> fst c \<le> fst (snd c) \<and> snd (snd c) = CallOK"
  shows "cb_run cb cs = (cb_reset cb, replicate (length cs) (Ran CallOK))"
  using assms
proof (induction cs arbitrary: cb)
  case (Cons c cs)
  obtain t1 t2 r where c: "c = (t1, t2, r)"
    by (cases c) auto
  note step = execute_probe_ok[OF Cons(2), of t1 t2]
  show ?case
  proof (cases "cs = []")
    case True
    then show ?thesis
      using step Cons(3-) c by auto
  next
    case False
    let ?cb1 = "cb\<lparr>cb_halfOpenCalls := cb_halfOpenCalls cb + 1, cb_successes := cb_successes cb + 1\<rparr>"
    have "cb_Execute (Some cb) t1 t2 CallOK = (Some ?cb1, Ran CallOK)"
      using step Cons(3-) c False by (auto simp: neq_Nil_conv)
    moreover have "cb_run ?cb1 cs = (cb_reset ?cb1, replicate (length cs) (Ran CallOK))"
      using Cons(1)[of ?cb1] Cons(2-) False by simp
    moreover have "cb_reset ?cb1 = cb_reset cb"
      by (simp add: cb_reset_def)
    ultimately show ?thesis
      using c Cons(6) by simp
  qed
qed simp

lemma execute_probe_fail:
  assumes "cb_state cb = CircuitOpen" "t1 - cb_lastFailure cb \<ge> cb_resetTimeout cb" "t1 \<le> t2"
    and "cb_halfOpenCalls cb < cb_halfOpenMax cb"
  shows "cb_Execute (Some cb) t1 t2 (CallErr e) =
    (Some (cb\<lparr>cb_failures := cb_failures cb + 1, cb_lastFailure := t2, cb_halfOpenCalls := 0,
              cb_successes := 0\<rparr>), Ran (CallErr e))"
  using assms by (simp add: cb_Execute_def cb_defs)

text \<open>
  The life of an open breaker. Before the reset timeout has passed every call is rejected and
  changes nothing. After it, a breaker with no probe under way admits probes, and exactly the
  configured number of successful ones closes it with all its counters at zero; a probe that fails
  opens it again for a full timeout, counted from that failure.
\<close>

theorem cb_open_life:
  assumes "cb_inv cb" "cb_state cb = CircuitOpen"
  shows "(\<forall>t1 t2 r. t1 - cb_lastFailure cb < cb_resetTimeout cb \<longrightarrow>
        cb_Execute (Some cb) t1 t2 r = (Some cb, Rejected))
    \<and> (\<forall>cs. cb_halfOpenCalls cb = 0 \<and> cb_successes cb = 0 \<and> int (length cs) = cb_halfOpenMax cb
        \<and> (\<forall>c\<in>set cs. fst c - cb_lastFailure cb \<ge> cb_resetTimeout cb \<and> fst c \<le> fst (snd c)
            \<and> snd (snd c) = CallOK)
        \<longrightarrow> cb_run cb cs =
             (cb\<lparr>cb_state := CircuitClosed, cb_failures := 0, cb_successes := 0, cb_halfOpenCalls := 0\<rparr>,
              replicate (length cs) (Ran CallOK)))
    \<and> (\<forall>t1 t2 e. t1 - cb_lastFailure cb \<ge> cb_resetTimeout cb \<and> t1 \<le> t2
        \<and> cb_halfOpenCalls cb < cb_halfOpenMax cb
        \<longrightarrow> (\<exists>cb'. cb_Execute (Some cb) t1 t2 (CallErr e) = (Some cb', Ran (CallErr e))
            \<and> cb_halfOpenCalls cb' = 0 \<and> cb_resetTimeout cb' = cb_resetTimeout cb
            \<and> (\<forall>t. currentState cb' t = (if t < t2 + cb_resetTimeout cb then CircuitOpen else CircuitHalfOpen))))"
proof (intro conjI allI impI; (elim conjE)?)
  fix t1 t2 r
  assume "t1 - cb_lastFailure cb < cb_resetTimeout cb"
  then show "cb_Execute (Some cb) t1 t2 r = (Some cb, Rejected)"
    using execute_open assms(2) by blast
next
  fix cs :: "(time \<times> time \<times> call_result) list"
  assume "cb_halfOpenCalls cb = 0" "cb_successes cb = 0" "int (length cs) = cb_halfOpenMax cb"
    "\<forall>c\<in>set cs. fst c - cb_lastFailure cb \<ge> cb_resetTimeout cb \<and> fst c \<le> fst (snd c)
            \<and> snd (snd c) = CallOK"
  moreover from this(3) have "cs \<noteq> []"
    using assms(1) by (auto simp: cb_inv_def)
  ultimately show "cb_run cb cs =
      (cb\<lparr>cb_state := CircuitClosed, cb_failures := 0, cb_successes := 0, cb_halfOpenCalls := 0\<rparr>,
       replicate (length cs) (Ran CallOK))"
    using probes_close[OF assms(2), of cs] by (simp add: cb_reset_def)
next
  fix t1 t2 e
  assume "t1 - cb_lastFailure cb \<ge> cb_resetTimeout cb" "t1 \<le> t2" "cb_halfOpenCalls cb < cb_halfOpenMax cb"
  then show "\<exists>cb'. cb_Execute (Some cb) t1 t2 (CallErr e) = (Some cb', Ran (CallErr e))
            \<and> cb_halfOpenCalls cb' = 0 \<and> cb_resetTimeout cb' = cb_resetTimeout cb
            \<and> (\<forall>t. currentState cb' t = (if t < t2 + cb_resetTimeout cb then CircuitOpen else CircuitHalfOpen))"
    using execute_probe_fail[OF assms(2), of t1 t2 e] assms(2) by (auto simp: currentState_def)
qed

definition ex_open :: CircuitBreaker where
  "ex_open = \<lparr>cb_name = ''git'', cb_state = CircuitOpen, cb_failures = 5, cb_successes = 0,
     cb_lastFailure = 100, cb_failureThreshold = 5, cb_resetTimeout = 30, cb_halfOpenMax = 1, cb_halfOpenCalls = 0\<rparr>"

theorem cb_open_life_witness:
  "cb_Execute (Some ex_open) 129 129 CallOK = (Some ex_open, Rejected)
   \<and> cb_state (fst (cb_run ex_open [(130, 131, CallOK)])) = CircuitClosed"
  using conjunct1[OF cb_open_life[of ex_open]]
    conjunct1[OF conjunct2[OF cb_open_life[of ex_open]], rule_format, of "[(130, 131, CallOK)]"]
  by (simp add: ex_open_def cb_inv_def)

text \<open>
  A probe that ends in a non-retryable error is never given back. If the last admissible probe
  of a half-open breaker ends that way, the breaker keeps its probe count at the maximum, and from
  then on rejects every call, at every later time, in the same state: without a manual Reset the
  circuit never closes again.
\<close>

theorem cb_half_open_stuck:
  assumes "cb_state cb = CircuitOpen" "t1 - cb_lastFailure cb \<ge> cb_resetTimeout cb"
    and "cb_halfOpenCalls cb + 1 = cb_halfOpenMax cb"
  shows "\<exists>cb'. cb_Execute (Some cb) t1 t2 (CallNoRetry e) = (Some cb', Ran (CallNoRetry e))
    \<and> (\<forall>cs. (\<forall>c\<in>set cs. t1 \<le> fst c) \<longrightarrow> cb_run cb' cs = (cb', replicate (length cs) Rejected))"
proof -
  let ?cb' = "cb\<lparr>cb_halfOpenCalls := cb_halfOpenMax cb\<rparr>"
  have "cb_run ?cb' cs = (?cb', replicate (length cs) Rejected)" if "\<forall>c\<in>set cs. t1 \<le> fst c" for cs
    using that
  proof (induction cs)
    case (Cons c cs)
    then have "cb_Execute (Some ?cb') (fst c) (fst (snd c)) (snd (snd c)) = (Some ?cb', Rejected)"
      using assms by (auto simp: cb_Execute_def beforeCall_def currentState_def)
    then show ?case
      using Cons by (cases c) simp
  qed simp
  moreover have "cb_Execute (Some cb) t1 t2 (CallNoRetry e) = (Some ?cb', Ran (CallNoRetry e))"
    using assms by (simp add: cb_Execute_def cb_defs)
  ultimately show ?thesis
    by blast
qed

theorem cb_half_open_stuck_witness:
  "\<exists>cb'. cb_Execute (Some ex_open) 130 131 (CallNoRetry ''404'') = (Some cb', Ran (CallNoRetry ''404''))
     \<and> cb_run cb' [(1000, 1001, CallOK), (2000, 2001, CallOK)] = (cb', [Rejected, Rejected])"
proof -
  obtain cb' where
    "cb_Execute (Some ex_open) 130 131 (CallNoRetry ''404'') = (Some cb', Ran (CallNoRetry ''404''))"
    "\<forall>cs. (\<forall>c\<in>set cs. 130 \<le> fst c) \<longrightarrow> cb_run cb' cs = (cb', replicate (length cs) Rejected)"
    using cb_half_open_stuck[of ex_open 130 131 "''404''"] by (auto simp: ex_open_def)
  moreover from spec[OF this(2), of "[(1000, 1001, CallOK), (2000, 2001, CallOK)]"]
  have "cb_run cb' [(1000, 1001, CallOK), (2000, 2001, CallOK)] = (cb', [Rejected, Rejected])"
    by simp
  ultimately show ?thesis
    by blast
qed

end
