(* ===== verification/Retry.thy ===== *)
theory Retry
  imports Circuit_Breaker
begin

text \<open>
  Exponential backoff retry, \<open>internal/core/retry.go\<close>.

  \<open>op i\<close> is the result of attempt \<open>i\<close> and \<open>cancelled i\<close> says whether the context wins the
  \<open>select\<close> while waiting after attempt \<open>i\<close>. Delays are \<open>time.Duration\<close>, that is \<open>int64\<close>,
  and are kept at that width: the shift and the product wrap. The model returns the delays waited
  for along with the result.
\<close>

type_synonym int64 = "64 word"

record RetryConfig =
  rc_MaxAttempts :: int
  rc_InitialDelay :: int64
  rc_MaxDelay :: int64

definition DefaultRetryConfig :: RetryConfig where
  "DefaultRetryConfig = \<lparr>rc_MaxAttempts = 3, rc_InitialDelay = 200000000, rc_MaxDelay = 5000000000\<rparr>"

datatype retry_result =
    RetryOK
  | RetryStopped string
  | RetryCancelled
  | RetryExhausted nat string

definition retry_attempts :: "RetryConfig \<Rightarrow> nat" where
  "retry_attempts cfg = (if rc_MaxAttempts cfg \<le> 0 then 1 else nat (rc_MaxAttempts cfg))"

definition retry_delay :: "RetryConfig \<Rightarrow> nat \<Rightarrow> int64" where
  "retry_delay cfg i =
     (let delay = rc_InitialDelay cfg * push_bit i 1
      in if rc_MaxDelay cfg <s delay then rc_MaxDelay cfg else delay)"

fun retry_loop ::
  "RetryConfig \<Rightarrow> nat \<Rightarrow> (nat \<Rightarrow> call_result) \<Rightarrow> (nat \<Rightarrow> bool) \<Rightarrow> nat \<Rightarrow> nat \<Rightarrow> int64 list \<times> retry_result" where
  "retry_loop cfg attempts op cancelled i 0 = ([], RetryExhausted attempts [])"
| "retry_loop cfg attempts op cancelled i (Suc left) =
     (case op i of
        CallOK \<Rightarrow> ([], RetryOK)
      | CallNoRetry e \<Rightarrow> ([], RetryStopped e)
      | CallErr e \<Rightarrow>
          (if i = attempts - 1 then ([], RetryExhausted attempts e)
           else if cancelled i then ([retry_delay cfg i], RetryCancelled)
           else
             (case retry_loop cfg attempts op cancelled (Suc i) left of
                (ds, res) \<Rightarrow> (retry_delay cfg i # ds, res))))"

definition Retry :: "RetryConfig \<Rightarrow> (nat \<Rightarrow> call_result) \<Rightarrow> (nat \<Rightarrow> bool) \<Rightarrow> int64 list \<times> retry_result" where
  "Retry cfg op cancelled =
     retry_loop cfg (retry_attempts cfg) op cancelled 0 (retry_attempts cfg)"

subsection \<open>What Retry does\<close>

text \<open>The specification: the attempt at which the loop ends, counted from one, and the result.\<close>

definition retry_ends :: "RetryConfig \<Rightarrow> (nat \<Rightarrow> call_result) \<Rightarrow> (nat \<Rightarrow> bool) \<Rightarrow> nat \<Rightarrow> retry_result \<Rightarrow> bool" where
  "retry_ends cfg op cancelled n res \<longleftrightarrow>
     n < retry_attempts cfg \<and> (\<forall>j<n. (\<exists>e. op j = CallErr e) \<and> \<not> cancelled j)
     \<and> (case op n of
          CallOK \<Rightarrow> res = RetryOK
        | CallNoRetry e \<Rightarrow> res = RetryStopped e
        | CallErr e \<Rightarrow>
            (if Suc n = retry_attempts cfg then res = RetryExhausted (retry_attempts cfg) e
             else cancelled n \<and> res = RetryCancelled))"

lemma retry_attempts_pos [simp]: "retry_attempts cfg > 0"
  by (simp add: retry_attempts_def)

lemma retry_loop_ends:
  assumes "i + left = retry_attempts cfg" "left > 0" "\<forall>j<i. (\<exists>e. op j = CallErr e) \<and> \<not> cancelled j"
  shows "\<exists>n ds res. retry_loop cfg (retry_attempts cfg) op cancelled i left = (ds, res)
    \<and> retry_ends cfg op cancelled n res \<and> i \<le> n
    \<and> ds = map (retry_delay cfg) [i..<(if res = RetryCancelled then Suc n else n)]"
  using assms
proof (induction left arbitrary: i)
  case (Suc left)
  show ?case
  proof (cases "\<exists>e. op i = CallErr e \<and> i \<noteq> retry_attempts cfg - 1 \<and> \<not> cancelled i")
    case False
    then have "\<exists>ds res. retry_loop cfg (retry_attempts cfg) op cancelled i (Suc left) = (ds, res)
      \<and> retry_ends cfg op cancelled i res
      \<and> ds = map (retry_delay cfg) [i..<(if res = RetryCancelled then Suc i else i)]"
      using Suc(2,4) by (auto simp: retry_ends_def split: call_result.splits)
    then show ?thesis
      by blast
  next
    case True
    then obtain e where e: "op i = CallErr e" "i \<noteq> retry_attempts cfg - 1" "\<not> cancelled i"
      by blast
    have IH: "Suc i + left = retry_attempts cfg" "left > 0"
      using Suc(2) e(2) by auto
    have "\<forall>j<Suc i. (\<exists>e. op j = CallErr e) \<and> \<not> cancelled j"
      using Suc(4) e by (auto simp: less_Suc_eq)
    then obtain n ds res where n: "retry_loop cfg (retry_attempts cfg) op cancelled (Suc i) left = (ds, res)"
      "retry_ends cfg op cancelled n res" "Suc i \<le> n"
      "ds = map (retry_delay cfg) [Suc i..<(if res = RetryCancelled then Suc n else n)]"
      using Suc(1)[OF IH] by blast
    then have "retry_loop cfg (retry_attempts cfg) op cancelled i (Suc left) = (retry_delay cfg i # ds, res)
      \<and> retry_delay cfg i # ds = map (retry_delay cfg) [i..<(if res = RetryCancelled then Suc n else n)]"
      using e by (simp add: upt_conv_Cons)
    then show ?thesis
      using n(2,3) by (metis Suc_leD)
  qed
qed simp

text \<open>
  Retry stops where it should: it makes at most MaxAttempts attempts (one if that is not
  positive), each but the last a retryable failure followed by an uncancelled wait; it returns nil at
  the first success, the unwrapped error at the first non-retryable one, the context's error when a
  wait is cancelled, and otherwise the last error after exactly the configured attempts. The waits are
  the backoff delays of the attempts before the last, in order.
\<close>

theorem retry_stops:
  "\<exists>n. retry_ends cfg op cancelled n (snd (Retry cfg op cancelled))
    \<and> fst (Retry cfg op cancelled) =
        map (retry_delay cfg) [0..<(if snd (Retry cfg op cancelled) = RetryCancelled then Suc n else n)]"
  using retry_loop_ends[of 0 "retry_attempts cfg" cfg op cancelled]
  by (auto simp: Retry_def)

subsection \<open>Backoff\<close>

lemma sint_product_no_overflow:
  fixes d :: int64
  assumes "0 \<le> sint d" "sint d * 2 ^ i < 2 ^ 63"
  shows "sint (d * push_bit i 1) = sint d * 2 ^ i"
proof -
  have "sint (d * push_bit i 1) = signed_take_bit 63 (sint d * 2 ^ i)"
  proof -
    have "d * push_bit i 1 = word_of_int (sint d * 2 ^ i)"
      by (simp add: push_bit_eq_mult of_int_sint)
    then show ?thesis
      by (simp only: sint_sbintrunc') simp
  qed
  also have "\<dots> = sint d * 2 ^ i"
    using assms by (intro signed_take_bit_int_eq_self) (auto simp: order_trans[of _ 0])
  finally show ?thesis .
qed

text \<open>
  While the doubled delay fits an int64, the wait after attempt i is the initial delay doubled i
  times, capped at the maximum delay.
\<close>

theorem retry_delay_exact:
  assumes "0 \<le> sint (rc_InitialDelay cfg)" "sint (rc_InitialDelay cfg) * 2 ^ i < 2 ^ 63"
  shows "sint (retry_delay cfg i) = min (sint (rc_InitialDelay cfg) * 2 ^ i) (sint (rc_MaxDelay cfg))"
  using sint_product_no_overflow[OF assms]
  by (auto simp: retry_delay_def Let_def word_sless_alt min_def)

theorem retry_delay_exact_witness:
  "sint (retry_delay DefaultRetryConfig 1) = 400000000"
  using retry_delay_exact[of DefaultRetryConfig 1] by (simp add: DefaultRetryConfig_def)

text \<open>Without the bound of the last theorem the cap does not apply: the product of the default
  initial delay wraps to a negative delay at attempt 36, and a negative timer fires at once.\<close>

lemma retry_delay_wraps: "sint (retry_delay DefaultRetryConfig 36) < 0"
  by (simp add: retry_delay_def DefaultRetryConfig_def Let_def push_bit_eq_mult word_sless_alt)

end
