(* ===== verification/Event_Bus.thy ===== *)
theory Event_Bus
  imports Prelude
begin

text \<open>
  The event bus of \<open>internal/core/events.go\<close>.

  Registration, matching and statistics are functions on the bus. \<open>Publish\<close> and the goroutines it
  starts are a step relation: a publisher is an event with the matched subscriptions it still has to
  serve, a worker is one asynchronous handler at one of its program points. A handler's outcome
  (nil, an error, a panic) and the winner of the \<open>select\<close> between timer and context are the
  environment's choice. \<open>asyncSem\<close> is the number of slots taken out of \<open>cap(asyncSem)\<close>;
  \<open>asyncWG\<close> counts the workers and the \<open>PublishAsync\<close> wrappers. Identifiers made by
  \<open>GenerateID\<close> and the clock are arguments.
\<close>

record 'd Event =
  ev_ID :: string
  ev_Type :: string
  ev_Source :: string
  ev_Timestamp :: time
  ev_TenantID :: string
  ev_UserID :: string
  ev_CorrelationID :: string
  ev_Data :: 'd

record Subscription =
  sub_ID :: string
  sub_EventType :: string
  sub_Name :: string
  sub_Async :: bool

text \<open>Program points of an asynchronous handler: first run, backoff after a failure, waiting for a
  slot to retry, second run.\<close>

datatype 'd worker =
    Running Subscription "'d Event"
  | Backoff Subscription "'d Event"
  | Reacquire Subscription "'d Event"
  | Retrying Subscription "'d Event"

record 'd publisher =
  pub_event :: "'d Event"
  pub_rest :: "Subscription list"
  pub_async :: bool

record 'd EventBus =
  eb_subscriptions :: "Subscription list"
  eb_semCap :: nat
  eb_semUsed :: nat
  eb_publishCount :: int
  eb_errorCount :: int
  eb_workers :: "'d worker multiset"
  eb_publishers :: "'d publisher multiset"

definition DefaultAsyncWorkers :: nat where
  "DefaultAsyncWorkers = 64"

definition NewEventBus :: "'d EventBus" where
  "NewEventBus = \<lparr>eb_subscriptions = [], eb_semCap = DefaultAsyncWorkers, eb_semUsed = 0,
     eb_publishCount = 0, eb_errorCount = 0, eb_workers = {#}, eb_publishers = {#}\<rparr>"

subsection \<open>Subscriptions\<close>

definition SubscribeNamed ::
  "'d EventBus \<Rightarrow> string \<Rightarrow> string \<Rightarrow> string \<Rightarrow> bool \<Rightarrow> 'd EventBus \<times> string" where
  "SubscribeNamed eb newid eventType name async =
     (let sub = \<lparr>sub_ID = newid, sub_EventType = eventType, sub_Name = name, sub_Async = async\<rparr>
      in (eb\<lparr>eb_subscriptions := eb_subscriptions eb @ [sub]\<rparr>, sub_ID sub))"

definition Subscribe :: "'d EventBus \<Rightarrow> string \<Rightarrow> string \<Rightarrow> 'd EventBus \<times> string" where
  "Subscribe eb newid eventType = SubscribeNamed eb newid eventType [] False"

definition SubscribeAsync :: "'d EventBus \<Rightarrow> string \<Rightarrow> string \<Rightarrow> 'd EventBus \<times> string" where
  "SubscribeAsync eb newid eventType = SubscribeNamed eb newid eventType [] True"

fun unsubscribe_at :: "Subscription list \<Rightarrow> string \<Rightarrow> nat \<Rightarrow> nat option" where
  "unsubscribe_at [] subID i = None"
| "unsubscribe_at (s # ss) subID i = (if sub_ID s = subID then Some i else unsubscribe_at ss subID (Suc i))"

definition Unsubscribe :: "'d EventBus \<Rightarrow> string \<Rightarrow> 'd EventBus \<times> bool" where
  "Unsubscribe eb subID =
     (case unsubscribe_at (eb_subscriptions eb) subID 0 of
        None \<Rightarrow> (eb, False)
      | Some i \<Rightarrow>
          let ss = eb_subscriptions eb; ss1 = ss[i := ss ! (length ss - 1)]
          in (eb\<lparr>eb_subscriptions := take (length ss1 - 1) ss1\<rparr>, True))"

definition cutSuffix :: "string \<Rightarrow> string \<Rightarrow> string \<times> bool" where
  "cutSuffix s suffix =
     (if length s \<ge> length suffix \<and> drop (length s - length suffix) s = suffix
      then (take (length s - length suffix) s, True) else (s, False))"

definition sub_matches :: "string \<Rightarrow> Subscription \<Rightarrow> bool" where
  "sub_matches eventType sub \<longleftrightarrow>
     (if sub_EventType sub = ''*'' then True
      else if sub_EventType sub = eventType then True
      else case cutSuffix (sub_EventType sub) ''.*'' of (prefix, ok) \<Rightarrow>
             ok \<and> length eventType > length prefix \<and> take (length prefix) eventType = prefix
             \<and> eventType ! length prefix = CHR ''.'')"

definition matchSubscriptions :: "'d EventBus \<Rightarrow> string \<Rightarrow> Subscription list" where
  "matchSubscriptions eb eventType = filter (sub_matches eventType) (eb_subscriptions eb)"

record EventBusStats =
  st_SubscriptionCount :: nat
  st_PublishCount :: int
  st_ErrorCount :: int
  st_AsyncPoolSize :: nat
  st_AsyncPoolActive :: nat

definition eb_Stats :: "'d EventBus \<Rightarrow> EventBusStats" where
  "eb_Stats eb = \<lparr>st_SubscriptionCount = length (eb_subscriptions eb),
     st_PublishCount = eb_publishCount eb, st_ErrorCount = eb_errorCount eb,
     st_AsyncPoolSize = eb_semCap eb, st_AsyncPoolActive = eb_semUsed eb\<rparr>"

definition NewEvent :: "string \<Rightarrow> time \<Rightarrow> string \<Rightarrow> string \<Rightarrow> 'd \<Rightarrow> 'd Event" where
  "NewEvent newid now eventType source data =
     \<lparr>ev_ID = newid, ev_Type = eventType, ev_Source = source, ev_Timestamp = now, ev_TenantID = [],
      ev_UserID = [], ev_CorrelationID = [], ev_Data = data\<rparr>"

definition NewTenantEvent ::
  "string \<Rightarrow> time \<Rightarrow> string \<Rightarrow> string \<Rightarrow> string \<Rightarrow> string \<Rightarrow> 'd \<Rightarrow> 'd Event" where
  "NewTenantEvent newid now eventType source tenantID userID data =
     (NewEvent newid now eventType source data)\<lparr>ev_TenantID := tenantID, ev_UserID := userID\<rparr>"

definition emit_event :: "string \<Rightarrow> string \<Rightarrow> string \<Rightarrow> string \<Rightarrow> 'd \<Rightarrow> 'd Event" where
  "emit_event eventType source tenantID userID data =
     \<lparr>ev_ID = [], ev_Type = eventType, ev_Source = source, ev_Timestamp = 0, ev_TenantID = tenantID,
      ev_UserID = userID, ev_CorrelationID = [], ev_Data = data\<rparr>"

subsection \<open>Publish\<close>

definition event_defaults :: "string \<Rightarrow> time \<Rightarrow> 'd Event \<Rightarrow> 'd Event" where
  "event_defaults newid now ev =
     (let ev1 = if ev_ID ev = [] then ev\<lparr>ev_ID := newid\<rparr> else ev
      in if ev_Timestamp ev1 = 0 then ev1\<lparr>ev_Timestamp := now\<rparr> else ev1)"

text \<open>\<open>Publish\<close> up to its loop: the matched subscriptions are a snapshot.\<close>

definition publish_begin :: "bool \<Rightarrow> string \<Rightarrow> time \<Rightarrow> 'd Event \<Rightarrow> 'd EventBus \<Rightarrow> 'd EventBus" where
  "publish_begin async newid now ev eb =
     eb\<lparr>eb_publishCount := eb_publishCount eb + 1,
        eb_publishers := add_mset \<lparr>pub_event = event_defaults newid now ev,
          pub_rest = matchSubscriptions eb (ev_Type ev), pub_async = async\<rparr> (eb_publishers eb)\<rparr>"

definition eb_swap_pub :: "'d publisher \<Rightarrow> 'd publisher \<Rightarrow> 'd EventBus \<Rightarrow> 'd EventBus" where
  "eb_swap_pub p q eb = eb\<lparr>eb_publishers := add_mset q (eb_publishers eb - {#p#})\<rparr>"

definition eb_drop_pub :: "'d publisher \<Rightarrow> 'd EventBus \<Rightarrow> 'd EventBus" where
  "eb_drop_pub p eb = eb\<lparr>eb_publishers := eb_publishers eb - {#p#}\<rparr>"

definition eb_swap_worker :: "'d worker \<Rightarrow> 'd worker \<Rightarrow> 'd EventBus \<Rightarrow> 'd EventBus" where
  "eb_swap_worker v w eb = eb\<lparr>eb_workers := add_mset w (eb_workers eb - {#v#})\<rparr>"

definition eb_drop_worker :: "'d worker \<Rightarrow> 'd EventBus \<Rightarrow> 'd EventBus" where
  "eb_drop_worker v eb = eb\<lparr>eb_workers := eb_workers eb - {#v#}\<rparr>"

definition eb_error :: "'d EventBus \<Rightarrow> 'd EventBus" where
  "eb_error eb = eb\<lparr>eb_errorCount := eb_errorCount eb + 1\<rparr>"

definition sem_acquire :: "'d EventBus \<Rightarrow> 'd EventBus" where
  "sem_acquire eb = eb\<lparr>eb_semUsed := eb_semUsed eb + 1\<rparr>"

definition sem_release :: "'d EventBus \<Rightarrow> 'd EventBus" where
  "sem_release eb = eb\<lparr>eb_semUsed := eb_semUsed eb - 1\<rparr>"

inductive eb_step :: "'d EventBus \<Rightarrow> 'd EventBus \<Rightarrow> bool" where
  sSubscribe: "eb_step eb (fst (SubscribeNamed eb newid ty nm as))"
| sUnsubscribe: "eb_step eb (fst (Unsubscribe eb sid))"
| sPublish: "eb_step eb (publish_begin async newid now ev eb)"
| sPubDone: "p \<in># eb_publishers eb \<Longrightarrow> pub_rest p = [] \<Longrightarrow> eb_step eb (eb_drop_pub p eb)"
| sSyncOK: "p \<in># eb_publishers eb \<Longrightarrow> pub_rest p = s # ss \<Longrightarrow> \<not> sub_Async s \<Longrightarrow>
    eb_step eb (eb_swap_pub p (p\<lparr>pub_rest := ss\<rparr>) eb)"
| sSyncErr: "p \<in># eb_publishers eb \<Longrightarrow> pub_rest p = s # ss \<Longrightarrow> \<not> sub_Async s \<Longrightarrow>
    eb_step eb (eb_drop_pub p (eb_error eb))"
| sSyncPanic: "p \<in># eb_publishers eb \<Longrightarrow> pub_rest p = s # ss \<Longrightarrow> \<not> sub_Async s \<Longrightarrow>
    eb_step eb (eb_drop_pub p eb)"
| sDispatch: "p \<in># eb_publishers eb \<Longrightarrow> pub_rest p = s # ss \<Longrightarrow> sub_Async s \<Longrightarrow>
    eb_semUsed eb < eb_semCap eb \<Longrightarrow>
    eb_step eb ((sem_acquire (eb_swap_pub p (p\<lparr>pub_rest := ss\<rparr>) eb))
      \<lparr>eb_workers := add_mset (Running s (pub_event p)) (eb_workers eb)\<rparr>)"
| sRunOK: "Running s e \<in># eb_workers eb \<Longrightarrow> 0 < eb_semUsed eb \<Longrightarrow>
    eb_step eb (sem_release (eb_drop_worker (Running s e) eb))"
| sRunPanic: "Running s e \<in># eb_workers eb \<Longrightarrow> 0 < eb_semUsed eb \<Longrightarrow>
    eb_step eb (sem_release (eb_drop_worker (Running s e) (eb_error eb)))"
| sRunErr: "Running s e \<in># eb_workers eb \<Longrightarrow> 0 < eb_semUsed eb \<Longrightarrow>
    eb_step eb (eb_swap_worker (Running s e) (Backoff s e) (sem_release eb))"
| sTimer: "Backoff s e \<in># eb_workers eb \<Longrightarrow>
    eb_step eb (eb_swap_worker (Backoff s e) (Reacquire s e) eb)"
| sCtxDone: "Backoff s e \<in># eb_workers eb \<Longrightarrow> eb_step eb (eb_drop_worker (Backoff s e) (eb_error eb))"
| sReacquire: "Reacquire s e \<in># eb_workers eb \<Longrightarrow> eb_semUsed eb < eb_semCap eb \<Longrightarrow>
    eb_step eb (eb_swap_worker (Reacquire s e) (Retrying s e) (sem_acquire eb))"
| sRetryOK: "Retrying s e \<in># eb_workers eb \<Longrightarrow> eb_step eb (eb_drop_worker (Retrying s e) eb)"
| sRetryErr: "Retrying s e \<in># eb_workers eb \<Longrightarrow> eb_step eb (eb_drop_worker (Retrying s e) (eb_error eb))"

inductive eb_reach :: "'d EventBus \<Rightarrow> 'd EventBus \<Rightarrow> bool" where
  eb_refl [intro]: "eb_reach eb eb"
| eb_trans [intro]: "eb_reach eb eb1 \<Longrightarrow> eb_step eb1 eb2 \<Longrightarrow> eb_reach eb eb2"

lemma eb_reach_trans: "eb_reach b c \<Longrightarrow> eb_reach a b \<Longrightarrow> eb_reach a c"
  by (induction rule: eb_reach.induct) auto

text \<open>\<open>Drain\<close> returns when the wait group is zero.\<close>

definition asyncWG :: "'d EventBus \<Rightarrow> nat" where
  "asyncWG eb = size (eb_workers eb) + size (filter_mset pub_async (eb_publishers eb))"

definition drain_returns :: "'d EventBus \<Rightarrow> bool" where
  "drain_returns eb \<longleftrightarrow> asyncWG eb = 0"

lemmas eb_upd_defs = eb_swap_pub_def eb_drop_pub_def eb_swap_worker_def eb_drop_worker_def eb_error_def
  sem_acquire_def sem_release_def publish_begin_def SubscribeNamed_def Unsubscribe_def Let_def

subsection \<open>Matching and registration\<close>

lemma cutSuffix_iff: "cutSuffix s suf = (p, True) \<longleftrightarrow> s = p @ suf"
proof
  assume "cutSuffix s suf = (p, True)"
  then have "drop (length s - length suf) s = suf" "p = take (length s - length suf) s"
    by (auto simp: cutSuffix_def split: if_splits)
  then show "s = p @ suf"
    using append_take_drop_id[of "length s - length suf" s] by simp
qed (simp add: cutSuffix_def)

lemma dotted_prefix_iff:
  "length p < length s \<and> take (length p) s = p \<and> s ! length p = CHR ''.'' \<longleftrightarrow> (\<exists>r. s = p @ ''.'' @ r)"
  (is "?l \<longleftrightarrow> ?r")
proof
  assume l: ?l
  then have "p @ ''.'' @ drop (Suc (length p)) s = s"
    using id_take_nth_drop[of "length p" s, symmetric] by simp
  then have "s = p @ ''.'' @ drop (Suc (length p)) s"
    by (rule sym)
  then show ?r
    by (rule exI)
next
  assume ?r
  then obtain r where "s = p @ ''.'' @ r"
    by (elim exE)
  then show ?l
    by (simp add: nth_append)
qed

lemma sub_matches_iff:
  "sub_matches ty s \<longleftrightarrow> sub_EventType s = ''*'' \<or> sub_EventType s = ty
     \<or> (\<exists>p r. sub_EventType s = p @ ''.*'' \<and> ty = p @ ''.'' @ r)"
proof (cases "snd (cutSuffix (sub_EventType s) ''.*'')")
  case True
  then obtain p where p: "cutSuffix (sub_EventType s) ''.*'' = (p, True)"
    by (metis prod.collapse)
  then have eq: "sub_EventType s = p @ ''.*''"
    by (simp only: cutSuffix_iff)
  have "(\<exists>q r. p @ ''.*'' = q @ ''.*'' \<and> ty = q @ ''.'' @ r) \<longleftrightarrow> (\<exists>r. ty = p @ ''.'' @ r)"
    by (simp only: append_same_eq) blast
  moreover have "sub_matches ty s \<longleftrightarrow>
      sub_EventType s = ''*'' \<or> sub_EventType s = ty \<or> (\<exists>r. ty = p @ ''.'' @ r)"
    unfolding sub_matches_def p dotted_prefix_iff[symmetric] by simp
  ultimately show ?thesis
    unfolding eq by blast
next
  case False
  then have none: "sub_EventType s \<noteq> p @ ''.*''" for p
    using cutSuffix_iff[of "sub_EventType s" "''.*''" p] by (metis snd_conv)
  then show ?thesis
    using False by (simp add: sub_matches_def split_beta)
qed

text \<open>
  An event reaches exactly the subscriptions whose pattern covers its type, in the order of the
  list: the pattern is "*", or the type itself, or "p.*" for some p that is followed by a dot in the
  type.
\<close>

theorem event_match_correct:
  "matchSubscriptions eb ty =
     filter (\<lambda>s. sub_EventType s = ''*'' \<or> sub_EventType s = ty
       \<or> (\<exists>p r. sub_EventType s = p @ ''.*'' \<and> ty = p @ ''.'' @ r)) (eb_subscriptions eb)"
  unfolding matchSubscriptions_def by (rule filter_cong[OF refl sub_matches_iff])

lemma unsubscribe_at_None: "unsubscribe_at ss sid i = None \<longleftrightarrow> sid \<notin> sub_ID ` set ss"
  by (induction ss arbitrary: i) auto

lemma unsubscribe_at_split:
  "sid \<notin> sub_ID ` set us \<Longrightarrow> unsubscribe_at (us @ s # vs) (sub_ID s) i =
     (if sub_ID s \<in> sub_ID ` set us then unsubscribe_at us (sub_ID s) i else Some (i + length us))"
  by (induction us arbitrary: i) auto

text \<open>
  Unsubscribe removes exactly the first subscription with the given identifier and nothing else,
  and reports whether there was one. The last subscription takes the freed place, so the remaining
  ones keep their relative order only if the removed one was the last.
\<close>

theorem unsubscribe_effect:
  "case Unsubscribe eb sid of (eb', found) \<Rightarrow>
     (found \<longleftrightarrow> (\<exists>s\<in>set (eb_subscriptions eb). sub_ID s = sid))
     \<and> (\<forall>us s vs. eb_subscriptions eb = us @ s # vs \<and> sub_ID s = sid \<and> sid \<notin> sub_ID ` set us \<longrightarrow>
          eb' = eb\<lparr>eb_subscriptions := us @ (if vs = [] then [] else last vs # butlast vs)\<rparr>)
     \<and> (\<not> found \<longrightarrow> eb' = eb)"
proof -
  have "fst (Unsubscribe eb sid) = eb\<lparr>eb_subscriptions := us @ (if vs = [] then [] else last vs # butlast vs)\<rparr>"
    if "eb_subscriptions eb = us @ s # vs" "sub_ID s = sid" "sid \<notin> sub_ID ` set us" for us s vs
  proof -
    have "unsubscribe_at (eb_subscriptions eb) sid 0 = Some (length us)"
      using that unsubscribe_at_split[of sid us s vs 0] by auto
    then show ?thesis
      using that(1) by (cases vs rule: rev_cases) (auto simp: Unsubscribe_def Let_def nth_append)
  qed
  moreover have "snd (Unsubscribe eb sid) \<longleftrightarrow> (\<exists>s\<in>set (eb_subscriptions eb). sub_ID s = sid)"
    using unsubscribe_at_None[of "eb_subscriptions eb" sid 0]
    by (auto simp: Unsubscribe_def Let_def split: option.splits)
  moreover have "\<not> snd (Unsubscribe eb sid) \<Longrightarrow> fst (Unsubscribe eb sid) = eb"
    by (auto simp: Unsubscribe_def Let_def split: option.splits)
  ultimately show ?thesis
    by (auto simp: split_beta)
qed

definition ex_sub :: "string \<Rightarrow> bool \<Rightarrow> Subscription" where
  "ex_sub i async = \<lparr>sub_ID = i, sub_EventType = ''app.*'', sub_Name = [], sub_Async = async\<rparr>"

theorem unsubscribe_effect_witness:
  "eb_subscriptions (fst (Unsubscribe (NewEventBus\<lparr>eb_subscriptions :=
       [ex_sub ''a'' True, ex_sub ''b'' True, ex_sub ''c'' True]\<rparr> :: nat EventBus) ''a''))
   = [ex_sub ''c'' True, ex_sub ''b'' True]"
  using unsubscribe_effect[of "NewEventBus\<lparr>eb_subscriptions :=
       [ex_sub ''a'' True, ex_sub ''b'' True, ex_sub ''c'' True]\<rparr> :: nat EventBus" "''a''"]
  by (auto simp: split_beta ex_sub_def dest: spec[of _ "[]"])

subsection \<open>The asynchronous pool\<close>

fun holds_slot :: "'d worker \<Rightarrow> bool" where
  "holds_slot (Running s e) = True"
| "holds_slot (Backoff s e) = False"
| "holds_slot (Reacquire s e) = False"
| "holds_slot (Retrying s e) = True"

definition slots_held :: "'d EventBus \<Rightarrow> nat" where
  "slots_held eb = size (filter_mset holds_slot (eb_workers eb))"

definition pool_inv :: "'d EventBus \<Rightarrow> bool" where
  "pool_inv eb \<longleftrightarrow> slots_held eb \<le> eb_semUsed eb \<and> eb_semUsed eb \<le> eb_semCap eb"

lemma pool_inv_step: "eb_step eb eb' \<Longrightarrow> pool_inv eb \<Longrightarrow> pool_inv eb'"
  by (induction rule: eb_step.induct)
     (auto simp: pool_inv_def slots_held_def eb_upd_defs dest!: multi_member_split split: option.splits)

lemma pool_inv_reach: "eb_reach eb eb' \<Longrightarrow> pool_inv eb \<Longrightarrow> pool_inv eb'"
  by (induction rule: eb_reach.induct) (auto intro: pool_inv_step)

lemma semCap_reach: "eb_reach eb eb' \<Longrightarrow> eb_semCap eb' = eb_semCap eb"
proof (induction rule: eb_reach.induct)
  case (eb_trans eb eb1 eb2)
  from eb_trans(2,3) show ?case
    by (induction rule: eb_step.induct) (auto simp: eb_upd_defs split: option.splits)
qed simp

text \<open>
  Bounded concurrency: in every state the bus can reach, at most DefaultAsyncWorkers
  asynchronous handlers are inside their handler function, whatever fails, panics or is cancelled.
\<close>

theorem event_bus_bounded:
  assumes "eb_reach NewEventBus eb"
  shows "slots_held eb \<le> eb_semUsed eb \<and> eb_semUsed eb \<le> DefaultAsyncWorkers"
proof -
  have "pool_inv (NewEventBus :: 'a EventBus)"
    by (simp add: pool_inv_def slots_held_def NewEventBus_def)
  then show ?thesis
    using pool_inv_reach[OF assms] semCap_reach[OF assms] by (simp add: pool_inv_def NewEventBus_def)
qed

subsection \<open>Slots lost by retries\<close>

text \<open>A state in which every slot is taken and no handler holds one.\<close>

definition pool_dead :: "'d EventBus \<Rightarrow> bool" where
  "pool_dead eb \<longleftrightarrow> eb_semUsed eb = eb_semCap eb \<and> (\<forall>w. w \<in># eb_workers eb \<longrightarrow> \<not> holds_slot w)"

definition waits_for_slot :: "'d publisher \<Rightarrow> bool" where
  "waits_for_slot p \<longleftrightarrow> (case pub_rest p of [] \<Rightarrow> False | s # ss \<Rightarrow> sub_Async s)"

lemma member_diff: "x \<in># M \<Longrightarrow> x \<noteq> y \<Longrightarrow> x \<in># M - {#y#}"
  by (simp add: in_diff_count)

lemma pool_dead_step: "eb_step eb eb' \<Longrightarrow> pool_dead eb \<Longrightarrow> pool_dead eb'"
  by (induction rule: eb_step.induct)
     (auto simp: pool_dead_def eb_upd_defs dest: in_diffD split: option.splits)

lemma pool_dead_waits_step:
  "eb_step eb eb' \<Longrightarrow> pool_dead eb \<Longrightarrow> p \<in># eb_publishers eb \<Longrightarrow> waits_for_slot p \<Longrightarrow> p \<in># eb_publishers eb'"
  by (induction rule: eb_step.induct)
     (auto simp: pool_dead_def waits_for_slot_def eb_upd_defs intro!: member_diff split: option.splits)

lemma pool_dead_reach:
  "eb_reach eb eb' \<Longrightarrow> pool_dead eb \<Longrightarrow> p \<in># eb_publishers eb \<Longrightarrow> waits_for_slot p \<Longrightarrow>
   pool_dead eb' \<and> p \<in># eb_publishers eb'"
  by (induction rule: eb_reach.induct) (auto intro: pool_dead_step pool_dead_waits_step)

definition async_star :: Subscription where
  "async_star = \<lparr>sub_ID = ''s1'', sub_EventType = ''*'', sub_Name = ''audit'', sub_Async = True\<rparr>"

definition idle_bus :: "nat \<Rightarrow> 'd EventBus" where
  "idle_bus k = NewEventBus\<lparr>eb_subscriptions := [async_star], eb_semUsed := k, eb_publishCount := int k\<rparr>"

text \<open>One event whose asynchronous handler fails once and then succeeds on its retry.\<close>

lemma retry_loses_slot:
  assumes "k < DefaultAsyncWorkers"
  shows "eb_reach (idle_bus k :: 'd EventBus) (idle_bus (Suc k))"
proof -
  obtain ev :: "'d Event" where True
    by blast
  let ?e = "event_defaults ''e1'' 1 ev"
  let ?p = "\<lparr>pub_event = ?e, pub_rest = [async_star], pub_async = False\<rparr>"
  let ?q = "\<lparr>pub_event = ?e, pub_rest = [], pub_async = False\<rparr>"
  let ?b = "(idle_bus k)\<lparr>eb_publishCount := int (Suc k)\<rparr> :: 'd EventBus"
  have 1: "eb_step (idle_bus k) (?b\<lparr>eb_publishers := {#?p#}\<rparr>)"
    using sPublish[of "idle_bus k" False "''e1''" 1 ev]
    by (simp add: publish_begin_def idle_bus_def NewEventBus_def matchSubscriptions_def sub_matches_def
        async_star_def add.commute)
  have 2: "eb_step (?b\<lparr>eb_publishers := {#?p#}\<rparr>)
      (?b\<lparr>eb_publishers := {#?q#}, eb_semUsed := Suc k, eb_workers := {#Running async_star ?e#}\<rparr>)"
    using sDispatch[of ?p "?b\<lparr>eb_publishers := {#?p#}\<rparr>" async_star "[]"] assms
    by (simp add: eb_upd_defs idle_bus_def NewEventBus_def async_star_def)
  have 3: "eb_step (?b\<lparr>eb_publishers := {#?q#}, eb_semUsed := Suc k, eb_workers := {#Running async_star ?e#}\<rparr>)
      (?b\<lparr>eb_semUsed := Suc k, eb_workers := {#Running async_star ?e#}\<rparr>)"
    using sPubDone[of ?q "?b\<lparr>eb_publishers := {#?q#}, eb_semUsed := Suc k,
        eb_workers := {#Running async_star ?e#}\<rparr>"]
    by (simp add: eb_upd_defs idle_bus_def NewEventBus_def)
  have 4: "eb_step (?b\<lparr>eb_semUsed := Suc k, eb_workers := {#Running async_star ?e#}\<rparr>)
      (?b\<lparr>eb_workers := {#Backoff async_star ?e#}\<rparr>)"
    using sRunErr[of async_star ?e "?b\<lparr>eb_semUsed := Suc k, eb_workers := {#Running async_star ?e#}\<rparr>"]
    by (simp add: eb_upd_defs idle_bus_def NewEventBus_def)
  have 5: "eb_step (?b\<lparr>eb_workers := {#Backoff async_star ?e#}\<rparr>) (?b\<lparr>eb_workers := {#Reacquire async_star ?e#}\<rparr>)"
    using sTimer[of async_star ?e "?b\<lparr>eb_workers := {#Backoff async_star ?e#}\<rparr>"]
    by (simp add: eb_upd_defs)
  have 6: "eb_step (?b\<lparr>eb_workers := {#Reacquire async_star ?e#}\<rparr>)
      (?b\<lparr>eb_semUsed := Suc k, eb_workers := {#Retrying async_star ?e#}\<rparr>)"
    using sReacquire[of async_star ?e "?b\<lparr>eb_workers := {#Reacquire async_star ?e#}\<rparr>"] assms
    by (simp add: eb_upd_defs idle_bus_def NewEventBus_def)
  have 7: "eb_step (?b\<lparr>eb_semUsed := Suc k, eb_workers := {#Retrying async_star ?e#}\<rparr>) (idle_bus (Suc k))"
    using sRetryOK[of async_star ?e "?b\<lparr>eb_semUsed := Suc k, eb_workers := {#Retrying async_star ?e#}\<rparr>"]
    by (simp add: eb_upd_defs idle_bus_def NewEventBus_def)
  show ?thesis
    by (rule eb_trans[OF eb_trans[OF eb_trans[OF eb_trans[OF eb_trans[OF eb_trans[OF
          eb_trans[OF eb_refl 1] 2] 3] 4] 5] 6] 7])
qed

lemma idle_bus_reach: "k \<le> DefaultAsyncWorkers \<Longrightarrow> eb_reach NewEventBus (idle_bus k :: 'd EventBus)"
proof (induction k)
  case 0
  have "eb_step NewEventBus (idle_bus 0 :: 'd EventBus)"
    using sSubscribe[of "NewEventBus :: 'd EventBus" "''s1''" "''*''" "''audit''" True]
    by (simp add: SubscribeNamed_def idle_bus_def NewEventBus_def async_star_def)
  then show ?case
    by blast
next
  case (Suc k)
  then have "eb_reach NewEventBus (idle_bus k :: 'd EventBus)"
    by simp
  moreover have "eb_reach (idle_bus k :: 'd EventBus) (idle_bus (Suc k))"
    using Suc(2) by (intro retry_loses_slot) simp
  ultimately show ?case
    using eb_reach_trans by blast
qed

text \<open>
  C5. A worker that retries never returns the slot it takes for its second run. After
  DefaultAsyncWorkers events whose asynchronous handler failed once, the bus is idle with no slot
  left: every event published from then on stays with its publisher for ever, whatever else happens,
  and if it was published with PublishAsync, Drain never returns.
\<close>

theorem event_bus_retry_deadlock:
  "\<exists>eb :: 'd EventBus. eb_reach NewEventBus eb \<and> eb_workers eb = {#} \<and> eb_publishers eb = {#}
     \<and> eb_publishCount eb = int DefaultAsyncWorkers \<and> eb_subscriptions eb = [async_star]
     \<and> (\<forall>async newid now ev eb'. eb_reach (publish_begin async newid now ev eb) eb' \<longrightarrow>
          \<lparr>pub_event = event_defaults newid now ev, pub_rest = [async_star], pub_async = async\<rparr> \<in># eb_publishers eb'
          \<and> (async \<longrightarrow> \<not> drain_returns eb'))"
proof -
  let ?eb = "idle_bus DefaultAsyncWorkers :: 'd EventBus"
  have "\<lparr>pub_event = event_defaults newid now ev, pub_rest = [async_star], pub_async = async\<rparr> \<in># eb_publishers eb'
      \<and> (async \<longrightarrow> \<not> drain_returns eb')"
    if reach: "eb_reach (publish_begin async newid now ev ?eb) eb'" for async newid now ev eb'
  proof -
    let ?p = "\<lparr>pub_event = event_defaults newid now ev, pub_rest = [async_star], pub_async = async\<rparr>"
    have "pool_dead (publish_begin async newid now ev ?eb)"
      by (simp add: pool_dead_def publish_begin_def idle_bus_def NewEventBus_def)
    moreover have "?p \<in># eb_publishers (publish_begin async newid now ev ?eb)"
      by (simp add: publish_begin_def idle_bus_def matchSubscriptions_def sub_matches_def async_star_def)
    moreover have "waits_for_slot ?p"
      by (simp add: waits_for_slot_def async_star_def)
    ultimately have p: "?p \<in># eb_publishers eb'"
      using pool_dead_reach[OF reach] by blast
    moreover have "\<not> drain_returns eb'" if async
      using multi_member_split[OF p] that by (auto simp: drain_returns_def asyncWG_def)
    ultimately show ?thesis
      by blast
  qed
  moreover have "eb_workers ?eb = {#} \<and> eb_publishers ?eb = {#}
      \<and> eb_publishCount ?eb = int DefaultAsyncWorkers \<and> eb_subscriptions ?eb = [async_star]"
    by (simp add: idle_bus_def NewEventBus_def)
  ultimately show ?thesis
    using idle_bus_reach[of DefaultAsyncWorkers] by blast
qed

theorem event_bus_retry_deadlock_witness:
  "\<exists>eb :: nat EventBus. eb_reach NewEventBus eb \<and>
     \<not> drain_returns (publish_begin True ''e2'' 2 (emit_event ''app.created'' ''api'' [] [] 0) eb)"
proof -
  obtain eb :: "nat EventBus" where "eb_reach NewEventBus eb"
    and stuck: "\<forall>async newid now ev eb'. eb_reach (publish_begin async newid now ev eb) eb' \<longrightarrow>
          \<lparr>pub_event = event_defaults newid now ev, pub_rest = [async_star], pub_async = async\<rparr> \<in># eb_publishers eb'
          \<and> (async \<longrightarrow> \<not> drain_returns eb')"
    using event_bus_retry_deadlock by (elim exE conjE)
  moreover from stuck have
    "\<not> drain_returns (publish_begin True ''e2'' 2 (emit_event ''app.created'' ''api'' [] [] 0) eb)"
    using eb_refl by blast
  ultimately show ?thesis
    by blast
qed

theorem event_bus_bounded_witness:
  "slots_held (idle_bus 5 :: nat EventBus) \<le> 5"
  using event_bus_bounded[OF idle_bus_reach[of 5]] by (simp add: DefaultAsyncWorkers_def idle_bus_def NewEventBus_def)

end
