(* ===== verification/KV_Store.thy ===== *)
theory KV_Store
  imports Prelude
begin

text \<open>
  The key-value store of \<open>internal/db/kv.go\<close> over its two SQLite tables, and the contract of
  \<open>core.KVStorer\<close> that the rest of the program relies on.

  The table \<open>kv_store\<close> is the list of its rows, in the order the database scans them, with the
  primary key \<open>(bucket, key)\<close>; \<open>kv_buckets\<close> is a set of names. A stored document has type \<open>'j\<close>;
  \<open>json.Marshal\<close>, \<open>json.Unmarshal\<close> and \<open>json.Valid\<close> for a value type \<open>'a\<close> are the arguments
  \<open>enc\<close>, \<open>dec\<close> and \<open>valid\<close>. Every operation takes \<open>io\<close>, which is false when a call to the
  database fails: the operation then returns an error and, because it runs in one transaction that
  is rolled back, changes nothing. The clock \<open>time.Now().Unix()\<close> is the argument \<open>now\<close>, in
  seconds.
\<close>

datatype kv_error = KVNotFound | KVMarshal | KVUnmarshal | KVDatabase | KVCallback string | KVNoCallback

record 'j kvRow =
  row_bucket :: string
  row_key :: string
  row_data :: 'j
  row_expires_at :: int

record 'j KVStore =
  kv_rows :: "'j kvRow list"
  kv_buckets :: "string set"

definition defaultKVBuckets :: "string list" where
  "defaultKVBuckets =
     [''sessions'', ''ratelimit'', ''buildcache'', ''metrics_ring'', ''cronjobs'', ''app_pins'', ''autoscale'',
      ''basic_auth'', ''api_keys'', ''deploy_freeze'', ''deploy_notify'', ''deploy_approval'', ''maintenance'',
      ''app_middleware'', ''container_metrics'', ''announcements'', ''certificates'', ''ssh_keys'',
      ''log_retention'', ''event_webhooks'', ''webhook_logs'', ''webhooks'', ''revoked_tokens'', ''vault'',
      ''git_provider_connections'', ''build_queue'']"

definition initSchema :: "'j KVStore \<Rightarrow> 'j KVStore" where
  "initSchema kv =
     kv\<lparr>kv_buckets := kv_buckets kv \<union> set defaultKVBuckets \<union> set (map row_bucket (kv_rows kv))\<rparr>"

definition NewKVStore :: "'j KVStore" where
  "NewKVStore = initSchema \<lparr>kv_rows = [], kv_buckets = {}\<rparr>"

subsection \<open>SQL statements\<close>

definition row_is :: "string \<Rightarrow> string \<Rightarrow> 'j kvRow \<Rightarrow> bool" where
  "row_is b k r \<longleftrightarrow> row_bucket r = b \<and> row_key r = k"

definition sql_upsert :: "'j kvRow \<Rightarrow> 'j kvRow list \<Rightarrow> 'j kvRow list" where
  "sql_upsert r rows =
     (if (\<exists>x\<in>set rows. row_is (row_bucket r) (row_key r) x)
      then map (\<lambda>x. if row_is (row_bucket r) (row_key r) x then r else x) rows
      else rows @ [r])"

definition sql_select :: "string \<Rightarrow> string \<Rightarrow> 'j kvRow list \<Rightarrow> 'j kvRow option" where
  "sql_select b k rows = find (row_is b k) rows"

definition sql_delete :: "string \<Rightarrow> string \<Rightarrow> 'j kvRow list \<Rightarrow> 'j kvRow list" where
  "sql_delete b k rows = filter (\<lambda>r. \<not> row_is b k r) rows"

definition kv_put :: "string \<Rightarrow> string \<Rightarrow> 'j \<Rightarrow> int \<Rightarrow> 'j KVStore \<Rightarrow> 'j KVStore" where
  "kv_put b k data e kv =
     kv\<lparr>kv_buckets := insert b (kv_buckets kv),
        kv_rows := sql_upsert \<lparr>row_bucket = b, row_key = k, row_data = data, row_expires_at = e\<rparr> (kv_rows kv)\<rparr>"

subsection \<open>Operations\<close>

definition expiry :: "time \<Rightarrow> int \<Rightarrow> int" where
  "expiry now ttl = (if ttl > 0 then now + ttl else 0)"

definition kv_Set ::
  "('a \<Rightarrow> 'j option) \<Rightarrow> bool \<Rightarrow> time \<Rightarrow> string \<Rightarrow> string \<Rightarrow> 'a \<Rightarrow> int \<Rightarrow> 'j KVStore \<Rightarrow> 'j KVStore \<times> kv_error option" where
  "kv_Set enc io now b k v ttl kv =
     (case enc v of
        None \<Rightarrow> (kv, Some KVMarshal)
      | Some data \<Rightarrow>
          if \<not> io then (kv, Some KVDatabase) else (kv_put b k data (expiry now ttl) kv, None))"

record 'a KVBatchItem =
  bi_Bucket :: string
  bi_Key :: string
  bi_Value :: 'a
  bi_TTL :: int

fun batch_loop ::
  "('a \<Rightarrow> 'j option) \<Rightarrow> time \<Rightarrow> 'a KVBatchItem list \<Rightarrow> 'j KVStore \<Rightarrow> kv_error + 'j KVStore" where
  "batch_loop enc now [] kv = Inr kv"
| "batch_loop enc now (item # items) kv =
     (case enc (bi_Value item) of
        None \<Rightarrow> Inl KVMarshal
      | Some data \<Rightarrow>
          batch_loop enc now items (kv_put (bi_Bucket item) (bi_Key item) data (expiry now (bi_TTL item)) kv))"

definition kv_BatchSet ::
  "('a \<Rightarrow> 'j option) \<Rightarrow> bool \<Rightarrow> time \<Rightarrow> 'a KVBatchItem list \<Rightarrow> 'j KVStore \<Rightarrow> 'j KVStore \<times> kv_error option" where
  "kv_BatchSet enc io now items kv =
     (if items = [] then (kv, None)
      else if \<not> io then (kv, Some KVDatabase)
      else case batch_loop enc now items kv of
             Inl e \<Rightarrow> (kv, Some e)
           | Inr kv' \<Rightarrow> (kv', None))"

definition row_live :: "time \<Rightarrow> 'j kvRow \<Rightarrow> bool" where
  "row_live now r \<longleftrightarrow> row_expires_at r = 0 \<or> now < row_expires_at r"

text \<open>\<open>Mutate\<close>: the callback sees the decoded value, or nothing if there is none or it has expired,
  and returns the value to write or an error.\<close>

definition kv_Mutate ::
  "('a \<Rightarrow> 'j option) \<Rightarrow> ('j \<Rightarrow> 'a option) \<Rightarrow> bool \<Rightarrow> time \<Rightarrow> string \<Rightarrow> string \<Rightarrow> int \<Rightarrow>
   ('a option \<Rightarrow> string + 'a) option \<Rightarrow> 'j KVStore \<Rightarrow> 'j KVStore \<times> kv_error option" where
  "kv_Mutate enc dec io now b k ttl mutate kv =
     (case mutate of
        None \<Rightarrow> (kv, Some KVNoCallback)
      | Some f \<Rightarrow>
          if \<not> io then (kv, Some KVDatabase)
          else
            (let write = (\<lambda>cur. case f cur of
                   Inl e \<Rightarrow> (kv, Some (KVCallback e))
                 | Inr v \<Rightarrow>
                     (case enc v of
                        None \<Rightarrow> (kv, Some KVMarshal)
                      | Some data \<Rightarrow> (kv_put b k data (expiry now ttl) kv, None)))
             in case sql_select b k (kv_rows kv) of
                  None \<Rightarrow> write None
                | Some r \<Rightarrow>
                    if row_live now r then
                      (case dec (row_data r) of
                         None \<Rightarrow> (kv, Some KVUnmarshal)
                       | Some v \<Rightarrow> write (Some v))
                    else write None))"

definition kv_Get ::
  "('j \<Rightarrow> 'a option) \<Rightarrow> bool \<Rightarrow> time \<Rightarrow> string \<Rightarrow> string \<Rightarrow> 'j KVStore \<Rightarrow> kv_error + 'a" where
  "kv_Get dec io now b k kv =
     (if \<not> io then Inl KVDatabase
      else case sql_select b k (kv_rows kv) of
             None \<Rightarrow> Inl KVNotFound
           | Some r \<Rightarrow>
               if row_expires_at r > 0 \<and> now \<ge> row_expires_at r then Inl KVNotFound
               else (case dec (row_data r) of None \<Rightarrow> Inl KVUnmarshal | Some v \<Rightarrow> Inr v))"

definition bucketExists :: "string \<Rightarrow> 'j KVStore \<Rightarrow> bool" where
  "bucketExists b kv \<longleftrightarrow> b \<in> kv_buckets kv"

definition kv_Delete :: "bool \<Rightarrow> string \<Rightarrow> string \<Rightarrow> 'j KVStore \<Rightarrow> 'j KVStore \<times> kv_error option" where
  "kv_Delete io b k kv =
     (if \<not> io then (kv, Some KVDatabase)
      else if \<not> bucketExists b kv then (kv, Some KVNotFound)
      else (kv\<lparr>kv_rows := sql_delete b k (kv_rows kv)\<rparr>, None))"

definition kv_List :: "('j \<Rightarrow> bool) \<Rightarrow> bool \<Rightarrow> time \<Rightarrow> string \<Rightarrow> 'j KVStore \<Rightarrow> kv_error + string list" where
  "kv_List valid io now b kv =
     (if \<not> io then Inl KVDatabase
      else
        let rows = filter (\<lambda>r. row_bucket r = b \<and> (row_expires_at r = 0 \<or> row_expires_at r > now)) (kv_rows kv);
            keys = map row_key (filter (\<lambda>r. valid (row_data r)) rows)
        in if keys = [] \<and> \<not> bucketExists b kv then Inl KVNotFound else Inr keys)"

subsection \<open>The table is a map with expiry\<close>

definition kv_key :: "'j kvRow \<Rightarrow> string \<times> string" where
  "kv_key r = (row_bucket r, row_key r)"

definition kv_map :: "'j KVStore \<Rightarrow> (string \<times> string) \<Rightarrow> ('j \<times> int) option" where
  "kv_map kv = (\<lambda>(b, k). map_option (\<lambda>r. (row_data r, row_expires_at r)) (sql_select b k (kv_rows kv)))"

definition kv_inv :: "'j KVStore \<Rightarrow> bool" where
  "kv_inv kv \<longleftrightarrow> distinct (map kv_key (kv_rows kv)) \<and> (\<forall>r\<in>set (kv_rows kv). row_bucket r \<in> kv_buckets kv)"

lemma row_is_key: "row_is b k = (\<lambda>r. kv_key r = (b, k))"
  by (auto simp: row_is_def kv_key_def fun_eq_iff)

lemma kv_key_row [simp]: "kv_key \<lparr>row_bucket = b, row_key = k, row_data = d, row_expires_at = e\<rparr> = (b, k)"
  by (simp add: kv_key_def)

lemma sql_upsert_alt:
  "sql_upsert r rows =
     (if kv_key r \<in> kv_key ` set rows then map (\<lambda>x. if kv_key x = kv_key r then r else x) rows
      else rows @ [r])"
  unfolding sql_upsert_def row_is_key kv_key_def[of r, symmetric] image_iff by metis

lemma sql_upsert_keys:
  "map kv_key (sql_upsert r rows) =
     (if kv_key r \<in> set (map kv_key rows) then map kv_key rows else map kv_key rows @ [kv_key r])"
  by (auto simp: sql_upsert_alt)

lemma find_key_None: "find (\<lambda>x. kv_key x = p) xs = None \<longleftrightarrow> p \<notin> kv_key ` set xs"
  by (induction xs) auto

lemma find_key_replace:
  "find (\<lambda>x. kv_key x = p) (map (\<lambda>x. if kv_key x = kv_key r then r else x) xs) =
     (if kv_key r = p then (if p \<in> kv_key ` set xs then Some r else None) else find (\<lambda>x. kv_key x = p) xs)"
  by (induction xs) auto

lemma find_key_snoc:
  "find (\<lambda>x. kv_key x = p) (xs @ [r]) =
     (if p \<in> kv_key ` set xs then find (\<lambda>x. kv_key x = p) xs else if kv_key r = p then Some r else None)"
  by (induction xs) auto

lemma sql_select_key: "sql_select b k rows = find (\<lambda>x. kv_key x = (b, k)) rows"
  unfolding sql_select_def row_is_key ..

lemma sql_select_upsert:
  "sql_select b k (sql_upsert r rows) = (if kv_key r = (b, k) then Some r else sql_select b k rows)"
  unfolding sql_select_key sql_upsert_alt
  unfolding if_distrib[of "find _"] find_key_replace find_key_snoc
  using find_key_None[of "(b, k)" rows, THEN iffD2] by simp

lemma sql_select_delete:
  "sql_select b k (sql_delete b' k' rows) = (if (b, k) = (b', k') then None else sql_select b k rows)"
  by (induction rows) (auto simp: sql_select_key sql_delete_def row_is_key)

lemma kv_map_put: "kv_map (kv_put b k d e kv) = (kv_map kv)((b, k) \<mapsto> (d, e))"
  by (auto simp: kv_map_def kv_put_def sql_select_upsert fun_eq_iff)

lemma kv_map_delete:
  "kv_map (kv\<lparr>kv_rows := sql_delete b k (kv_rows kv)\<rparr>) = (kv_map kv)((b, k) := None)"
  by (auto simp: kv_map_def sql_select_delete fun_eq_iff)

lemma kv_inv_put:
  "kv_inv kv \<Longrightarrow> kv_inv (kv_put b k d e kv)"
  using sql_upsert_keys[of "\<lparr>row_bucket = b, row_key = k, row_data = d, row_expires_at = e\<rparr>" "kv_rows kv"]
  by (auto simp: kv_inv_def kv_put_def sql_upsert_alt split: if_splits)

lemma kv_inv_delete: "kv_inv kv \<Longrightarrow> kv_inv (kv\<lparr>kv_rows := sql_delete b k (kv_rows kv)\<rparr>)"
  by (auto simp: kv_inv_def sql_delete_def distinct_map inj_on_def)

interpretation kvs: keyed_store kv_map kv_inv
    "\<lambda>k v. kv_put (fst k) (snd k) (fst v) (snd v)"
    "\<lambda>k kv. kv\<lparr>kv_rows := sql_delete (fst k) (snd k) (kv_rows kv)\<rparr>"
    "\<lambda>k. True" "\<lambda>k v. True"
  by unfold_locales (simp_all add: kv_map_put kv_map_delete kv_inv_put kv_inv_delete)

subsection \<open>The contract of KVStorer\<close>

text \<open>What a client that stores values of one type relies on: a value can be read back until its
  time to live is over, and writing one key leaves the others alone.\<close>

locale kv_storer =
  fixes kget :: "'s \<Rightarrow> time \<Rightarrow> string \<Rightarrow> string \<Rightarrow> kv_error + 'a"
    and kset :: "time \<Rightarrow> string \<Rightarrow> string \<Rightarrow> 'a \<Rightarrow> int \<Rightarrow> 's \<Rightarrow> 's"
  assumes get_live: "0 \<le> t \<Longrightarrow> ttl \<le> 0 \<or> t' < t + ttl \<Longrightarrow> kget (kset t b k v ttl s) t' b k = Inr v"
    and get_expired: "0 \<le> t \<Longrightarrow> 0 < ttl \<Longrightarrow> t + ttl \<le> t' \<Longrightarrow> kget (kset t b k v ttl s) t' b k = Inl KVNotFound"
    and get_other: "(b', k') \<noteq> (b, k) \<Longrightarrow> kget (kset t b k v ttl s) t' b' k' = kget s t' b' k'"
begin

lemma get_after_set:
  "0 \<le> t \<Longrightarrow> kget (kset t b k v ttl s) t' b' k' =
     (if (b', k') = (b, k) then (if ttl > 0 \<and> t + ttl \<le> t' then Inl KVNotFound else Inr v)
      else kget s t' b' k')"
  using get_live[of t ttl t'] get_expired[of t ttl t'] get_other by auto

lemma last_set_wins:
  "0 \<le> t \<Longrightarrow> 0 \<le> u \<Longrightarrow> kget (kset u b k v ttl (kset t b k w ttl' s)) t' b' k' = kget (kset u b k v ttl s) t' b' k'"
  by (simp add: get_after_set)

end

definition codec_ok :: "('a \<Rightarrow> 'j option) \<Rightarrow> ('j \<Rightarrow> 'a option) \<Rightarrow> bool" where
  "codec_ok enc dec \<longleftrightarrow> (\<forall>v. \<exists>j. enc v = Some j \<and> dec j = Some v)"

definition kv_get_op :: "('j \<Rightarrow> 'a option) \<Rightarrow> 'j KVStore \<Rightarrow> time \<Rightarrow> string \<Rightarrow> string \<Rightarrow> kv_error + 'a" where
  "kv_get_op dec kv now b k = kv_Get dec True now b k kv"

definition kv_set_op :: "('a \<Rightarrow> 'j option) \<Rightarrow> time \<Rightarrow> string \<Rightarrow> string \<Rightarrow> 'a \<Rightarrow> int \<Rightarrow> 'j KVStore \<Rightarrow> 'j KVStore" where
  "kv_set_op enc now b k v ttl kv = fst (kv_Set enc True now b k v ttl kv)"

lemma kv_Get_put:
  "0 \<le> now \<Longrightarrow> kv_Get dec True now' b' k' (kv_put b k j (expiry now ttl) kv) =
     (if (b', k') = (b, k)
      then (if ttl > 0 \<and> now + ttl \<le> now' then Inl KVNotFound
            else (case dec j of None \<Rightarrow> Inl KVUnmarshal | Some v \<Rightarrow> Inr v))
      else kv_Get dec True now' b' k' kv)"
  by (auto simp: kv_Get_def kv_put_def sql_select_upsert expiry_def)

lemma kv_storer_codec:
  assumes "codec_ok enc dec"
  shows "kv_storer (kv_get_op dec) (kv_set_op enc)"
proof -
  have set_eq: "\<exists>j. dec j = Some v \<and> kv_set_op enc t b k v ttl s = kv_put b k j (expiry t ttl) s" for t b k v ttl s
  proof -
    obtain j where j: "enc v = Some j" "dec j = Some v" using assms unfolding codec_ok_def by blast
    then show ?thesis by (intro exI[of _ j]) (simp add: kv_set_op_def kv_Set_def)
  qed
  show ?thesis
  proof
    fix t ttl t' b k v s
    assume t: "0 \<le> (t :: time)" and ttl: "ttl \<le> 0 \<or> t' < t + ttl"
    obtain j where "dec j = Some v" "kv_set_op enc t b k v ttl s = kv_put b k j (expiry t ttl) s"
      using set_eq by blast
    then show "kv_get_op dec (kv_set_op enc t b k v ttl s) t' b k = Inr v"
      using ttl by (auto simp: kv_get_op_def kv_Get_put[OF t])
  next
    fix t ttl t' b k v s
    assume t: "0 \<le> (t :: time)" and ttl: "0 < ttl" "t + ttl \<le> t'"
    obtain j where "dec j = Some v" "kv_set_op enc t b k v ttl s = kv_put b k j (expiry t ttl) s"
      using set_eq by blast
    then show "kv_get_op dec (kv_set_op enc t b k v ttl s) t' b k = Inl KVNotFound"
      using ttl by (auto simp: kv_get_op_def kv_Get_put[OF t])
  next
    fix b' k' b k :: string and t v ttl s t'
    assume ne: "(b', k') \<noteq> (b, k)"
    obtain j where "kv_set_op enc t b k v ttl s = kv_put b k j (expiry t ttl) s"
      using set_eq by blast
    then show "kv_get_op dec (kv_set_op enc t b k v ttl s) t' b' k' = kv_get_op dec s t' b' k'"
      using ne by (auto simp: kv_get_op_def kv_Get_def kv_put_def sql_select_upsert)
  qed
qed

interpretation plain_kv: kv_storer "kv_get_op Some" "kv_set_op Some"
  by (rule kv_storer_codec) (simp add: codec_ok_def)

subsection \<open>Properties of the store\<close>

text \<open>
  C23. Set then Get: when the database answers, a Set stores the value, which every Get of that bucket
  and key then returns until its time to live has passed, and not-found from then on; a Get of any
  other bucket or key returns what it returned before.
\<close>

theorem kv_set_get:
  assumes "enc v = Some j" "dec j = Some v" "0 \<le> now"
  shows "\<exists>kv'. kv_Set enc True now b k v ttl kv = (kv', None)
    \<and> (\<forall>now' b' k'. kv_Get dec True now' b' k' kv' =
         (if (b', k') = (b, k) then (if ttl > 0 \<and> now' \<ge> now + ttl then Inl KVNotFound else Inr v)
          else kv_Get dec True now' b' k' kv))"
  using assms by (simp add: kv_Set_def kv_Get_put)

theorem kv_set_get_witness:
  "kv_Get Some True 109 ''sessions'' ''u1''
      (fst (kv_Set Some True 100 ''sessions'' ''u1'' (7 :: nat) 10 NewKVStore)) = Inr 7"
  using kv_set_get[of Some "7 :: nat" 7 Some 100 "''sessions''" "''u1''" 10 NewKVStore]
  by auto

fun set_all :: "('a \<Rightarrow> 'j option) \<Rightarrow> time \<Rightarrow> 'a KVBatchItem list \<Rightarrow> 'j KVStore \<Rightarrow> 'j KVStore" where
  "set_all enc now [] kv = kv"
| "set_all enc now (i # is) kv =
     set_all enc now is (fst (kv_Set enc True now (bi_Bucket i) (bi_Key i) (bi_Value i) (bi_TTL i) kv))"

lemma batch_loop_result:
  "batch_loop enc now items kv =
     (if (\<forall>i\<in>set items. enc (bi_Value i) \<noteq> None) then Inr (set_all enc now items kv) else Inl KVMarshal)"
  by (induction items arbitrary: kv) (auto simp: kv_Set_def split: option.splits)

text \<open>
  BatchSet is atomic: it has the effect of setting all its items one after the other, and does so
  exactly when the database answers and every value can be marshalled; in every other case it returns
  an error and the store is as it was.
\<close>

theorem kv_batch_atomic:
  "kv_BatchSet enc io now items kv =
     (if items = [] then (kv, None)
      else if io \<and> (\<forall>i\<in>set items. enc (bi_Value i) \<noteq> None) then (set_all enc now items kv, None)
      else (kv, Some (if io then KVMarshal else KVDatabase)))"
  by (auto simp: kv_BatchSet_def batch_loop_result)

theorem kv_batch_atomic_witness:
  "kv_BatchSet (\<lambda>v. if v = 0 then None else Some v) True 5
      [\<lparr>bi_Bucket = ''b'', bi_Key = ''x'', bi_Value = 1, bi_TTL = 0\<rparr>,
       \<lparr>bi_Bucket = ''b'', bi_Key = ''y'', bi_Value = 0 :: nat, bi_TTL = 0\<rparr>] NewKVStore = (NewKVStore, Some KVMarshal)"
  by (simp add: kv_batch_atomic)

definition expiries_ok :: "'j KVStore \<Rightarrow> bool" where
  "expiries_ok kv \<longleftrightarrow> (\<forall>r\<in>set (kv_rows kv). row_expires_at r \<ge> 0)"

lemma sql_select_Some:
  assumes "kv_inv kv"
  shows "sql_select b k (kv_rows kv) = Some r \<longleftrightarrow> r \<in> set (kv_rows kv) \<and> kv_key r = (b, k)"
proof -
  have "find (\<lambda>x. kv_key x = p) xs = Some r \<longleftrightarrow> r \<in> set xs \<and> kv_key r = p"
    if "distinct (map kv_key xs)" for p xs
    using that by (induction xs) (auto simp: image_iff)
  then show ?thesis
    using assms unfolding sql_select_key kv_inv_def by blast
qed

lemma kv_Get_Inr_iff:
  assumes "kv_inv kv" "expiries_ok kv"
  shows "(\<exists>v. kv_Get dec True now b k kv = Inr v) \<longleftrightarrow>
    (\<exists>r\<in>set (kv_rows kv). kv_key r = (b, k) \<and> row_live now r \<and> dec (row_data r) \<noteq> None)"
proof (cases "sql_select b k (kv_rows kv)")
  case None
  then show ?thesis
    using sql_select_Some[OF assms(1), of b k] by (auto simp: kv_Get_def)
next
  case (Some r)
  have unique: "x \<in> set (kv_rows kv) \<and> kv_key x = (b, k) \<longleftrightarrow> x = r" for x
    using sql_select_Some[OF assms(1), of b k x] Some by auto
  then have "row_expires_at r \<ge> 0"
    using assms(2) by (auto simp: expiries_ok_def)
  moreover have "(\<exists>x\<in>set (kv_rows kv). kv_key x = (b, k) \<and> P x) \<longleftrightarrow> P r" for P
    using unique by metis
  ultimately show ?thesis
    using Some by (auto simp: kv_Get_def row_live_def split: option.splits)
qed

text \<open>
  List and Get agree: for a store whose rows have unique keys and non-negative expiries, List of a
  bucket returns each key once, and returns exactly the keys for which a Get at that time succeeds,
  provided a document is valid JSON exactly when it can be decoded.
\<close>

theorem kv_list_agrees_get:
  assumes "kv_inv kv" "expiries_ok kv" "\<forall>j. valid j \<longleftrightarrow> dec j \<noteq> None" "b \<in> kv_buckets kv"
  shows "\<exists>keys. kv_List valid True now b kv = Inr keys \<and> distinct keys
    \<and> (\<forall>k. k \<in> set keys \<longleftrightarrow> (\<exists>v. kv_Get dec True now b k kv = Inr v))"
proof -
  let ?rows = "filter (\<lambda>r. valid (row_data r))
     (filter (\<lambda>r. row_bucket r = b \<and> (row_expires_at r = 0 \<or> row_expires_at r > now)) (kv_rows kv))"
  have "kv_List valid True now b kv = Inr (map row_key ?rows)"
    using assms(4) by (simp add: kv_List_def bucketExists_def Let_def)
  moreover have "distinct (map row_key ?rows)"
    using assms(1) by (auto simp: kv_inv_def distinct_map inj_on_def kv_key_def)
  moreover have "k \<in> set (map row_key ?rows) \<longleftrightarrow> (\<exists>v. kv_Get dec True now b k kv = Inr v)" for k
    unfolding kv_Get_Inr_iff[OF assms(1,2)] using assms(3) by (auto simp: kv_key_def row_live_def)
  ultimately show ?thesis
    by blast
qed

definition ex_kv :: "nat KVStore" where
  "ex_kv = fst (kv_Set Some True 100 ''sessions'' ''u1'' (7 :: nat) 10 NewKVStore)"

theorem kv_list_agrees_get_witness:
  "\<exists>keys. kv_List (\<lambda>_. True) True 105 ''sessions'' ex_kv = Inr keys \<and> distinct keys"
  using kv_list_agrees_get[of ex_kv "\<lambda>_. True" Some "''sessions''" 105]
  by (auto simp: ex_kv_def kv_Set_def kv_put_def NewKVStore_def initSchema_def kv_inv_def expiries_ok_def
      sql_upsert_def expiry_def)

end
