(* ===== verification/Http.thy ===== *)
theory Http
  imports Prelude
begin

text \<open>
  The parts of \<open>net/http\<close> and of the request context that the middleware components read, and the
  client address logic of \<open>internal/api/middleware/ratelimit.go\<close>.

  A header is a function from its canonical name to its first value, empty if it is absent, as
  \<open>Header.Get\<close> reports it. \<open>net.ParseIP\<close> is the argument \<open>parseIP\<close>: it maps a textual address
  to its canonical form and the three classes the code asks about.
\<close>

record Claims =
  cl_ID :: string
  cl_UserID :: string
  cl_TenantID :: string
  cl_RoleID :: string
  cl_Email :: string
  cl_ExpiresAt :: int

record Request =
  rq_Method :: string
  rq_Path :: string
  rq_Header :: "string \<Rightarrow> string"
  rq_Cookie :: "string \<rightharpoonup> string"
  rq_RemoteAddr :: string
  rq_Body :: bytes
  rq_Claims :: "Claims option"

text \<open>A middleware serves the request with the next handler, possibly after changing it, or writes
  an error response with a status and a message.\<close>

datatype 'r verdict = Serve 'r | Refuse int string

record ip_addr =
  ip_string :: string
  ip_private :: bool
  ip_loopback :: bool
  ip_linklocal :: bool

type_synonym ip_parser = "string \<Rightarrow> ip_addr option"

definition validateIP :: "ip_parser \<Rightarrow> string \<Rightarrow> string" where
  "validateIP parseIP raw =
     (if raw = [] then []
      else case parseIP (trimSpace raw) of
             None \<Rightarrow> []
           | Some ip \<Rightarrow> if ip_private ip \<or> ip_loopback ip \<or> ip_linklocal ip then [] else ip_string ip)"

definition validateIPPermissive :: "ip_parser \<Rightarrow> string \<Rightarrow> string" where
  "validateIPPermissive parseIP raw =
     (if raw = [] then []
      else case parseIP (trimSpace raw) of None \<Rightarrow> [] | Some ip \<Rightarrow> ip_string ip)"

definition lastIndexChar :: "string \<Rightarrow> char \<Rightarrow> nat option" where
  "lastIndexChar s c =
     (if c \<in> set s then Some (length s - 1 - length (takeWhile (\<lambda>x. x \<noteq> c) (rev s))) else None)"

definition stripPort :: "string \<Rightarrow> string" where
  "stripPort addr =
     (case lastIndexChar addr (CHR '':'') of
        None \<Rightarrow> addr
      | Some i \<Rightarrow>
          if \<not> contains addr '']'' \<and> countChar addr (CHR '':'') = 1 then take i addr else addr)"

definition safeClientIP :: "ip_parser \<Rightarrow> Request \<Rightarrow> bool \<Rightarrow> string" where
  "safeClientIP parseIP r trustXFF =
     (let real = validateIPPermissive parseIP (rq_Header r ''X-Real-Ip'');
          xff = rq_Header r ''X-Forwarded-For'';
          first = validateIP parseIP (trimSpace (hd (splitOn (CHR '','') xff)))
      in if rq_Header r ''X-Real-Ip'' \<noteq> [] \<and> real \<noteq> [] then real
         else if trustXFF \<and> xff \<noteq> [] \<and> first \<noteq> [] then first
         else stripPort (rq_RemoteAddr r))"

definition realIP :: "ip_parser \<Rightarrow> Request \<Rightarrow> string" where
  "realIP parseIP r = safeClientIP parseIP r False"

definition RealIPNoXFF :: "ip_parser \<Rightarrow> Request \<Rightarrow> string" where
  "RealIPNoXFF parseIP r = safeClientIP parseIP r False"

lemma lastIndexChar_host_port:
  assumes "CHR '':'' \<notin> set port"
  shows "lastIndexChar (host @ '':'' @ port) (CHR '':'') = Some (length host)"
proof -
  have "takeWhile (\<lambda>x. x \<noteq> CHR '':'') (rev port @ CHR '':'' # rev host) = rev port"
    using assms by (simp add: takeWhile_tail takeWhile_eq_all_conv) auto
  then show ?thesis
    by (simp add: lastIndexChar_def)
qed

text \<open>An IPv4 or host name remote address loses exactly its port.\<close>

lemma stripPort_host_port:
  assumes "CHR '':'' \<notin> set host" "CHR '':'' \<notin> set port" "CHR '']'' \<notin> set (host @ port)"
  shows "stripPort (host @ '':'' @ port) = host"
proof -
  have "\<not> contains (host @ '':'' @ port) '']''"
  proof
    assume "contains (host @ '':'' @ port) '']''"
    then obtain us vs where "host @ '':'' @ port = us @ '']'' @ vs"
      using contains_iff by blast
    then have "CHR '']'' \<in> set (host @ '':'' @ port)"
      by simp
    then show False
      using assms(3) by simp
  qed
  moreover have "countChar (host @ '':'' @ port) (CHR '':'') = 1"
    using assms(1,2) by (simp add: countChar_append countChar_Cons countChar_0_iff)
  ultimately show ?thesis
    using lastIndexChar_host_port[OF assms(2), of host] by (simp add: stripPort_def)
qed

text \<open>
  The client address is the client's choice. Even when forwarded headers are not to be trusted, a
  request whose X-Real-IP header parses as an address is identified by that header alone: the address
  of its connection and every other header have no influence, so a client can present itself to the
  audit log, the rate limiters and the allowlist as any address it likes.
\<close>

theorem client_ip_is_header:
  assumes "parseIP (trimSpace h) = Some ip" "h \<noteq> []" "ip_string ip \<noteq> []"
    and "rq_Header r ''X-Real-Ip'' = h"
  shows "realIP parseIP r = ip_string ip \<and> RealIPNoXFF parseIP r = ip_string ip"
  using assms by (simp add: realIP_def RealIPNoXFF_def safeClientIP_def validateIPPermissive_def Let_def)

definition ex_parseIP :: ip_parser where
  "ex_parseIP s =
     (if s = ''10.0.0.1'' then Some \<lparr>ip_string = s, ip_private = True, ip_loopback = False, ip_linklocal = False\<rparr>
      else None)"

definition ex_request :: "(string \<Rightarrow> string) \<Rightarrow> Request" where
  "ex_request hdr = \<lparr>rq_Method = ''POST'', rq_Path = ''/api/v1/apps'', rq_Header = hdr, rq_Cookie = Map.empty,
     rq_RemoteAddr = ''203.0.113.9:4711'', rq_Body = [], rq_Claims = None\<rparr>"

theorem client_ip_is_header_witness:
  "realIP ex_parseIP (ex_request ((\<lambda>_. [])(''X-Real-Ip'' := ''10.0.0.1''))) = ''10.0.0.1''
   \<and> realIP ex_parseIP (ex_request (\<lambda>_. [])) = ''203.0.113.9''"
proof
  have trim: "trimSpace ''10.0.0.1'' = ''10.0.0.1''"
    by code_simp
  show "realIP ex_parseIP (ex_request ((\<lambda>_. [])(''X-Real-Ip'' := ''10.0.0.1''))) = ''10.0.0.1''"
    using client_ip_is_header[of ex_parseIP "''10.0.0.1''" "the (ex_parseIP ''10.0.0.1'')"
        "ex_request ((\<lambda>_. [])(''X-Real-Ip'' := ''10.0.0.1''))"] trim
    by (simp add: ex_parseIP_def ex_request_def)
  show "realIP ex_parseIP (ex_request (\<lambda>_. [])) = ''203.0.113.9''"
    by (simp add: realIP_def safeClientIP_def ex_request_def Let_def) code_simp
qed

end
