(* ===== verification/Rate_Limit.thy ===== *)
theory Rate_Limit
  imports Http KV_Store
begin

text \<open>
  The request limiters: per address for the authentication endpoints (\<open>ratelimit.go\<close>), per tenant
  (\<open>tenant_ratelimit.go\<close>), per address for the whole API (\<open>global_ratelimit.go\<close>), all of
  \<open>internal/api/middleware\<close>.

  The first two keep their counters in the key-value store and are written over the \<open>Get\<close> and
  \<open>Set\<close> of \<open>core.KVStorer\<close>, with times in seconds. The third keeps them in a map, with times in
  nanoseconds. All of them decide under a mutex, so a request is one step. The locale
  \<open>window_store\<close> is what the counting argument needs of either storage.
\<close>

record rateLimitEntry =
  rl_Count :: int
  rl_ResetAt :: int

datatype rl_outcome = Pass "(string \<times> string) list" | Limited "(string \<times> string) list" string

fun passed :: "rl_outcome \<Rightarrow> bool" where
  "passed (Pass hs) = True"
| "passed (Limited hs m) = False"

subsection \<open>AuthRateLimiter\<close>

record AuthRateLimiter =
  al_rate :: int
  al_window :: int
  al_prefix :: string

definition auth_rl_key :: "AuthRateLimiter \<Rightarrow> string \<Rightarrow> string" where
  "auth_rl_key rl ip = ''auth_rl:'' @ al_prefix rl @ '':'' @ ip"

definition auth_limit ::
  "('s \<Rightarrow> time \<Rightarrow> string \<Rightarrow> string \<Rightarrow> kv_error + rateLimitEntry) \<Rightarrow>
   (time \<Rightarrow> string \<Rightarrow> string \<Rightarrow> rateLimitEntry \<Rightarrow> int \<Rightarrow> 's \<Rightarrow> 's) \<Rightarrow>
   AuthRateLimiter \<Rightarrow> string \<Rightarrow> time \<Rightarrow> 's \<Rightarrow> 's \<times> rl_outcome" where
  "auth_limit kget kset rl key now s =
     (let res = kget s now ''ratelimit'' key;
          fresh = (case res of Inl e \<Rightarrow> True | Inr entry \<Rightarrow> now \<ge> rl_ResetAt entry)
      in if fresh then
           (kset now ''ratelimit'' key \<lparr>rl_Count = 1, rl_ResetAt = now + al_window rl\<rparr> (al_window rl) s, Pass [])
         else case res of
           Inl e \<Rightarrow> (s, Pass [])
         | Inr entry \<Rightarrow>
             if rl_Count entry \<ge> al_rate rl then
               (s, Limited [(''Retry-After'', itoa (rl_ResetAt entry - now)),
                            (''X-RateLimit-Limit'', itoa (al_rate rl)),
                            (''X-RateLimit-Remaining'', ''0'')] ''rate limit exceeded'')
             else
               (kset now ''ratelimit'' key (entry\<lparr>rl_Count := rl_Count entry + 1\<rparr>) (al_window rl) s, Pass []))"

definition auth_Wrap ::
  "('s \<Rightarrow> time \<Rightarrow> string \<Rightarrow> string \<Rightarrow> kv_error + rateLimitEntry) \<Rightarrow>
   (time \<Rightarrow> string \<Rightarrow> string \<Rightarrow> rateLimitEntry \<Rightarrow> int \<Rightarrow> 's \<Rightarrow> 's) \<Rightarrow>
   AuthRateLimiter \<Rightarrow> ip_parser \<Rightarrow> Request \<Rightarrow> time \<Rightarrow> 's option \<Rightarrow> 's option \<times> rl_outcome" where
  "auth_Wrap kget kset rl parseIP r now kv =
     (case kv of
        None \<Rightarrow> (None, Pass [])
      | Some s \<Rightarrow>
          (case auth_limit kget kset rl (auth_rl_key rl (safeClientIP parseIP r False)) now s of
             (s', out) \<Rightarrow> (Some s', out)))"

subsection \<open>TenantRateLimiter\<close>

record tenantRateLimitConfig =
  tc_RequestsPerMinute :: int
  tc_BurstSize :: int

record TenantRateLimiter =
  tl_defaultRate :: int
  tl_defaultWindow :: int

definition rate_headers :: "int \<Rightarrow> int \<Rightarrow> int \<Rightarrow> (string \<times> string) list" where
  "rate_headers limit remaining resetAt =
     [(''X-RateLimit-Limit'', itoa limit), (''X-RateLimit-Remaining'', itoa remaining),
      (''X-RateLimit-Reset'', itoa resetAt)]"

definition tenant_rate ::
  "('s \<Rightarrow> time \<Rightarrow> string \<Rightarrow> string \<Rightarrow> kv_error + tenantRateLimitConfig) \<Rightarrow>
   TenantRateLimiter \<Rightarrow> string \<Rightarrow> time \<Rightarrow> 's \<Rightarrow> int" where
  "tenant_rate cget trl tenantID now s =
     (case cget s now ''tenant_ratelimit'' tenantID of
        Inr cfg \<Rightarrow> if tc_RequestsPerMinute cfg > 0 then tc_RequestsPerMinute cfg else tl_defaultRate trl
      | Inl e \<Rightarrow> tl_defaultRate trl)"

definition tenant_limit ::
  "('s \<Rightarrow> time \<Rightarrow> string \<Rightarrow> string \<Rightarrow> kv_error + rateLimitEntry) \<Rightarrow>
   (time \<Rightarrow> string \<Rightarrow> string \<Rightarrow> rateLimitEntry \<Rightarrow> int \<Rightarrow> 's \<Rightarrow> 's) \<Rightarrow>
   int \<Rightarrow> int \<Rightarrow> string \<Rightarrow> time \<Rightarrow> 's \<Rightarrow> 's \<times> rl_outcome" where
  "tenant_limit kget kset rate windowSec tenantID now s =
     (let key = ''trl:'' @ tenantID;
          res = kget s now ''ratelimit'' key;
          fresh = (case res of Inl e \<Rightarrow> True | Inr entry \<Rightarrow> now \<ge> rl_ResetAt entry)
      in if fresh then
           (kset now ''ratelimit'' key \<lparr>rl_Count = 1, rl_ResetAt = now + windowSec\<rparr> windowSec s,
            Pass (rate_headers rate (rate - 1) (now + windowSec)))
         else case res of
           Inl e \<Rightarrow> (s, Pass [])
         | Inr entry \<Rightarrow>
             if rl_Count entry \<ge> rate then
               (s, Limited ((''Retry-After'', itoa (rl_ResetAt entry - now)) # rate_headers rate 0 (rl_ResetAt entry))
                     ''tenant rate limit exceeded'')
             else
               (kset now ''ratelimit'' key (entry\<lparr>rl_Count := rl_Count entry + 1\<rparr>) windowSec s,
                Pass (rate_headers rate (rate - (rl_Count entry + 1)) (rl_ResetAt entry))))"

definition tenant_Middleware ::
  "('s \<Rightarrow> time \<Rightarrow> string \<Rightarrow> string \<Rightarrow> kv_error + tenantRateLimitConfig) \<Rightarrow>
   ('s \<Rightarrow> time \<Rightarrow> string \<Rightarrow> string \<Rightarrow> kv_error + rateLimitEntry) \<Rightarrow>
   (time \<Rightarrow> string \<Rightarrow> string \<Rightarrow> rateLimitEntry \<Rightarrow> int \<Rightarrow> 's \<Rightarrow> 's) \<Rightarrow>
   TenantRateLimiter \<Rightarrow> Request \<Rightarrow> time \<Rightarrow> 's option \<Rightarrow> 's option \<times> rl_outcome" where
  "tenant_Middleware cget kget kset trl r now kv =
     (case kv of
        None \<Rightarrow> (None, Pass [])
      | Some s \<Rightarrow>
          (case rq_Claims r of
             None \<Rightarrow> (Some s, Pass [])
           | Some claims \<Rightarrow>
               if cl_TenantID claims = [] then (Some s, Pass [])
               else
                 let rate = tenant_rate cget trl (cl_TenantID claims) now s
                 in if rate \<le> 0 then (Some s, Pass [])
                    else (case tenant_limit kget kset rate (tl_defaultWindow trl) (cl_TenantID claims) now s of
                            (s', out) \<Rightarrow> (Some s', out))))"

subsection \<open>GlobalRateLimiter\<close>

record rateLimitWindow =
  w_count :: int
  w_resetAt :: time

record GlobalRateLimiter =
  gl_rate :: int
  gl_window :: duration
  gl_clients :: "string \<rightharpoonup> rateLimitWindow"
  gl_allowlist :: "string list"
  gl_stopped :: bool

definition NewGlobalRateLimiter :: "int \<Rightarrow> duration \<Rightarrow> GlobalRateLimiter" where
  "NewGlobalRateLimiter rate window =
     \<lparr>gl_rate = rate, gl_window = window, gl_clients = Map.empty, gl_allowlist = [], gl_stopped = False\<rparr>"

definition SetRateLimitedPrefixes :: "string list \<Rightarrow> GlobalRateLimiter \<Rightarrow> GlobalRateLimiter" where
  "SetRateLimitedPrefixes prefixes rl = rl\<lparr>gl_allowlist := prefixes\<rparr>"

definition shouldRateLimit :: "GlobalRateLimiter \<Rightarrow> string \<Rightarrow> bool" where
  "shouldRateLimit rl path \<longleftrightarrow>
     gl_allowlist rl = [] \<or> (\<exists>prefix\<in>set (gl_allowlist rl). hasPrefix path prefix)"

definition unix :: "time \<Rightarrow> int" where
  "unix t = t div 1000000000"

definition gl_headers :: "GlobalRateLimiter \<Rightarrow> int \<Rightarrow> time \<Rightarrow> (string \<times> string) list" where
  "gl_headers rl remaining resetAt = rate_headers (gl_rate rl) remaining (unix resetAt)"

definition global_limit :: "string \<Rightarrow> time \<Rightarrow> GlobalRateLimiter \<Rightarrow> GlobalRateLimiter \<times> rl_outcome" where
  "global_limit ip now rl =
     (let new = \<lparr>w_count = 1, w_resetAt = now + gl_window rl\<rparr>;
          open_new = (rl\<lparr>gl_clients := (gl_clients rl)(ip \<mapsto> new)\<rparr>,
                      Pass (gl_headers rl (gl_rate rl - 1) (now + gl_window rl)))
      in case gl_clients rl ip of
           None \<Rightarrow> open_new
         | Some entry \<Rightarrow>
             if now > w_resetAt entry then open_new
             else if w_count entry \<ge> gl_rate rl then
               (rl, Limited ((''Retry-After'', itoa (unix (w_resetAt entry - now) + 1))
                       # gl_headers rl 0 (w_resetAt entry)) ''rate limit exceeded'')
             else
               (rl\<lparr>gl_clients := (gl_clients rl)(ip \<mapsto> entry\<lparr>w_count := w_count entry + 1\<rparr>)\<rparr>,
                Pass (gl_headers rl (gl_rate rl - (w_count entry + 1)) (w_resetAt entry))))"

definition global_Middleware :: "ip_parser \<Rightarrow> Request \<Rightarrow> time \<Rightarrow> GlobalRateLimiter \<Rightarrow> GlobalRateLimiter \<times> rl_outcome" where
  "global_Middleware parseIP r now rl =
     (if gl_rate rl \<le> 0 then (rl, Pass [])
      else if \<not> shouldRateLimit rl (rq_Path r) then (rl, Pass [])
      else global_limit (safeClientIP parseIP r False) now rl)"

text \<open>One tick of the cleanup goroutine, and \<open>Stop\<close>.\<close>

definition gl_cleanup :: "time \<Rightarrow> GlobalRateLimiter \<Rightarrow> GlobalRateLimiter" where
  "gl_cleanup now rl =
     (if gl_stopped rl then rl
      else rl\<lparr>gl_clients := (\<lambda>ip. case gl_clients rl ip of
                None \<Rightarrow> None | Some e \<Rightarrow> if now > w_resetAt e then None else Some e)\<rparr>)"

definition gl_Stop :: "GlobalRateLimiter \<Rightarrow> GlobalRateLimiter" where
  "gl_Stop rl = rl\<lparr>gl_stopped := True\<rparr>"

subsection \<open>Counting in a fixed window\<close>

definition window_step ::
  "('s \<Rightarrow> time \<Rightarrow> string \<Rightarrow> (int \<times> int) option) \<Rightarrow> (time \<Rightarrow> string \<Rightarrow> int \<Rightarrow> int \<Rightarrow> 's \<Rightarrow> 's) \<Rightarrow>
   int \<Rightarrow> int \<Rightarrow> string \<Rightarrow> time \<Rightarrow> 's \<Rightarrow> 's \<times> bool" where
  "window_step look put W rate k t s =
     (case look s t k of
        None \<Rightarrow> (put t k 1 (t + W) s, True)
      | Some (c, r) \<Rightarrow> if c \<ge> rate then (s, False) else (put t k (c + 1) r s, True))"

fun limiter_run :: "(string \<Rightarrow> time \<Rightarrow> 's \<Rightarrow> 's \<times> bool) \<Rightarrow> (string \<times> time) list \<Rightarrow> 's \<Rightarrow> 's \<times> bool list" where
  "limiter_run step [] s = (s, [])"
| "limiter_run step ((k, t) # rs) s =
     (case step k t s of (s1, ok) \<Rightarrow> (case limiter_run step rs s1 of (s2, oks) \<Rightarrow> (s2, ok # oks)))"

definition admitted :: "string \<Rightarrow> (string \<times> time) list \<Rightarrow> bool list \<Rightarrow> nat" where
  "admitted k rs oks = length (filter (\<lambda>((k', t), ok). k' = k \<and> ok) (zip rs oks))"

definition requests_of :: "string \<Rightarrow> (string \<times> time) list \<Rightarrow> nat" where
  "requests_of k rs = length (filter (\<lambda>(k', t). k' = k) rs)"

lemma admitted_Cons [simp]:
  "admitted k ((k', t) # rs) (ok # oks) = (if k' = k \<and> ok then 1 else 0) + admitted k rs oks"
  by (simp add: admitted_def)

lemma requests_of_Cons [simp]:
  "requests_of k ((k', t) # rs) = (if k' = k then 1 else 0) + requests_of k rs"
  by (simp add: requests_of_def)

lemma admitted_Nil [simp]: "admitted k [] oks = 0" "requests_of k [] = 0"
  by (simp_all add: admitted_def requests_of_def)

locale window_store =
  fixes look :: "'s \<Rightarrow> time \<Rightarrow> string \<Rightarrow> (int \<times> int) option"
    and put :: "time \<Rightarrow> string \<Rightarrow> int \<Rightarrow> int \<Rightarrow> 's \<Rightarrow> 's"
    and W :: int
    and within :: "time \<Rightarrow> time \<Rightarrow> bool"
  assumes look_put: "0 \<le> t \<Longrightarrow> r \<le> t + W \<Longrightarrow> within t' r \<Longrightarrow> look (put t k c r s) t' k = Some (c, r)"
    and look_put_other: "k' \<noteq> k \<Longrightarrow> look (put t k c r s) t' k' = look s t' k'"
begin

lemma step_other_key:
  assumes "\<forall>t. within t r \<longrightarrow> look s t k = Some (c, r)" "k' \<noteq> k" "window_step look put W rate k' t s = (s1, ok)"
  shows "\<forall>t. within t r \<longrightarrow> look s1 t k = Some (c, r)"
  using assms by (auto simp: window_step_def look_put_other split: option.splits if_splits)

lemma window_count:
  assumes "\<forall>t. within t r \<longrightarrow> look s t k = Some (c, r)"
    and "\<forall>(k', t)\<in>set rs. k' = k \<longrightarrow> 0 \<le> t \<and> within t r \<and> r \<le> t + W"
  shows "admitted k rs (snd (limiter_run (window_step look put W rate) rs s)) =
    min (requests_of k rs) (nat (rate - c))"
  using assms
proof (induction rs arbitrary: s c)
  case (Cons q rs)
  obtain k' t where q: "q = (k', t)"
    by (cases q) auto
  obtain s1 ok where step: "window_step look put W rate k' t s = (s1, ok)"
    by (cases "window_step look put W rate k' t s") auto
  have rest: "\<forall>(k', t)\<in>set rs. k' = k \<longrightarrow> 0 \<le> t \<and> within t r \<and> r \<le> t + W"
    using Cons(3) by auto
  show ?case
  proof (cases "k' = k")
    case False
    then show ?thesis
      using Cons(1)[OF step_other_key[OF Cons(2) False step] rest] step q by (simp add: split_beta)
  next
    case True
    then have t: "0 \<le> t" "within t r" "r \<le> t + W"
      using Cons(3) q by auto
    then have look: "look s t k = Some (c, r)"
      using Cons(2) by blast
    show ?thesis
    proof (cases "c \<ge> rate")
      case full: True
      then have "s1 = s \<and> \<not> ok"
        using step True look by (simp add: window_step_def)
      then show ?thesis
        using Cons(1)[OF Cons(2) rest] step q True full by (simp add: split_beta)
    next
      case room: False
      then have s1: "s1 = put t k (c + 1) r s" and ok: ok
        using step True look by (auto simp: window_step_def)
      have "\<forall>t'. within t' r \<longrightarrow> look s1 t' k = Some (c + 1, r)"
        using t by (simp add: s1 look_put)
      then have "admitted k rs (snd (limiter_run (window_step look put W rate) rs s1)) =
          min (requests_of k rs) (nat (rate - (c + 1)))"
        using Cons(1) rest by blast
      then show ?thesis
        using step q True ok room by (simp add: split_beta)
    qed
  qed
qed simp

lemma window_total:
  assumes "look s t0 k = None" "0 \<le> t0"
    and "\<forall>(k', t)\<in>set rs. k' = k \<longrightarrow> t0 \<le> t \<and> within t (t0 + W)"
  shows "admitted k ((k, t0) # rs) (snd (limiter_run (window_step look put W rate) ((k, t0) # rs) s)) =
    min (1 + requests_of k rs) (nat (max 1 rate))"
proof -
  let ?s1 = "put t0 k 1 (t0 + W) s"
  have "window_step look put W rate k t0 s = (?s1, True)"
    using assms(1) by (simp add: window_step_def)
  moreover have "\<forall>t. within t (t0 + W) \<longrightarrow> look ?s1 t k = Some (1, t0 + W)"
    using assms(2) by (simp add: look_put)
  then have "admitted k rs (snd (limiter_run (window_step look put W rate) rs ?s1)) =
      min (requests_of k rs) (nat (rate - 1))"
    using assms(2,3) by (intro window_count) auto
  ultimately show ?thesis
    by (simp add: split_beta)
qed

end

subsection \<open>The limiters over the key-value store\<close>

definition kv_look ::
  "('s \<Rightarrow> time \<Rightarrow> string \<Rightarrow> string \<Rightarrow> kv_error + rateLimitEntry) \<Rightarrow> 's \<Rightarrow> time \<Rightarrow> string \<Rightarrow> (int \<times> int) option" where
  "kv_look kget s t k =
     (case kget s t ''ratelimit'' k of
        Inl e \<Rightarrow> None
      | Inr e \<Rightarrow> if t \<ge> rl_ResetAt e then None else Some (rl_Count e, rl_ResetAt e))"

definition kv_count ::
  "(time \<Rightarrow> string \<Rightarrow> string \<Rightarrow> rateLimitEntry \<Rightarrow> int \<Rightarrow> 's \<Rightarrow> 's) \<Rightarrow> int \<Rightarrow>
   time \<Rightarrow> string \<Rightarrow> int \<Rightarrow> int \<Rightarrow> 's \<Rightarrow> 's" where
  "kv_count kset W t k c r s = kset t ''ratelimit'' k \<lparr>rl_Count = c, rl_ResetAt = r\<rparr> W s"

locale kv_window = kv_storer kget kset
  for kget :: "'s \<Rightarrow> time \<Rightarrow> string \<Rightarrow> string \<Rightarrow> kv_error + rateLimitEntry"
    and kset :: "time \<Rightarrow> string \<Rightarrow> string \<Rightarrow> rateLimitEntry \<Rightarrow> int \<Rightarrow> 's \<Rightarrow> 's" +
  fixes W :: int
  assumes W_pos: "0 < W"

sublocale kv_window \<subseteq> counter: window_store "kv_look kget" "kv_count kset W" W "\<lambda>t r. t < r"
  by unfold_locales (auto simp: kv_look_def kv_count_def get_after_set get_other)

context kv_window
begin

lemma window_exact:
  assumes "kv_look kget s t0 k = None" "0 \<le> t0"
    and "\<forall>(k', t)\<in>set rs. k' = k \<longrightarrow> t0 \<le> t \<and> t < t0 + W"
  shows "admitted k ((k, t0) # rs)
      (snd (limiter_run (window_step (kv_look kget) (kv_count kset W) W rate) ((k, t0) # rs) s)) =
    min (1 + requests_of k rs) (nat (max 1 rate))"
  using assms by (rule counter.window_total)

end

definition auth_step ::
  "('s \<Rightarrow> time \<Rightarrow> string \<Rightarrow> string \<Rightarrow> kv_error + rateLimitEntry) \<Rightarrow>
   (time \<Rightarrow> string \<Rightarrow> string \<Rightarrow> rateLimitEntry \<Rightarrow> int \<Rightarrow> 's \<Rightarrow> 's) \<Rightarrow>
   AuthRateLimiter \<Rightarrow> string \<Rightarrow> time \<Rightarrow> 's \<Rightarrow> 's \<times> bool" where
  "auth_step kget kset rl k t s = (case auth_limit kget kset rl k t s of (s', out) \<Rightarrow> (s', passed out))"

lemma auth_step_window:
  "auth_step kget kset rl = window_step (kv_look kget) (kv_count kset (al_window rl)) (al_window rl) (al_rate rl)"
proof (intro ext)
  fix k t s
  have upd: "e\<lparr>rl_Count := c\<rparr> = \<lparr>rl_Count = c, rl_ResetAt = rl_ResetAt e\<rparr>" for e :: rateLimitEntry and c
    by simp
  show "auth_step kget kset rl k t s =
      window_step (kv_look kget) (kv_count kset (al_window rl)) (al_window rl) (al_rate rl) k t s"
    by (cases "kget s t ''ratelimit'' k")
       (auto simp: auth_step_def auth_limit_def window_step_def kv_look_def kv_count_def Let_def upd)
qed

interpretation plain_window: kv_window "kv_get_op Some" "kv_set_op Some" 60
  by unfold_locales simp

lemma kv_window_codec:
  assumes "codec_ok enc dec" "0 < W"
  shows "kv_window (kv_get_op dec) (kv_set_op enc) W"
  using kv_storer_codec[OF assms(1)] assms(2) by (simp add: kv_window_def kv_window_axioms_def)


definition ex_limiter :: AuthRateLimiter where
  "ex_limiter = \<lparr>al_rate = 2, al_window = 60, al_prefix = ''login''\<rparr>"


definition tenant_step ::
  "('s \<Rightarrow> time \<Rightarrow> string \<Rightarrow> string \<Rightarrow> kv_error + rateLimitEntry) \<Rightarrow>
   (time \<Rightarrow> string \<Rightarrow> string \<Rightarrow> rateLimitEntry \<Rightarrow> int \<Rightarrow> 's \<Rightarrow> 's) \<Rightarrow>
   int \<Rightarrow> int \<Rightarrow> string \<Rightarrow> time \<Rightarrow> 's \<Rightarrow> 's \<times> bool" where
  "tenant_step kget kset rate W tenantID t s =
     (case tenant_limit kget kset rate W tenantID t s of (s', out) \<Rightarrow> (s', passed out))"

text \<open>The tenant limiter takes the same decisions on its own keys.\<close>

lemma tenant_step_window:
  "tenant_step kget kset rate W tenantID t s =
     window_step (kv_look kget) (kv_count kset W) W rate (''trl:'' @ tenantID) t s"
proof -
  have upd: "e\<lparr>rl_Count := c\<rparr> = \<lparr>rl_Count = c, rl_ResetAt = rl_ResetAt e\<rparr>" for e :: rateLimitEntry and c
    by simp
  show ?thesis
    by (cases "kget s t ''ratelimit'' (''trl:'' @ tenantID)")
       (auto simp: tenant_step_def tenant_limit_def window_step_def kv_look_def kv_count_def Let_def upd)
qed

subsection \<open>The global limiter\<close>

definition gl_look :: "(string \<rightharpoonup> rateLimitWindow) \<Rightarrow> time \<Rightarrow> string \<Rightarrow> (int \<times> int) option" where
  "gl_look m t ip =
     (case m ip of None \<Rightarrow> None | Some e \<Rightarrow> if t > w_resetAt e then None else Some (w_count e, w_resetAt e))"

definition gl_put :: "time \<Rightarrow> string \<Rightarrow> int \<Rightarrow> int \<Rightarrow> (string \<rightharpoonup> rateLimitWindow) \<Rightarrow> (string \<rightharpoonup> rateLimitWindow)" where
  "gl_put t ip c r m = m(ip \<mapsto> \<lparr>w_count = c, w_resetAt = r\<rparr>)"

interpretation glob: window_store gl_look gl_put W "\<lambda>t r. t \<le> r" for W
  by unfold_locales (auto simp: gl_look_def gl_put_def)

definition global_step :: "string \<Rightarrow> time \<Rightarrow> GlobalRateLimiter \<Rightarrow> GlobalRateLimiter \<times> bool" where
  "global_step ip now rl = (case global_limit ip now rl of (rl', out) \<Rightarrow> (rl', passed out))"

lemma global_step_window:
  "global_step ip now rl =
     (case window_step gl_look gl_put (gl_window rl) (gl_rate rl) ip now (gl_clients rl) of
        (m, ok) \<Rightarrow> (rl\<lparr>gl_clients := m\<rparr>, ok))"
proof -
  have upd: "e\<lparr>w_count := c\<rparr> = \<lparr>w_count = c, w_resetAt = w_resetAt e\<rparr>" for e :: rateLimitWindow and c
    by simp
  show ?thesis
    by (auto simp: global_step_def global_limit_def window_step_def gl_look_def gl_put_def Let_def upd
        split: option.splits)
qed

lemma global_run_window:
  "limiter_run global_step rs rl =
     (case limiter_run (window_step gl_look gl_put (gl_window rl) (gl_rate rl)) rs (gl_clients rl) of
        (m, oks) \<Rightarrow> (rl\<lparr>gl_clients := m\<rparr>, oks))"
  by (induction rs arbitrary: rl) (auto simp: global_step_window split_beta)

text \<open>
  The global limiter counts exactly as well: from the request that opens the window of an address
  to the end of that window, including its last nanosecond, it admits as many requests of the address
  as its rate allows, whatever other addresses do.
\<close>

theorem global_limiter_exact:
  assumes "case gl_clients rl ip of None \<Rightarrow> True | Some e \<Rightarrow> start > w_resetAt e" "0 \<le> start" "0 < gl_rate rl"
    and "\<forall>(ip', t)\<in>set rs. ip' = ip \<longrightarrow> start \<le> t \<and> t \<le> start + gl_window rl"
  shows "admitted ip ((ip, start) # rs) (snd (limiter_run global_step ((ip, start) # rs) rl)) =
    min (1 + requests_of ip rs) (nat (gl_rate rl))"
proof -
  have "gl_look (gl_clients rl) start ip = None"
    using assms(1) by (auto simp: gl_look_def split: option.splits)
  then show ?thesis
    unfolding global_run_window
    using glob.window_total[of "gl_clients rl" start ip rs "gl_window rl" "gl_rate rl"] assms(2-)
    by (simp add: split_beta)
qed

theorem global_limiter_exact_witness:
  "admitted ''a'' [(''a'', 5), (''a'', 5), (''a'', 65)]
     (snd (limiter_run global_step [(''a'', 5), (''a'', 5), (''a'', 65)] (NewGlobalRateLimiter 2 60))) = 2"
  using global_limiter_exact[where rl = "NewGlobalRateLimiter 2 60" and ip = "''a''" and start = 5
      and rs = "[(''a'', 5), (''a'', 65)]"]
  by (simp add: NewGlobalRateLimiter_def)

lemma gl_put_put: "gl_put t ip c r (gl_put t' ip c' r' m) = gl_put t ip c r m"
  by (simp add: gl_put_def)

lemma window_run_replicate:
  assumes "gl_look m t ip = Some (c, r)" "c + int n \<le> rate" "t \<le> r"
  shows "limiter_run (window_step gl_look gl_put W rate) (replicate n (ip, t)) m =
    (if n = 0 then m else gl_put t ip (c + int n) r m, replicate n True)"
  using assms
proof (induction n arbitrary: m c)
  case (Suc n)
  have "window_step gl_look gl_put W rate ip t m = (gl_put t ip (c + 1) r m, True)"
    using Suc(2,3) by (simp add: window_step_def)
  moreover have "gl_look (gl_put t ip (c + 1) r m) t ip = Some (c + 1, r)"
    using Suc(4) by (simp add: gl_look_def gl_put_def)
  ultimately show ?case
    using Suc(1)[of "gl_put t ip (c + 1) r m" "c + 1"] Suc(3,4)
    by (simp add: gl_put_put add.assoc)
qed simp

lemma limiter_run_append:
  "limiter_run step (xs @ ys) s =
     (case limiter_run step xs s of (s1, o1) \<Rightarrow> (case limiter_run step ys s1 of (s2, o2) \<Rightarrow> (s2, o1 @ o2)))"
  by (induction xs arbitrary: s) (auto simp: split_beta)

lemma window_open_replicate:
  assumes "gl_look m t ip = None" "int (Suc n) \<le> rate" "0 \<le> W"
  shows "limiter_run (window_step gl_look gl_put W rate) (replicate (Suc n) (ip, t)) m =
    (gl_put t ip (1 + int n) (t + W) m, replicate (Suc n) True)"
proof -
  let ?m1 = "gl_put t ip 1 (t + W) m"
  have "window_step gl_look gl_put W rate ip t m = (?m1, True)"
    using assms(1) by (simp add: window_step_def)
  moreover have "gl_look ?m1 t ip = Some (1, t + W)"
    using assms(3) by (simp add: gl_look_def gl_put_def)
  ultimately show ?thesis
    using window_run_replicate[of ?m1 t ip 1 "t + W" n rate W] assms(2,3) by (simp add: gl_put_put)
qed

text \<open>
  The windows are fixed, they do not slide. An address that opens a window with one request, sends
  the rest of its budget in the last nanosecond of that window and a full budget in the next
  nanosecond has every one of these requests admitted: twice the rate, less one, within a nanosecond.
\<close>

theorem global_limiter_burst:
  assumes "0 < n" "0 \<le> W"
  shows "snd (limiter_run global_step
      ((ip, t) # replicate (n - 1) (ip, t + W) @ replicate n (ip, t + W + 1)) (NewGlobalRateLimiter (int n) W))
    = replicate (2 * n) True"
proof -
  obtain k where n: "n = Suc k"
    using assms(1) gr0_conv_Suc by blast
  let ?run = "limiter_run (window_step gl_look gl_put W (int n))"
  let ?m1 = "gl_put t ip 1 (t + W) Map.empty"
  have one: "?run [(ip, t)] Map.empty = (?m1, [True])"
    by (simp add: window_step_def gl_look_def)
  have two: "?run (replicate k (ip, t + W)) ?m1 =
      (if k = 0 then ?m1 else gl_put (t + W) ip (1 + int k) (t + W) ?m1, replicate k True)"
    by (rule window_run_replicate) (simp_all add: gl_look_def gl_put_def n)
  let ?m2 = "fst (?run (replicate k (ip, t + W)) ?m1)"
  have "gl_look ?m2 (t + W + 1) ip = None"
    unfolding two by (simp add: gl_look_def gl_put_def)
  then have three: "snd (?run (replicate n (ip, t + W + 1)) ?m2) = replicate n True"
    using window_open_replicate[of ?m2 "t + W + 1" ip k "int n" W] assms(2) by (simp add: n)
  have "snd (?run ([(ip, t)] @ replicate k (ip, t + W) @ replicate n (ip, t + W + 1)) Map.empty)
      = [True] @ replicate k True @ replicate n True"
    using one two three by (simp add: limiter_run_append split_beta del: append.simps limiter_run.simps)
  also have "\<dots> = replicate (2 * n) True"
    by (simp add: n mult_2 replicate_add replicate_app_Cons_same)
  finally show ?thesis
    unfolding global_run_window by (simp add: NewGlobalRateLimiter_def split_beta n del: limiter_run.simps)
qed

theorem global_limiter_burst_witness:
  "snd (limiter_run global_step
      [(''a'', 0), (''a'', 60), (''a'', 60), (''a'', 61), (''a'', 61), (''a'', 61)] (NewGlobalRateLimiter 3 60))
    = [True, True, True, True, True, True]"
  using global_limiter_burst[of 3 60 "''a''" 0] by (simp add: numeral_3_eq_3)

lemma gl_cleanup_look:
  "now \<le> t \<Longrightarrow> gl_look (gl_clients (gl_cleanup now rl)) t ip = gl_look (gl_clients rl) t ip"
  by (auto simp: gl_cleanup_def gl_look_def split: option.splits)

lemma window_step_same_look:
  assumes "\<forall>t\<ge>now. \<forall>ip. gl_look m t ip = gl_look m' t ip" "now \<le> t"
    and "window_step gl_look gl_put W rate ip t m = (m1, ok)"
  shows "\<exists>m1'. window_step gl_look gl_put W rate ip t m' = (m1', ok)
    \<and> (\<forall>t\<ge>now. \<forall>ip. gl_look m1 t ip = gl_look m1' t ip)"
proof -
  have put: "gl_look (gl_put u k c r m) t k' = (if k' = k then (if t > r then None else Some (c, r)) else gl_look m t k')"
    for u k c r m t k'
    by (simp add: gl_look_def gl_put_def)
  show ?thesis
    using assms by (auto simp: window_step_def put split: option.splits if_splits)
qed

text \<open>
  The background cleanup never changes a decision: dropping the expired entries at some time leaves
  every later run of requests with exactly the verdicts it would have had without the cleanup.
\<close>

theorem global_cleanup_invisible:
  assumes "\<forall>(ip, t)\<in>set rs. now \<le> t"
  shows "snd (limiter_run global_step rs (gl_cleanup now rl)) = snd (limiter_run global_step rs rl)"
proof -
  have "snd (limiter_run (window_step gl_look gl_put W rate) rs m) =
      snd (limiter_run (window_step gl_look gl_put W rate) rs m')"
    if "\<forall>t\<ge>now. \<forall>ip. gl_look m t ip = gl_look m' t ip" for W rate m m'
    using that assms
  proof (induction rs arbitrary: m m')
    case (Cons q rs)
    obtain ip t where q: "q = (ip, t)" "now \<le> t"
      using Cons(3) by (cases q) auto
    obtain m1 ok where one: "window_step gl_look gl_put W rate ip t m = (m1, ok)"
      by (cases "window_step gl_look gl_put W rate ip t m") auto
    obtain m1' where two: "window_step gl_look gl_put W rate ip t m' = (m1', ok)"
      "\<forall>t\<ge>now. \<forall>ip. gl_look m1 t ip = gl_look m1' t ip"
      using window_step_same_look[OF Cons(2) q(2) one] by blast
    then show ?case
      using Cons(1)[OF two(2)] Cons(3) one q(1) by (simp add: split_beta)
  qed simp
  moreover have "gl_window (gl_cleanup now rl) = gl_window rl" "gl_rate (gl_cleanup now rl) = gl_rate rl"
    by (simp_all add: gl_cleanup_def)
  ultimately show ?thesis
    unfolding global_run_window using gl_cleanup_look by (simp add: split_beta)
qed

theorem global_cleanup_invisible_witness:
  "snd (limiter_run global_step [(''a'', 100)] (gl_cleanup 90 (fst (global_step ''a'' 5 (NewGlobalRateLimiter 1 60)))))
   = snd (limiter_run global_step [(''a'', 100)] (fst (global_step ''a'' 5 (NewGlobalRateLimiter 1 60))))"
  by (rule global_cleanup_invisible) simp

end
