(* ===== verification/Jwt_Service.thy ===== *)
theory Jwt_Service
  imports Http KV_Store
begin

text \<open>
  The token service of \<open>internal/auth/jwt.go\<close>: key rotation, issue and validation of access and
  refresh tokens, revocation of access tokens in the key-value store.

  Tokens are signed and parsed by the library \<open>github.com/golang-jwt/jwt/v5\<close>, which is the pair of
  arguments \<open>sign\<close> and \<open>parse\<close> over a type \<open>'t\<close> of token strings; \<open>jwt_documented\<close> states what
  the service relies on. A payload holds every claim the two kinds of token can carry, since both are
  JSON objects and a missing claim decodes to the zero value of its field. Times are nanoseconds; the
  claims are in whole seconds, as \<open>NewNumericDate\<close> truncates them.
\<close>

definition ns :: int where
  "ns = 1000000000"

definition unix_sec :: "time \<Rightarrow> int" where
  "unix_sec t = t div ns"

definition RotationGracePeriod :: duration where
  "RotationGracePeriod = 20 * 60 * ns"

definition MaxAbsoluteSessionSeconds :: int where
  "MaxAbsoluteSessionSeconds = 30 * 24 * 60 * 60"

definition RefreshTokenTTLSeconds :: int where
  "RefreshTokenTTLSeconds = 7 * 24 * 60 * 60"

definition tokenIssuer :: string where
  "tokenIssuer = ''deploymonster''"

definition tokenAudience :: string where
  "tokenAudience = ''deploymonster''"

record jwt_payload =
  jp_exp :: int
  jp_iat :: int
  jp_nbf :: int
  jp_jti :: string
  jp_iss :: string
  jp_aud :: string
  jp_sub :: string
  jp_uid :: string
  jp_tid :: string
  jp_rid :: string
  jp_email :: string
  jp_fia :: int

record JWTService =
  jw_secretKey :: string
  jw_previous :: "(string \<times> time) list"
  jw_accessExpiry :: duration
  jw_refreshExpiry :: duration

definition NewJWTService :: "string \<Rightarrow> string list \<Rightarrow> JWTService option" where
  "NewJWTService secret previousSecrets =
     (if length secret < 32 then None
      else Some \<lparr>jw_secretKey = secret,
                 jw_previous = map (\<lambda>s. (s, 0)) (filter (\<lambda>s. s \<noteq> []) previousSecrets),
                 jw_accessExpiry = 15 * 60 * ns, jw_refreshExpiry = 7 * 24 * 60 * 60 * ns\<rparr>)"

definition purgeExpiredPreviousKeys :: "time \<Rightarrow> JWTService \<Rightarrow> JWTService" where
  "purgeExpiredPreviousKeys now j =
     (let cutoff = now - RotationGracePeriod
      in j\<lparr>jw_previous := filter (\<lambda>(k, t). t = 0 \<or> t > cutoff) (jw_previous j)\<rparr>)"

definition AddPreviousKey :: "string \<Rightarrow> time \<Rightarrow> JWTService \<Rightarrow> JWTService" where
  "AddPreviousKey secret now j =
     (if secret = [] then j
      else purgeExpiredPreviousKeys now (j\<lparr>jw_previous := jw_previous j @ [(secret, now)]\<rparr>))"

definition RevokeAllPreviousKeys :: "JWTService \<Rightarrow> JWTService \<times> nat" where
  "RevokeAllPreviousKeys j = (j\<lparr>jw_previous := []\<rparr>, length (jw_previous j))"

definition allKeys :: "time \<Rightarrow> JWTService \<Rightarrow> JWTService \<times> string list" where
  "allKeys now j =
     (let j1 = purgeExpiredPreviousKeys now j
      in (j1, jw_secretKey j1 # map fst (jw_previous j1)))"

record 't TokenPair =
  tp_AccessToken :: 't
  tp_RefreshToken :: 't
  tp_ExpiresIn :: int
  tp_TokenType :: string

definition access_payload :: "JWTService \<Rightarrow> time \<Rightarrow> string \<Rightarrow> string \<Rightarrow> string \<Rightarrow> string \<Rightarrow> string \<Rightarrow> jwt_payload" where
  "access_payload j now jti userID tenantID roleID email =
     \<lparr>jp_exp = unix_sec (now + jw_accessExpiry j), jp_iat = unix_sec now, jp_nbf = unix_sec now, jp_jti = jti,
      jp_iss = tokenIssuer, jp_aud = tokenAudience, jp_sub = [], jp_uid = userID, jp_tid = tenantID,
      jp_rid = roleID, jp_email = email, jp_fia = 0\<rparr>"

definition refresh_payload :: "JWTService \<Rightarrow> time \<Rightarrow> string \<Rightarrow> string \<Rightarrow> jwt_payload" where
  "refresh_payload j now jti userID =
     \<lparr>jp_exp = unix_sec (now + jw_refreshExpiry j), jp_iat = unix_sec now, jp_nbf = 0, jp_jti = jti,
      jp_iss = tokenIssuer, jp_aud = tokenAudience, jp_sub = userID, jp_uid = [], jp_tid = [],
      jp_rid = [], jp_email = [], jp_fia = unix_sec now\<rparr>"

definition GenerateTokenPair ::
  "(string \<Rightarrow> jwt_payload \<Rightarrow> 't) \<Rightarrow> JWTService \<Rightarrow> time \<Rightarrow> string \<Rightarrow> string \<Rightarrow>
   string \<Rightarrow> string \<Rightarrow> string \<Rightarrow> string \<Rightarrow> 't TokenPair" where
  "GenerateTokenPair sign j now jti1 jti2 userID tenantID roleID email =
     \<lparr>tp_AccessToken = sign (jw_secretKey j) (access_payload j now jti1 userID tenantID roleID email),
      tp_RefreshToken = sign (jw_secretKey j) (refresh_payload j now jti2 userID),
      tp_ExpiresIn = jw_accessExpiry j div ns, tp_TokenType = ''Bearer''\<rparr>"

fun try_keys :: "(string \<Rightarrow> time \<Rightarrow> 't \<Rightarrow> jwt_payload option) \<Rightarrow> time \<Rightarrow> 't \<Rightarrow> string list \<Rightarrow> jwt_payload option" where
  "try_keys parse now tok [] = None"
| "try_keys parse now tok (k # ks) =
     (case parse k now tok of None \<Rightarrow> try_keys parse now tok ks | Some p \<Rightarrow> Some p)"

definition ValidateAccessToken ::
  "(string \<Rightarrow> time \<Rightarrow> 't \<Rightarrow> jwt_payload option) \<Rightarrow> JWTService \<Rightarrow> time \<Rightarrow> 't \<Rightarrow> Claims option" where
  "ValidateAccessToken parse j now tok =
     (case try_keys parse now tok (snd (allKeys now j)) of
        None \<Rightarrow> None
      | Some p \<Rightarrow> Some \<lparr>cl_ID = jp_jti p, cl_UserID = jp_uid p, cl_TenantID = jp_tid p,
                        cl_RoleID = jp_rid p, cl_Email = jp_email p, cl_ExpiresAt = jp_exp p\<rparr>)"

record RefreshTokenClaims =
  rtc_UserID :: string
  rtc_JTI :: string

definition ValidateRefreshToken ::
  "(string \<Rightarrow> time \<Rightarrow> 't \<Rightarrow> jwt_payload option) \<Rightarrow> JWTService \<Rightarrow> time \<Rightarrow> 't \<Rightarrow> RefreshTokenClaims option" where
  "ValidateRefreshToken parse j now tok =
     (case try_keys parse now tok (snd (allKeys now j)) of
        None \<Rightarrow> None
      | Some p \<Rightarrow>
          if jp_fia p > 0 \<and> unix_sec now - jp_fia p > MaxAbsoluteSessionSeconds then None
          else Some \<lparr>rtc_UserID = jp_sub p, rtc_JTI = jp_jti p\<rparr>)"

subsection \<open>Revocation\<close>

record AccessTokenRevocation =
  rv_JTI :: string
  rv_ExpiresAt :: time
  rv_UserID :: string

definition RevokeAccessToken ::
  "(AccessTokenRevocation \<Rightarrow> 'j option) \<Rightarrow> time \<Rightarrow> string \<Rightarrow> string \<Rightarrow> time \<Rightarrow> 'j KVStore \<Rightarrow>
   'j KVStore \<times> kv_error option" where
  "RevokeAccessToken enc now jti userID expiresAt kv =
     (let remaining = expiresAt - now
      in if remaining \<le> 0 then (kv, None)
         else kv_Set enc True (unix_sec now) ''revoked_access_tokens'' jti
                \<lparr>rv_JTI = jti, rv_ExpiresAt = expiresAt, rv_UserID = userID\<rparr> (remaining div ns) kv)"

definition IsAccessTokenRevoked ::
  "('j \<Rightarrow> AccessTokenRevocation option) \<Rightarrow> time \<Rightarrow> string \<Rightarrow> 'j KVStore option \<Rightarrow> bool" where
  "IsAccessTokenRevoked dec now jti kvo =
     (case kvo of
        None \<Rightarrow> False
      | Some kv \<Rightarrow>
          (case kv_Get dec True (unix_sec now) ''revoked_access_tokens'' jti kv of Inr r \<Rightarrow> True | Inl e \<Rightarrow> False))"

subsection \<open>What the library promises\<close>

text \<open>A parse with \<open>WithValidMethods\<close>, \<open>WithIssuer\<close> and \<open>WithAudience\<close> succeeds on a token signed
  with the same key if its issuer and audience are right, it has not expired and its not-before time
  has come; with another key it fails.\<close>

definition payload_accepted :: "time \<Rightarrow> jwt_payload \<Rightarrow> bool" where
  "payload_accepted now p \<longleftrightarrow>
     jp_iss p = tokenIssuer \<and> jp_aud p = tokenAudience \<and> now < jp_exp p * ns \<and> jp_nbf p * ns \<le> now"

definition jwt_documented ::
  "(string \<Rightarrow> jwt_payload \<Rightarrow> 't) \<Rightarrow> (string \<Rightarrow> time \<Rightarrow> 't \<Rightarrow> jwt_payload option) \<Rightarrow> bool" where
  "jwt_documented sign parse \<longleftrightarrow>
     (\<forall>k k' now p. parse k' now (sign k p) = (if k' = k \<and> payload_accepted now p then Some p else None))"

lemma jwt_documentedD:
  "jwt_documented sign parse \<Longrightarrow>
   parse k' now (sign k p) = (if k' = k \<and> payload_accepted now p then Some p else None)"
  by (simp add: jwt_documented_def)

lemma try_keys_sign:
  assumes "jwt_documented sign parse"
  shows "try_keys parse now (sign k p) ks = (if k \<in> set ks \<and> payload_accepted now p then Some p else None)"
  by (induction ks) (auto simp: jwt_documentedD[OF assms])

lemma set_allKeys:
  "set (snd (allKeys now j)) =
     insert (jw_secretKey j) {k. \<exists>t. (k, t) \<in> set (jw_previous j) \<and> (t = 0 \<or> t > now - RotationGracePeriod)}"
  by (force simp: allKeys_def purgeExpiredPreviousKeys_def Let_def)

lemma sec_mono: "unix_sec now * ns \<le> now"
  by (simp add: unix_sec_def ns_def)

lemma sec_next: "now < unix_sec now * ns + ns"
  by (simp add: unix_sec_def ns_def)

definition claims_of :: "int \<Rightarrow> string \<Rightarrow> string \<Rightarrow> string \<Rightarrow> string \<Rightarrow> string \<Rightarrow> Claims" where
  "claims_of e jti userID tenantID roleID email =
     \<lparr>cl_ID = jti, cl_UserID = userID, cl_TenantID = tenantID, cl_RoleID = roleID, cl_Email = email,
      cl_ExpiresAt = e\<rparr>"

text \<open>
  The life of an access token across key rotation: a token issued at some time is accepted by a
  service, with exactly the identity it was issued for, if and only if the time is in its validity
  interval and the key that signed it is that service's active key or one of its previous keys that
  either was rotated out less than the grace period ago or came from the configuration.
\<close>

theorem access_token_life:
  assumes "jwt_documented sign parse"
  shows "ValidateAccessToken parse j' now
      (tp_AccessToken (GenerateTokenPair sign j issued jti1 jti2 userID tenantID roleID email)) =
    (if unix_sec issued * ns \<le> now \<and> now < unix_sec (issued + jw_accessExpiry j) * ns
        \<and> (jw_secretKey j = jw_secretKey j'
           \<or> (\<exists>t. (jw_secretKey j, t) \<in> set (jw_previous j') \<and> (t = 0 \<or> now < t + RotationGracePeriod)))
     then Some (claims_of (unix_sec (issued + jw_accessExpiry j)) jti1 userID tenantID roleID email) else None)"
  by (auto simp: ValidateAccessToken_def GenerateTokenPair_def try_keys_sign[OF assms] set_allKeys
      payload_accepted_def access_payload_def claims_of_def)

definition ex_sign :: "string \<Rightarrow> jwt_payload \<Rightarrow> string \<times> jwt_payload" where
  "ex_sign k p = (k, p)"

definition ex_parse :: "string \<Rightarrow> time \<Rightarrow> string \<times> jwt_payload \<Rightarrow> jwt_payload option" where
  "ex_parse k now tok = (if fst tok = k \<and> payload_accepted now (snd tok) then Some (snd tok) else None)"

lemma ex_jwt_documented: "jwt_documented ex_sign ex_parse"
  by (auto simp: jwt_documented_def ex_sign_def ex_parse_def)

definition ex_jwt :: JWTService where
  "ex_jwt = \<lparr>jw_secretKey = ''new'', jw_previous = [(''old'', 0)],
     jw_accessExpiry = 15 * 60 * ns, jw_refreshExpiry = 7 * 24 * 60 * 60 * ns\<rparr>"

theorem access_token_life_witness:
  "ValidateAccessToken ex_parse ex_jwt (800 * ns)
     (tp_AccessToken (GenerateTokenPair ex_sign (ex_jwt\<lparr>jw_secretKey := ''old''\<rparr>) 0 ''j1'' ''j2'' ''u'' ''t'' ''r'' ''e''))
   = Some (claims_of 900 ''j1'' ''u'' ''t'' ''r'' ''e'')"
  using access_token_life[OF ex_jwt_documented, of ex_jwt "800 * ns" "ex_jwt\<lparr>jw_secretKey := ''old''\<rparr>" 0
      "''j1''" "''j2''" "''u''" "''t''" "''r''" "''e''"]
  by (simp add: ex_jwt_def unix_sec_def ns_def RotationGracePeriod_def)

text \<open>
  Keys from the configuration never expire: every non-empty previous secret given to NewJWTService is
  among the accepted keys at every time, however late, and however often the expired keys are purged.
\<close>

theorem configured_keys_permanent:
  assumes "NewJWTService secret olds = Some j" "old \<in> set olds" "old \<noteq> []"
  shows "old \<in> set (snd (allKeys now (fold purgeExpiredPreviousKeys ts j)))"
proof -
  have "(old, 0) \<in> set (jw_previous j)"
    using assms by (auto simp: NewJWTService_def split: if_splits)
  then have "(old, 0) \<in> set (jw_previous (fold purgeExpiredPreviousKeys ts j))"
    by (induction ts arbitrary: j) (auto simp: purgeExpiredPreviousKeys_def Let_def)
  then show ?thesis
    by (auto simp: set_allKeys)
qed

theorem configured_keys_permanent_witness:
  "''leaked'' \<in> set (snd (allKeys (10 ^ 30) (fold purgeExpiredPreviousKeys [10 ^ 20]
     (the (NewJWTService (replicate 32 (CHR ''k'')) [''leaked''])))))"
  using configured_keys_permanent[of "replicate 32 (CHR ''k'')" "[''leaked'']"
      "the (NewJWTService (replicate 32 (CHR ''k'')) [''leaked''])" "''leaked''" "10 ^ 30" "[10 ^ 20]"]
  by (simp add: NewJWTService_def)

text \<open>
  A refresh token is also an access token: until it expires, that is for seven days, the refresh
  token of a pair passes ValidateAccessToken, as an authenticated identity with an empty user, tenant
  and role.
\<close>

theorem refresh_token_is_access_token:
  assumes "jwt_documented sign parse" "0 \<le> now" "now < unix_sec (issued + jw_refreshExpiry j) * ns"
  shows "ValidateAccessToken parse j now
      (tp_RefreshToken (GenerateTokenPair sign j issued jti1 jti2 userID tenantID roleID email)) =
    Some (claims_of (unix_sec (issued + jw_refreshExpiry j)) jti2 [] [] [] [])"
  using assms(2,3)
  by (auto simp: ValidateAccessToken_def GenerateTokenPair_def try_keys_sign[OF assms(1)] set_allKeys
      payload_accepted_def refresh_payload_def claims_of_def)

theorem refresh_token_is_access_token_witness:
  "ValidateAccessToken ex_parse ex_jwt (600000 * ns)
     (tp_RefreshToken (GenerateTokenPair ex_sign ex_jwt 0 ''j1'' ''j2'' ''u'' ''t'' ''r'' ''e''))
   = Some (claims_of 604800 ''j2'' [] [] [] [])"
  using refresh_token_is_access_token[OF ex_jwt_documented, of "600000 * ns" 0 ex_jwt]
  by (simp add: ex_jwt_def unix_sec_def ns_def)

subsection \<open>Validation of refresh tokens\<close>

lemma validate_own_refresh:
  assumes "jwt_documented sign parse" "0 \<le> t" "t \<le> now" "now < unix_sec (t + jw_refreshExpiry j) * ns"
    and "jw_refreshExpiry j = 7 * 24 * 60 * 60 * ns"
  shows "ValidateRefreshToken parse j now (sign (jw_secretKey j) (refresh_payload j t jti userID)) =
    Some \<lparr>rtc_UserID = userID, rtc_JTI = jti\<rparr>"
proof -
  have "unix_sec (t + jw_refreshExpiry j) = unix_sec t + 7 * 24 * 60 * 60"
    using assms(5) by (simp add: unix_sec_def ns_def)
  then have "\<not> unix_sec now - unix_sec t > MaxAbsoluteSessionSeconds"
    using assms(4) sec_mono[of now] by (simp add: MaxAbsoluteSessionSeconds_def ns_def)
  moreover have "payload_accepted now (refresh_payload j t jti userID)"
    using assms(2-4) by (simp add: payload_accepted_def refresh_payload_def)
  ultimately show ?thesis
    by (simp add: ValidateRefreshToken_def try_keys_sign[OF assms(1)] set_allKeys refresh_payload_def)
qed

subsection \<open>Chains of refreshes\<close>

text \<open>The refresh handler validates the presented token and issues a new pair for its user
  (\<open>AuthHandler.Refresh\<close> of \<open>internal/api/handlers/auth.go\<close>); a chain does so at given times.\<close>

fun refresh_chain ::
  "(string \<Rightarrow> jwt_payload \<Rightarrow> 't) \<Rightarrow> (string \<Rightarrow> time \<Rightarrow> 't \<Rightarrow> jwt_payload option) \<Rightarrow> JWTService \<Rightarrow>
   (time \<times> string) list \<Rightarrow> 't \<Rightarrow> 't option" where
  "refresh_chain sign parse j [] tok = Some tok"
| "refresh_chain sign parse j ((now, jti) # steps) tok =
     (case ValidateRefreshToken parse j now tok of
        None \<Rightarrow> None
      | Some rt \<Rightarrow>
          refresh_chain sign parse j steps
            (tp_RefreshToken (GenerateTokenPair sign j now jti jti (rtc_UserID rt) [] [] [])))"

fun gaps_ok :: "JWTService \<Rightarrow> time \<Rightarrow> (time \<times> string) list \<Rightarrow> bool" where
  "gaps_ok j t [] \<longleftrightarrow> True"
| "gaps_ok j t ((now, jti) # steps) \<longleftrightarrow> t \<le> now \<and> now < unix_sec (t + jw_refreshExpiry j) * ns \<and> gaps_ok j now steps"

text \<open>
  The absolute session limit is never reached: whoever refreshes again before the seven days of the
  current token are over keeps the session for ever. Every chain of refreshes with such gaps succeeds,
  however long it lasts in total, because each new token restarts the time the limit is measured from.
\<close>

theorem session_never_ends:
  assumes "jwt_documented sign parse" "jw_refreshExpiry j = 7 * 24 * 60 * 60 * ns" "0 \<le> issued"
    and "gaps_ok j issued steps"
  shows "\<exists>tok. refresh_chain sign parse j steps
      (tp_RefreshToken (GenerateTokenPair sign j issued jti1 jti2 userID tenantID roleID email)) = Some tok
    \<and> (\<forall>now. steps \<noteq> [] \<and> fst (last steps) \<le> now \<and> now < unix_sec (fst (last steps) + jw_refreshExpiry j) * ns \<longrightarrow>
         (\<exists>rt. ValidateRefreshToken parse j now tok = Some rt \<and> rtc_UserID rt = userID))"
  using assms(3,4)
proof (induction steps arbitrary: issued jti1 jti2 tenantID roleID email)
  case (Cons st steps)
  obtain now jti where st: "st = (now, jti)"
    by (cases st) auto
  then have now: "issued \<le> now" "now < unix_sec (issued + jw_refreshExpiry j) * ns" "gaps_ok j now steps" "0 \<le> now"
    using Cons(2,3) by auto
  have step: "refresh_chain sign parse j (st # steps)
      (tp_RefreshToken (GenerateTokenPair sign j issued jti1 jti2 userID tenantID roleID email)) =
    refresh_chain sign parse j steps (tp_RefreshToken (GenerateTokenPair sign j now jti jti userID [] [] []))"
    using validate_own_refresh[OF assms(1) Cons(2) now(1,2) assms(2)] st by (simp add: GenerateTokenPair_def)
  show ?case
  proof (cases "steps = []")
    case True
    then show ?thesis
      using step st now(4) validate_own_refresh[OF assms(1) now(4) _ _ assms(2)]
      by (auto simp: GenerateTokenPair_def)
  next
    case False
    then show ?thesis
      using Cons(1)[OF now(4,3), of jti jti "[]" "[]" "[]"] step by simp
  qed
qed simp

theorem session_never_ends_witness:
  "\<exists>tok. refresh_chain ex_sign ex_parse ex_jwt (map (\<lambda>d. (d * 518400 * ns, ''x'')) [1, 2, 3, 4, 5, 6, 7])
     (tp_RefreshToken (GenerateTokenPair ex_sign ex_jwt 0 ''j1'' ''j2'' ''u'' ''t'' ''r'' ''e'')) = Some tok
     \<and> 6 * 518400 > MaxAbsoluteSessionSeconds"
  using session_never_ends[OF ex_jwt_documented, of ex_jwt 0 "map (\<lambda>d. (d * 518400 * ns, ''x'')) [1, 2, 3, 4, 5, 6, 7]"
      "''j1''" "''j2''" "''u''" "''t''" "''r''" "''e''"]
  by (auto simp: ex_jwt_def unix_sec_def ns_def MaxAbsoluteSessionSeconds_def simp del: refresh_chain.simps)

subsection \<open>Revocation\<close>

lemma revocation_expiry:
  assumes "now mod ns \<noteq> 0"
  shows "unix_sec now + (e * ns - now) div ns = e - 1"
proof -
  have "now = unix_sec now * ns + now mod ns" "0 < now mod ns" "now mod ns < ns"
    using assms by (auto simp: unix_sec_def ns_def)
  then have "e * ns - now = (e - unix_sec now - 1) * ns + (ns - now mod ns)" "0 \<le> ns - now mod ns" "ns - now mod ns < ns"
    by (auto simp: algebra_simps)
  then have "(e * ns - now) div ns = e - unix_sec now - 1"
    by (metis div_pos_pos_trivial add_0 div_mult_self3 add.commute not_less ns_def zero_neq_numeral)
  then show ?thesis
    by simp
qed

text \<open>
  A revoked access token comes back to life for its last second. If it is revoked between two full
  seconds, at least one second before it expires, then it is reported as revoked at exactly the times
  before the last second of its life; in that last second it is still valid and no longer revoked.
\<close>

theorem revoked_token_last_second:
  assumes "codec_ok enc dec" "now mod ns \<noteq> 0" "0 \<le> now" "ns \<le> e * ns - now" "now \<le> t"
  shows "IsAccessTokenRevoked dec t jti (Some (fst (RevokeAccessToken enc now jti userID (e * ns) kv)))
    \<longleftrightarrow> t < (e - 1) * ns"
proof -
  obtain j where j: "enc \<lparr>rv_JTI = jti, rv_ExpiresAt = e * ns, rv_UserID = userID\<rparr> = Some j"
    "dec j = Some \<lparr>rv_JTI = jti, rv_ExpiresAt = e * ns, rv_UserID = userID\<rparr>"
    using assms(1) codec_ok_def by metis
  have ttl: "(e * ns - now) div ns > 0"
    using assms(4) by (simp add: ns_def)
  have sec: "0 \<le> unix_sec now"
    using assms(3) by (simp add: unix_sec_def ns_def)
  have "IsAccessTokenRevoked dec t jti (Some (fst (RevokeAccessToken enc now jti userID (e * ns) kv)))
      \<longleftrightarrow> unix_sec t < unix_sec now + (e * ns - now) div ns"
    using assms(4) ttl j
    by (auto simp: IsAccessTokenRevoked_def RevokeAccessToken_def kv_Set_def Let_def kv_Get_put[OF sec] ns_def)
  also have "\<dots> \<longleftrightarrow> unix_sec t < e - 1"
    by (simp add: revocation_expiry[OF assms(2)])
  also have "\<dots> \<longleftrightarrow> t < (e - 1) * ns"
    using sec_mono[of t] sec_next[of t] by (auto simp: ns_def)
  finally show ?thesis .
qed

theorem revoked_token_last_second_witness:
  "\<not> IsAccessTokenRevoked Some (899 * ns) ''j1'' (Some (fst (RevokeAccessToken Some (10 * ns + 1) ''j1'' ''u'' (900 * ns) NewKVStore)))"
  using revoked_token_last_second[of Some Some "10 * ns + 1" 900 "899 * ns" "''j1''" "''u''" NewKVStore]
  by (simp add: codec_ok_def ns_def)

end
