(* ===== verification/Login_Session.thy ===== *)
theory Login_Session
  imports Jwt_Service "HOL-Library.Multiset"
begin

text \<open>
  The authentication handlers of \<open>internal/api/handlers/auth.go\<close>: login with the per-account
  lockout, refresh with rotation, logout, and the limit on concurrent sessions.

  The key-value store is the model of \<open>KV_Store\<close>, holding documents of the four kinds these
  handlers write. The user store (\<open>core.Store\<close>), the password check (bcrypt) and the TOTP validator
  are arguments. A request carries the tokens found in its body, its cookies and its Authorization
  header; an empty one is \<open>None\<close>, and \<open>aq_bearer\<close> is present whenever the header starts with
  \<open>Bearer\<close>. Times are nanoseconds.
\<close>

record session_doc =
  sd_user_id :: string
  sd_jti :: string
  sd_ip :: string
  sd_user_agent :: string
  sd_created_at :: time

record accountRateLimitEntry =
  ar_FailedCount :: int
  ar_LockedUntil :: int

datatype auth_doc =
    DBool bool
  | DRevocation AccessTokenRevocation
  | DSession session_doc
  | DAccount accountRateLimitEntry

fun dec_bool :: "auth_doc \<Rightarrow> bool option" where
  "dec_bool (DBool b) = Some b" | "dec_bool _ = None"

fun dec_revocation :: "auth_doc \<Rightarrow> AccessTokenRevocation option" where
  "dec_revocation (DRevocation r) = Some r" | "dec_revocation _ = None"

fun dec_session :: "auth_doc \<Rightarrow> session_doc option" where
  "dec_session (DSession s) = Some s" | "dec_session _ = None"

fun dec_account :: "auth_doc \<Rightarrow> accountRateLimitEntry option" where
  "dec_account (DAccount a) = Some a" | "dec_account _ = None"

type_synonym auth_kv = "auth_doc KVStore"

record 't auth_request =
  aq_body :: "'t option"
  aq_cookie_refresh :: "'t option"
  aq_cookie_access :: "'t option"
  aq_bearer :: "'t option"
  aq_ip :: string
  aq_user_agent :: string

record User =
  us_ID :: string
  us_Email :: string
  us_PasswordHash :: string
  us_TOTPEnabled :: bool

record TeamMember =
  tm_TenantID :: string
  tm_RoleID :: string

datatype store_error = ErrNotFound | ErrStore

datatype 't auth_response =
    AuthError int string "(string \<times> string) list"
  | AuthTokens int "'t TokenPair"
  | AuthOK

subsection \<open>Account lockout\<close>

definition maxFailedAttempts :: int where
  "maxFailedAttempts = 5"

definition accountLockoutSeconds :: int where
  "accountLockoutSeconds = 15 * 60"

definition checkPerAccountRateLimit :: "time \<Rightarrow> string \<Rightarrow> auth_kv option \<Rightarrow> bool \<times> int" where
  "checkPerAccountRateLimit now email kvo =
     (case kvo of
        None \<Rightarrow> (False, 0)
      | Some kv \<Rightarrow>
          (case kv_Get dec_account True (unix_sec now) ''account_rl'' email kv of
             Inl e \<Rightarrow> (False, 0)
           | Inr entry \<Rightarrow>
               if ar_LockedUntil entry = 0 then (False, 0)
               else if unix_sec now < ar_LockedUntil entry then (True, ar_LockedUntil entry)
               else (False, 0)))"

definition incrementPerAccountRateLimit :: "time \<Rightarrow> string \<Rightarrow> auth_kv option \<Rightarrow> auth_kv option" where
  "incrementPerAccountRateLimit now email kvo =
     (case kvo of
        None \<Rightarrow> None
      | Some kv \<Rightarrow>
          let res = kv_Get dec_account True (unix_sec now) ''account_rl'' email kv
          in if res \<noteq> Inl KVNotFound \<and> (\<exists>e. res = Inl e) then Some kv
             else
               let entry = (case res of Inr en \<Rightarrow> en | Inl e \<Rightarrow> \<lparr>ar_FailedCount = 0, ar_LockedUntil = 0\<rparr>)
               in if ar_LockedUntil entry > 0 then Some kv
                  else
                    let count = ar_FailedCount entry + 1;
                        resetAt = unix_sec now + accountLockoutSeconds;
                        locked = (if count \<ge> maxFailedAttempts then resetAt else ar_LockedUntil entry)
                    in Some (fst (kv_Set (Some \<circ> DAccount) True (unix_sec now) ''account_rl'' email
                               \<lparr>ar_FailedCount = count, ar_LockedUntil = locked\<rparr> accountLockoutSeconds kv)))"

definition loginRateLimitCheck :: "time \<Rightarrow> string \<Rightarrow> auth_kv option \<Rightarrow> (string \<times> string) list option" where
  "loginRateLimitCheck now email kvo =
     (case checkPerAccountRateLimit now email kvo of
        (False, until) \<Rightarrow> None
      | (True, until) \<Rightarrow>
          Some [(''Retry-After'', itoa (until - unix_sec now)),
                (''X-RateLimit-Limit'', itoa maxFailedAttempts), (''X-RateLimit-Remaining'', ''0'')])"

subsection \<open>Sessions\<close>

record sessionInfo =
  si_key :: string
  si_jti :: string
  si_createdAt :: time

definition maxConcurrentSessions :: nat where
  "maxConcurrentSessions = 10"

text \<open>The nested loops that order the sessions: one pass moves the oldest of the rest to the front by
  swaps.\<close>

fun swap_pass :: "sessionInfo \<Rightarrow> sessionInfo list \<Rightarrow> sessionInfo \<times> sessionInfo list" where
  "swap_pass x [] = (x, [])"
| "swap_pass x (y # ys) =
     (if si_createdAt y < si_createdAt x then (case swap_pass y ys of (m, zs) \<Rightarrow> (m, x # zs))
      else (case swap_pass x ys of (m, zs) \<Rightarrow> (m, y # zs)))"

lemma swap_pass_length [simp]: "length (snd (swap_pass x ys)) = length ys"
  by (induction x ys rule: swap_pass.induct) (auto split: prod.splits)

function sort_sessions :: "sessionInfo list \<Rightarrow> sessionInfo list" where
  "sort_sessions [] = []"
| "sort_sessions (x # xs) = (case swap_pass x xs of (m, zs) \<Rightarrow> m # sort_sessions zs)"
  by pat_completeness auto

lemma swap_pass_result_length: "(m, zs) = swap_pass x xs \<Longrightarrow> length zs = length xs"
  using swap_pass_length[of x xs] by (metis snd_conv)

termination sort_sessions
  by (relation "measure length") (auto dest: swap_pass_result_length)

definition user_sessions_of :: "time \<Rightarrow> string \<Rightarrow> auth_kv \<Rightarrow> sessionInfo list" where
  "user_sessions_of now userID kv =
     (case kv_List (\<lambda>_. True) True (unix_sec now) ''user_sessions'' kv of
        Inl e \<Rightarrow> []
      | Inr keys \<Rightarrow>
          concat (map (\<lambda>key.
            if hasPrefix key (userID @ '':'') then
              (case kv_Get dec_session True (unix_sec now) ''user_sessions'' key kv of
                 Inl e \<Rightarrow> []
               | Inr s \<Rightarrow> [\<lparr>si_key = key, si_jti = sd_jti s, si_createdAt = sd_created_at s\<rparr>])
            else []) keys))"

definition revoke_session :: "time \<Rightarrow> sessionInfo \<Rightarrow> auth_kv \<Rightarrow> auth_kv" where
  "revoke_session now s kv =
     (let kv1 = fst (kv_Set (Some \<circ> DBool) True (unix_sec now) ''revoked_tokens'' (si_jti s) True
                       RefreshTokenTTLSeconds kv)
      in fst (kv_Delete True ''user_sessions'' (si_key s) kv1))"

definition enforceSessionLimit :: "time \<Rightarrow> string \<Rightarrow> auth_kv \<Rightarrow> auth_kv" where
  "enforceSessionLimit now userID kv =
     (let sessions = sort_sessions (user_sessions_of now userID kv)
      in if length sessions > maxConcurrentSessions
         then fold (revoke_session now) (take (length sessions - maxConcurrentSessions) sessions) kv
         else kv)"

definition trackSession ::
  "(string \<Rightarrow> time \<Rightarrow> 't \<Rightarrow> jwt_payload option) \<Rightarrow> JWTService \<Rightarrow> time \<Rightarrow> 't auth_request \<Rightarrow> string \<Rightarrow> 't \<Rightarrow>
   auth_kv option \<Rightarrow> auth_kv option" where
  "trackSession parse j now r userID refreshToken kvo =
     (case kvo of
        None \<Rightarrow> None
      | Some kv \<Rightarrow>
          (case ValidateRefreshToken parse j now refreshToken of
             None \<Rightarrow> Some kv
           | Some rt \<Rightarrow>
               let key = userID @ '':'' @ rtc_JTI rt;
                   session = \<lparr>sd_user_id = userID, sd_jti = rtc_JTI rt, sd_ip = aq_ip r,
                              sd_user_agent = aq_user_agent r, sd_created_at = now\<rparr>
               in Some (enforceSessionLimit now userID
                          (fst (kv_Set (Some \<circ> DSession) True (unix_sec now) ''user_sessions'' key session
                                  RefreshTokenTTLSeconds kv)))))"

definition revokeAccessTokenFromRequest ::
  "(string \<Rightarrow> time \<Rightarrow> 't \<Rightarrow> jwt_payload option) \<Rightarrow> JWTService \<Rightarrow> time \<Rightarrow> 't auth_request \<Rightarrow>
   auth_kv option \<Rightarrow> auth_kv option" where
  "revokeAccessTokenFromRequest parse j now r kvo =
     (case kvo of
        None \<Rightarrow> None
      | Some kv \<Rightarrow>
          (case (case aq_bearer r of Some t \<Rightarrow> Some t | None \<Rightarrow> aq_cookie_access r) of
             None \<Rightarrow> Some kv
           | Some tok \<Rightarrow>
               (case ValidateAccessToken parse j now tok of
                  None \<Rightarrow> Some kv
                | Some claims \<Rightarrow>
                    if cl_ID claims = [] then Some kv
                    else Some (fst (RevokeAccessToken (Some \<circ> DRevocation) now (cl_ID claims) (cl_UserID claims)
                                      (cl_ExpiresAt claims * ns) kv)))))"

subsection \<open>Handlers\<close>

definition Login ::
  "(string \<Rightarrow> store_error + User) \<Rightarrow> (string \<Rightarrow> string \<Rightarrow> bool) \<Rightarrow> (string \<Rightarrow> string \<Rightarrow> bool) option \<Rightarrow>
   (string \<Rightarrow> TeamMember option) \<Rightarrow> (string \<Rightarrow> jwt_payload \<Rightarrow> 't) \<Rightarrow>
   (string \<Rightarrow> time \<Rightarrow> 't \<Rightarrow> jwt_payload option) \<Rightarrow> JWTService \<Rightarrow> time \<Rightarrow> string \<Rightarrow> string \<Rightarrow>
   string \<Rightarrow> string \<Rightarrow> string \<Rightarrow> 't auth_request \<Rightarrow> auth_kv option \<Rightarrow> auth_kv option \<times> 't auth_response" where
  "Login getUserByEmail verifyPassword totpValidator getMembership sign parse j now jti1 jti2
       email password totp r kvo =
     (if email = [] \<or> password = [] then (kvo, AuthError 400 ''email and password required'' [])
      else if length password > 256 then (kvo, AuthError 400 ''password must not exceed 256 characters'' [])
      else case getUserByEmail email of
        Inl ErrNotFound \<Rightarrow> (kvo, AuthError 401 ''invalid credentials'' [])
      | Inl ErrStore \<Rightarrow> (kvo, AuthError 500 ''internal error'' [])
      | Inr user \<Rightarrow>
          (case loginRateLimitCheck now email kvo of
             Some hdrs \<Rightarrow>
               (kvo, AuthError 429 ''account temporarily locked due to too many failed attempts'' hdrs)
           | None \<Rightarrow>
               if \<not> verifyPassword (us_PasswordHash user) password then
                 (incrementPerAccountRateLimit now email kvo, AuthError 401 ''invalid credentials'' [])
               else if us_TOTPEnabled user \<and> totp = [] then
                 (kvo, AuthError 401 ''TOTP code required'' [(''X-TOTP-Required'', ''true'')])
               else if us_TOTPEnabled user
                       \<and> \<not> (case totpValidator of None \<Rightarrow> False | Some f \<Rightarrow> f (us_ID user) totp) then
                 (incrementPerAccountRateLimit now email kvo, AuthError 401 ''invalid TOTP code'' [])
               else case getMembership (us_ID user) of
                      None \<Rightarrow> (kvo, AuthError 500 ''internal error'' [])
                    | Some m \<Rightarrow>
                        let tokens = GenerateTokenPair sign j now jti1 jti2 (us_ID user) (tm_TenantID m)
                                       (tm_RoleID m) (us_Email user)
                        in (trackSession parse j now r (us_ID user) (tp_RefreshToken tokens) kvo,
                            AuthTokens 200 tokens)))"

definition is_revoked :: "time \<Rightarrow> string \<Rightarrow> auth_kv option \<Rightarrow> bool" where
  "is_revoked now jti kvo =
     (case kvo of
        None \<Rightarrow> False
      | Some kv \<Rightarrow> jti \<noteq> [] \<and> kv_Get dec_bool True (unix_sec now) ''revoked_tokens'' jti kv = Inr True)"

definition revoke_refresh :: "time \<Rightarrow> string \<Rightarrow> auth_kv option \<Rightarrow> auth_kv option" where
  "revoke_refresh now jti kvo =
     (case kvo of
        None \<Rightarrow> None
      | Some kv \<Rightarrow>
          if jti = [] then Some kv
          else Some (fst (kv_Set (Some \<circ> DBool) True (unix_sec now) ''revoked_tokens'' jti True
                            RefreshTokenTTLSeconds kv)))"

definition body_or_cookie :: "'t auth_request \<Rightarrow> 't option" where
  "body_or_cookie r = (case aq_body r of Some t \<Rightarrow> Some t | None \<Rightarrow> aq_cookie_refresh r)"

definition Refresh ::
  "(string \<Rightarrow> User option) \<Rightarrow> (string \<Rightarrow> TeamMember option) \<Rightarrow> (string \<Rightarrow> jwt_payload \<Rightarrow> 't) \<Rightarrow>
   (string \<Rightarrow> time \<Rightarrow> 't \<Rightarrow> jwt_payload option) \<Rightarrow> JWTService \<Rightarrow> time \<Rightarrow> string \<Rightarrow> string \<Rightarrow>
   't auth_request \<Rightarrow> auth_kv option \<Rightarrow> auth_kv option \<times> 't auth_response" where
  "Refresh getUser getMembership sign parse j now jti1 jti2 r kvo =
     (case body_or_cookie r of
        None \<Rightarrow> (kvo, AuthError 400 ''refresh_token required'' [])
      | Some tok \<Rightarrow>
          (case ValidateRefreshToken parse j now tok of
             None \<Rightarrow> (kvo, AuthError 401 ''invalid refresh token'' [])
           | Some rt \<Rightarrow>
               if is_revoked now (rtc_JTI rt) kvo then (kvo, AuthError 401 ''token has been revoked'' [])
               else case getUser (rtc_UserID rt) of
                 None \<Rightarrow> (kvo, AuthError 401 ''user not found'' [])
               | Some user \<Rightarrow>
                   (case getMembership (us_ID user) of
                      None \<Rightarrow> (kvo, AuthError 500 ''internal error'' [])
                    | Some m \<Rightarrow>
                        let kv1 = revoke_refresh now (rtc_JTI rt) kvo;
                            kv2 = revokeAccessTokenFromRequest parse j now r kv1;
                            tokens = GenerateTokenPair sign j now jti1 jti2 (us_ID user) (tm_TenantID m)
                                       (tm_RoleID m) (us_Email user)
                        in (trackSession parse j now r (us_ID user) (tp_RefreshToken tokens) kv2,
                            AuthTokens 200 tokens))))"

definition Logout ::
  "(string \<Rightarrow> time \<Rightarrow> 't \<Rightarrow> jwt_payload option) \<Rightarrow> JWTService \<Rightarrow> time \<Rightarrow> 't auth_request \<Rightarrow>
   auth_kv option \<Rightarrow> auth_kv option \<times> 't auth_response" where
  "Logout parse j now r kvo =
     (let kv1 = revokeAccessTokenFromRequest parse j now r kvo
      in case body_or_cookie r of
           None \<Rightarrow> (kv1, AuthOK)
         | Some tok \<Rightarrow>
             (case ValidateRefreshToken parse j now tok of
                None \<Rightarrow> (kv1, AuthOK)
              | Some rt \<Rightarrow> (revoke_refresh now (rtc_JTI rt) kv1, AuthOK)))"

subsection \<open>Lockout\<close>

lemma unix_sec_mono: "t \<le> u \<Longrightarrow> unix_sec t \<le> unix_sec u"
  by (simp add: unix_sec_def ns_def zdiv_mono1)

lemma unix_sec_nonneg: "0 \<le> t \<Longrightarrow> 0 \<le> unix_sec t"
  by (simp add: unix_sec_def ns_def)

text \<open>The failures counted for an account: \<open>None\<close> if there is no live entry.\<close>

definition account_entry :: "time \<Rightarrow> string \<Rightarrow> auth_kv \<Rightarrow> kv_error + accountRateLimitEntry" where
  "account_entry now email kv = kv_Get dec_account True (unix_sec now) ''account_rl'' email kv"

definition failures_are :: "time \<Rightarrow> string \<Rightarrow> auth_kv \<Rightarrow> int \<Rightarrow> bool" where
  "failures_are now email kv n \<longleftrightarrow>
     (n = 0 \<and> account_entry now email kv = Inl KVNotFound)
     \<or> (n > 0 \<and> account_entry now email kv = Inr \<lparr>ar_FailedCount = n, ar_LockedUntil = 0\<rparr>)"

lemma increment_entry:
  assumes "0 \<le> now" "failures_are now email kv n"
  shows "\<exists>kv'. incrementPerAccountRateLimit now email (Some kv) = Some kv'
    \<and> (\<forall>t. account_entry t email kv' =
         (if unix_sec t \<ge> unix_sec now + accountLockoutSeconds then Inl KVNotFound
          else Inr \<lparr>ar_FailedCount = n + 1,
                    ar_LockedUntil = (if n + 1 \<ge> maxFailedAttempts then unix_sec now + accountLockoutSeconds else 0)\<rparr>))"
proof -
  have "\<exists>kv'. incrementPerAccountRateLimit now email (Some kv) = Some kv'
      \<and> kv' = kv_put ''account_rl'' email (DAccount \<lparr>ar_FailedCount = n + 1,
          ar_LockedUntil = (if n + 1 \<ge> maxFailedAttempts then unix_sec now + accountLockoutSeconds else 0)\<rparr>)
          (expiry (unix_sec now) accountLockoutSeconds) kv"
    using assms(2)
    by (auto simp: incrementPerAccountRateLimit_def failures_are_def account_entry_def Let_def kv_Set_def)
  then show ?thesis
    by (auto simp: account_entry_def kv_Get_put[OF unix_sec_nonneg[OF assms(1)]] accountLockoutSeconds_def)
qed

fun fail_gaps :: "time \<Rightarrow> time list \<Rightarrow> bool" where
  "fail_gaps t [] \<longleftrightarrow> True"
| "fail_gaps t (u # us) \<longleftrightarrow> t \<le> u \<and> unix_sec u < unix_sec t + accountLockoutSeconds \<and> fail_gaps u us"

lemma fail_gaps_snoc:
  "fail_gaps t (xs @ [u]) \<longleftrightarrow> fail_gaps t xs \<and> last (t # xs) \<le> u
     \<and> unix_sec u < unix_sec (last (t # xs)) + accountLockoutSeconds"
  by (induction xs arbitrary: t) auto

lemma fail_gaps_last: "fail_gaps t xs \<Longrightarrow> t \<le> last (t # xs)"
  by (induction xs arbitrary: t) (auto, fastforce)

lemma increments_below:
  assumes f: "\<And>t kv n. failures_are t email kv n \<Longrightarrow> f t (Some kv) = incrementPerAccountRateLimit t email (Some kv)"
    and "0 \<le> t" "failures_are t email kv n" "0 \<le> n" "n + 1 + int (length ts) < maxFailedAttempts" "fail_gaps t ts"
  shows "\<exists>kv'. fold f (t # ts) (Some kv) = Some kv'
    \<and> (\<forall>u. last (t # ts) \<le> u \<and> unix_sec u < unix_sec (last (t # ts)) + accountLockoutSeconds \<longrightarrow>
         failures_are u email kv' (n + 1 + int (length ts)))"
  using assms(2-)
proof (induction ts arbitrary: t kv n)
  case Nil
  obtain kv' where kv': "incrementPerAccountRateLimit t email (Some kv) = Some kv'"
    "\<forall>u. account_entry u email kv' =
       (if unix_sec u \<ge> unix_sec t + accountLockoutSeconds then Inl KVNotFound
        else Inr \<lparr>ar_FailedCount = n + 1,
                  ar_LockedUntil = (if n + 1 \<ge> maxFailedAttempts then unix_sec t + accountLockoutSeconds else 0)\<rparr>)"
    using increment_entry[OF Nil(1,2)] by blast
  then show ?case
    using Nil f[OF Nil(2)] by (auto simp: failures_are_def)
next
  case (Cons v ts)
  obtain kv1 where kv1: "incrementPerAccountRateLimit t email (Some kv) = Some kv1"
    "\<forall>u. account_entry u email kv1 =
       (if unix_sec u \<ge> unix_sec t + accountLockoutSeconds then Inl KVNotFound
        else Inr \<lparr>ar_FailedCount = n + 1,
                  ar_LockedUntil = (if n + 1 \<ge> maxFailedAttempts then unix_sec t + accountLockoutSeconds else 0)\<rparr>)"
    using increment_entry[OF Cons(2,3)] by blast
  have "failures_are v email kv1 (n + 1)"
    using kv1(2) Cons(4-6) by (auto simp: failures_are_def)
  then show ?case
    using Cons(1)[of v kv1 "n + 1"] Cons(2,4-6) kv1(1) f[OF Cons(3)] by (auto simp: algebra_simps)
qed

lemma login_wrong_password:
  assumes "getUserByEmail email = Inr user" "\<not> verifyPassword (us_PasswordHash user) password"
    "email \<noteq> []" "password \<noteq> []" "length password \<le> 256" "\<not> fst (checkPerAccountRateLimit now email kvo)"
  shows "Login getUserByEmail verifyPassword totp getMembership sign parse j now jti1 jti2 email password code r kvo
    = (incrementPerAccountRateLimit now email kvo, AuthError 401 ''invalid credentials'' [])"
  using assms by (auto simp: Login_def loginRateLimitCheck_def split: prod.splits bool.splits)

lemma failures_not_locked: "failures_are now email kv n \<Longrightarrow> \<not> fst (checkPerAccountRateLimit now email (Some kv))"
  by (auto simp: failures_are_def account_entry_def checkPerAccountRateLimit_def)

lemma locked_check:
  assumes "0 \<le> u" "\<forall>now. account_entry now email kv =
       (if unix_sec now \<ge> unix_sec u + accountLockoutSeconds then Inl KVNotFound
        else Inr \<lparr>ar_FailedCount = 5, ar_LockedUntil = unix_sec u + accountLockoutSeconds\<rparr>)"
  shows "checkPerAccountRateLimit now email (Some kv) =
      (if unix_sec now < unix_sec u + accountLockoutSeconds then (True, unix_sec u + accountLockoutSeconds)
       else (False, 0))"
  using assms(2) unix_sec_nonneg[OF assms(1)]
  by (auto simp: checkPerAccountRateLimit_def account_entry_def[symmetric] accountLockoutSeconds_def)


definition ex_user :: User where
  "ex_user = \<lparr>us_ID = ''u1'', us_Email = ''a@b.c'', us_PasswordHash = ''h'', us_TOTPEnabled = False\<rparr>"

definition ex_areq :: "(string \<times> jwt_payload) auth_request" where
  "ex_areq = \<lparr>aq_body = None, aq_cookie_refresh = None, aq_cookie_access = None, aq_bearer = None,
     aq_ip = ''203.0.113.9'', aq_user_agent = ''curl''\<rparr>"


subsection \<open>Rotation\<close>

text \<open>Revocations are only ever added.\<close>

lemma revoke_session_keeps:
  assumes "0 \<le> now" "kv_Get dec_bool True (unix_sec t) ''revoked_tokens'' jti kv = Inr True"
    "unix_sec t < unix_sec now + RefreshTokenTTLSeconds"
  shows "kv_Get dec_bool True (unix_sec t) ''revoked_tokens'' jti (revoke_session now s kv) = Inr True"
proof -
  have del: "kv_Get dec_bool True (unix_sec t) ''revoked_tokens'' jti (fst (kv_Delete True ''user_sessions'' k kv)) =
      kv_Get dec_bool True (unix_sec t) ''revoked_tokens'' jti kv" for k kv
    by (auto simp: kv_Delete_def kv_Get_def sql_select_delete)
  show ?thesis
    using assms by (auto simp: revoke_session_def Let_def del kv_Set_def kv_Get_put[OF unix_sec_nonneg[OF assms(1)]])
qed

lemma enforce_keeps:
  assumes "0 \<le> now" "kv_Get dec_bool True (unix_sec t) ''revoked_tokens'' jti kv = Inr True"
    "unix_sec t < unix_sec now + RefreshTokenTTLSeconds"
  shows "kv_Get dec_bool True (unix_sec t) ''revoked_tokens'' jti (enforceSessionLimit now userID kv) = Inr True"
proof -
  have "kv_Get dec_bool True (unix_sec t) ''revoked_tokens'' jti (fold (revoke_session now) ss kv) = Inr True" for ss
    using assms(2) by (induction ss arbitrary: kv) (auto intro: revoke_session_keeps[OF assms(1) _ assms(3)])
  then show ?thesis
    using assms(2) by (simp add: enforceSessionLimit_def Let_def)
qed

definition revoked_at :: "time \<Rightarrow> string \<Rightarrow> auth_kv \<Rightarrow> bool" where
  "revoked_at t jti kv \<longleftrightarrow> kv_Get dec_bool True (unix_sec t) ''revoked_tokens'' jti kv = Inr True"

lemma revoke_refresh_revokes:
  assumes "0 \<le> now" "jti \<noteq> []" "unix_sec t < unix_sec now + RefreshTokenTTLSeconds"
  shows "\<exists>kv'. revoke_refresh now jti (Some kv) = Some kv' \<and> revoked_at t jti kv'"
  using assms(2,3)
  by (auto simp: revoke_refresh_def revoked_at_def kv_Set_def kv_Get_put[OF unix_sec_nonneg[OF assms(1)]]
      RefreshTokenTTLSeconds_def)

lemma revoke_access_keeps:
  assumes "revoked_at t jti kv"
  shows "\<exists>kv'. revokeAccessTokenFromRequest parse j now r (Some kv) = Some kv' \<and> revoked_at t jti kv'"
proof -
  have "revoked_at t jti (fst (RevokeAccessToken (Some \<circ> DRevocation) now a b c kv))" for a b c
    using assms
    by (auto simp: revoked_at_def RevokeAccessToken_def Let_def kv_Set_def kv_Get_def kv_put_def sql_select_upsert)
  then show ?thesis
    using assms by (auto simp: revokeAccessTokenFromRequest_def split: option.splits)
qed

lemma track_keeps:
  assumes "0 \<le> now" "revoked_at t jti kv" "unix_sec t < unix_sec now + RefreshTokenTTLSeconds"
  shows "\<exists>kv'. trackSession parse j now r userID tok (Some kv) = Some kv' \<and> revoked_at t jti kv'"
proof -
  have "revoked_at t jti (fst (kv_Set (Some \<circ> DSession) True (unix_sec now) ''user_sessions'' k s ttl kv))" for k s ttl
    using assms(2) by (auto simp: revoked_at_def kv_Set_def kv_Get_def kv_put_def sql_select_upsert)
  then have "revoked_at t jti (enforceSessionLimit now userID
      (fst (kv_Set (Some \<circ> DSession) True (unix_sec now) ''user_sessions'' k s ttl kv)))" for k s ttl
    unfolding revoked_at_def using enforce_keeps[OF assms(1) _ assms(3)] by blast
  then show ?thesis
    using assms(2) by (auto simp: trackSession_def Let_def split: option.splits)
qed

lemma refresh_success_revokes:
  assumes "Refresh getUser getMembership sign parse j now jti1 jti2 r (Some kv) = (kvo', AuthTokens 200 pair)"
    and "body_or_cookie r = Some tok" "ValidateRefreshToken parse j now tok = Some rt" "rtc_JTI rt \<noteq> []"
    and "0 \<le> now" "unix_sec t < unix_sec now + RefreshTokenTTLSeconds"
  shows "\<exists>kv'. kvo' = Some kv' \<and> revoked_at t (rtc_JTI rt) kv'"
proof -
  obtain kv1 where kv1: "revoke_refresh now (rtc_JTI rt) (Some kv) = Some kv1" "revoked_at t (rtc_JTI rt) kv1"
    using revoke_refresh_revokes[OF assms(5,4,6)] by blast
  obtain kv2 where kv2: "revokeAccessTokenFromRequest parse j now r (Some kv1) = Some kv2" "revoked_at t (rtc_JTI rt) kv2"
    using revoke_access_keeps[OF kv1(2)] by blast
  obtain userID tok' where "kvo' = trackSession parse j now r userID tok' (Some kv2)"
    using assms(1-3) kv1(1) kv2(1) by (auto simp: Refresh_def Let_def split: if_splits option.splits)
  then show ?thesis
    using track_keeps[OF assms(5) kv2(2) assms(6), of parse j r userID tok'] by simp
qed


definition ex_rtok :: "string \<times> jwt_payload" where
  "ex_rtok = ex_sign ''new'' (refresh_payload ex_jwt 0 ''j2'' ''u1'')"


subsection \<open>The session limit\<close>

lemma swap_pass_mset: "swap_pass x xs = (m, zs) \<Longrightarrow> add_mset m (mset zs) = add_mset x (mset xs)"
  by (induction x xs arbitrary: m zs rule: swap_pass.induct) (auto split: if_splits prod.splits)

lemma swap_pass_min:
  "swap_pass x xs = (m, zs) \<Longrightarrow> si_createdAt m \<le> si_createdAt x \<and> (\<forall>z\<in>set zs. si_createdAt m \<le> si_createdAt z)"
  by (induction x xs arbitrary: m zs rule: swap_pass.induct) (fastforce split: if_splits prod.splits)+

lemma sort_sessions_mset: "mset (sort_sessions xs) = mset xs"
  by (induction xs rule: sort_sessions.induct) (auto dest: swap_pass_mset split: prod.splits)

lemma sort_sessions_sorted: "sorted (map si_createdAt (sort_sessions xs))"
proof (induction xs rule: sort_sessions.induct)
  case (2 x xs)
  obtain m zs where sp: "swap_pass x xs = (m, zs)"
    by fastforce
  have "set (sort_sessions zs) = set zs"
    using sort_sessions_mset by (metis set_mset_mset)
  then show ?case
    using 2[OF sp[symmetric]] swap_pass_min[OF sp] sp by auto
qed simp

definition session_keys :: "time \<Rightarrow> auth_kv \<Rightarrow> string list" where
  "session_keys now kv = map row_key (filter (\<lambda>r. row_bucket r = ''user_sessions''
     \<and> (row_expires_at r = 0 \<or> row_expires_at r > unix_sec now)) (kv_rows kv))"

definition session_at :: "time \<Rightarrow> string \<Rightarrow> auth_kv \<Rightarrow> string \<Rightarrow> sessionInfo list" where
  "session_at now userID kv key =
     (if hasPrefix key (userID @ '':'') then
        (case kv_Get dec_session True (unix_sec now) ''user_sessions'' key kv of
           Inl e \<Rightarrow> []
         | Inr s \<Rightarrow> [\<lparr>si_key = key, si_jti = sd_jti s, si_createdAt = sd_created_at s\<rparr>])
      else [])"

lemma user_sessions_alt: "user_sessions_of now userID kv = concat (map (session_at now userID kv) (session_keys now kv))"
  by (auto simp: user_sessions_of_def kv_List_def session_keys_def session_at_def[abs_def] Let_def comp_def)

lemma filter_upsert_other:
  assumes "\<not> P r" "\<And>x. kv_key x = kv_key r \<Longrightarrow> \<not> P x"
  shows "filter P (sql_upsert r rows) = filter P rows"
proof -
  have "filter P (map (\<lambda>x. if kv_key x = kv_key r then r else x) xs) = filter P xs" for xs
    using assms by (induction xs) auto
  then show ?thesis
    using assms(1) by (simp add: sql_upsert_alt)
qed

lemma session_keys_revoke:
  assumes "''user_sessions'' \<in> kv_buckets kv"
  shows "session_keys now (revoke_session t s kv) = filter (\<lambda>k. k \<noteq> si_key s) (session_keys now kv)"
proof -
  let ?P = "\<lambda>r :: auth_doc kvRow. row_bucket r = ''user_sessions''
     \<and> (row_expires_at r = 0 \<or> row_expires_at r > unix_sec now)"
  obtain e where rows: "kv_rows (revoke_session t s kv) =
      sql_delete ''user_sessions'' (si_key s)
        (sql_upsert \<lparr>row_bucket = ''revoked_tokens'', row_key = si_jti s, row_data = DBool True, row_expires_at = e\<rparr>
           (kv_rows kv))"
    using assms by (auto simp: revoke_session_def Let_def kv_Set_def kv_put_def kv_Delete_def bucketExists_def)
  have up: "filter ?P (sql_upsert \<lparr>row_bucket = ''revoked_tokens'', row_key = si_jti s, row_data = DBool True,
      row_expires_at = e\<rparr> xs) = filter ?P xs" for xs
    by (rule filter_upsert_other) (auto simp: kv_key_def)
  have del: "filter ?P (sql_delete ''user_sessions'' (si_key s) xs) =
      filter (\<lambda>r. row_key r \<noteq> si_key s) (filter ?P xs)" for xs
    unfolding sql_delete_def filter_filter by (rule filter_cong) (auto simp: row_is_def)
  show ?thesis
    unfolding session_keys_def rows del up by (simp add: filter_map comp_def)
qed

lemma session_at_revoke:
  assumes "key \<noteq> si_key s" "''user_sessions'' \<in> kv_buckets kv"
  shows "session_at now userID (revoke_session t s kv) key = session_at now userID kv key"
  using assms
  by (simp add: session_at_def kv_Get_def revoke_session_def Let_def kv_Set_def kv_put_def kv_Delete_def
      bucketExists_def sql_select_delete sql_select_upsert)

lemma session_at_keys: "map si_key (session_at now userID kv key) = [] \<or> map si_key (session_at now userID kv key) = [key]"
  unfolding session_at_def
  by (cases "kv_Get dec_session True (unix_sec now) ''user_sessions'' key kv") simp_all

lemma session_at_key:
  assumes "x \<in> set (session_at now userID kv key)"
  shows "si_key x = key"
proof -
  have "si_key x \<in> set (map si_key (session_at now userID kv key))"
    using assms by simp
  then show ?thesis
    using session_at_keys[of now userID kv key] by fastforce
qed

lemma user_sessions_revoke:
  assumes "''user_sessions'' \<in> kv_buckets kv"
  shows "user_sessions_of now userID (revoke_session t s kv) =
    filter (\<lambda>x. si_key x \<noteq> si_key s) (user_sessions_of now userID kv)"
proof -
  have same: "filter (\<lambda>x. si_key x \<noteq> k) (session_at now userID kv key) =
      (if key = k then [] else session_at now userID kv key)" for k key
    using session_at_key by (auto simp: filter_empty_conv intro!: filter_True)
  have "concat (map (session_at now userID (revoke_session t s kv)) (filter (\<lambda>k. k \<noteq> si_key s) ks)) =
      filter (\<lambda>x. si_key x \<noteq> si_key s) (concat (map (session_at now userID kv) ks))" for ks
    by (induction ks) (auto simp: same session_at_revoke assms)
  then show ?thesis
    unfolding user_sessions_alt session_keys_revoke[OF assms] by simp
qed

lemma revoke_session_bucket:
  "''user_sessions'' \<in> kv_buckets kv \<Longrightarrow> ''user_sessions'' \<in> kv_buckets (revoke_session t s kv)"
  by (simp add: revoke_session_def Let_def kv_Set_def kv_put_def kv_Delete_def)

lemma user_sessions_revoke_all:
  assumes "''user_sessions'' \<in> kv_buckets kv"
  shows "user_sessions_of now userID (fold (revoke_session t) ss kv) =
    filter (\<lambda>x. si_key x \<notin> si_key ` set ss) (user_sessions_of now userID kv)"
  using assms
proof (induction ss arbitrary: kv)
  case (Cons s ss)
  have "user_sessions_of now userID (fold (revoke_session t) (s # ss) kv) =
      filter (\<lambda>x. si_key x \<notin> si_key ` set ss) (filter (\<lambda>x. si_key x \<noteq> si_key s) (user_sessions_of now userID kv))"
    by (simp add: Cons(1)[OF revoke_session_bucket[OF Cons(2)]] user_sessions_revoke[OF Cons(2)] del: filter_filter)
  then show ?case
    by (simp add: filter_filter conj_commute)
qed simp

lemma user_sessions_distinct:
  assumes "kv_inv kv"
  shows "distinct (map si_key (user_sessions_of now userID kv))"
proof -
  have "distinct (session_keys now kv)"
    using assms by (auto simp: kv_inv_def session_keys_def distinct_map inj_on_def kv_key_def)
  moreover have "distinct ks \<Longrightarrow> distinct (map si_key (concat (map (session_at now userID kv) ks)))
      \<and> set (map si_key (concat (map (session_at now userID kv) ks))) \<subseteq> set ks" for ks
  proof (induction ks)
    case (Cons k ks)
    then show ?case
      using session_at_keys[of now userID kv k] by (auto dest: session_at_key)
  qed simp
  ultimately show ?thesis
    by (simp add: user_sessions_alt)
qed

lemma user_sessions_bucket:
  assumes "kv_inv kv" "user_sessions_of now userID kv \<noteq> []"
  shows "''user_sessions'' \<in> kv_buckets kv"
proof -
  have "session_keys now kv \<noteq> []"
    using assms(2) by (auto simp: user_sessions_alt)
  then obtain r where "r \<in> set (kv_rows kv)" "row_bucket r = ''user_sessions''"
    by (auto simp: session_keys_def filter_empty_conv)
  then show ?thesis
    using assms(1) by (auto simp: kv_inv_def)
qed

lemma filter_drop_distinct: "distinct xs \<Longrightarrow> filter (\<lambda>x. x \<notin> set (take n xs)) xs = drop n xs"
proof -
  assume "distinct xs"
  then have "set (take n xs) \<inter> set (drop n xs) = {}"
    by (metis append_take_drop_id distinct_append)
  then have "filter (\<lambda>x. x \<notin> set (take n xs)) (take n xs @ drop n xs) = drop n xs"
    unfolding filter_append by (auto simp: filter_empty_conv disjoint_iff filter_id_conv)
  then show ?thesis
    by simp
qed


definition ex_track :: "nat \<Rightarrow> auth_kv \<Rightarrow> auth_kv" where
  "ex_track i kv = fst (kv_Set (Some \<circ> DSession) True 0 ''user_sessions'' (''u1:'' @ itoa (int i))
     \<lparr>sd_user_id = ''u1'', sd_jti = itoa (int i), sd_ip = [], sd_user_agent = [], sd_created_at = int (20 - i)\<rparr>
     RefreshTokenTTLSeconds kv)"

definition ex_sessions :: auth_kv where
  "ex_sessions = fold ex_track [0..<12] NewKVStore"

lemma ex_sessions_inv: "kv_inv ex_sessions"
proof -
  have "kv_inv (NewKVStore :: auth_kv)"
    by (simp add: kv_inv_def NewKVStore_def initSchema_def)
  moreover have "kv_inv kv \<Longrightarrow> kv_inv (fold ex_track is kv)" for "is" kv
    by (induction "is" arbitrary: kv) (simp_all add: ex_track_def kv_Set_def kv_inv_put)
  ultimately show ?thesis
    by (simp add: ex_sessions_def)
qed

lemma ex_sessions_count: "length (user_sessions_of 0 ''u1'' ex_sessions) = 12"
  by code_simp


end
