(* ===== verification/Access_Control.thy ===== *)
theory Access_Control
  imports Jwt_Service Event_Bus
begin

text \<open>
  Authentication and authorization of requests: \<open>RequireAuth\<close>, \<open>CORS\<close>
  (\<open>internal/api/middleware/middleware.go\<close>), \<open>CSRFProtect\<close> (\<open>csrf.go\<close>), the IP allowlist
  (\<open>ip_allowlist.go\<close>), role and permission checks (\<open>admin.go\<close>, \<open>internal/auth/rbac.go\<close>,
  \<open>internal/core/store.go\<close>) and the lookup of API keys (\<open>internal/db/kv.go\<close>).

  Arguments stand for what is not in the sources: the JWT library (\<open>parse\<close>), bcrypt
  (\<open>verifyKey\<close>), CIDR parsing and containment. JSON decoding of stored documents is an argument as
  in \<open>KV_Store\<close>. The store of users and roles is the interface \<open>core.Store\<close>.
\<close>

subsection \<open>API keys\<close>

record apiKeyKVRecord =
  ak_ID :: string
  ak_UserID :: string
  ak_TenantID :: string
  ak_Name :: string
  ak_KeyHash :: string
  ak_KeyPrefix :: string
  ak_Scopes :: string
  ak_Prefix :: string
  ak_Hash :: string
  ak_CreatedBy :: string
  ak_ExpiresAt :: "time option"
  ak_CreatedAt :: time

record APIKey =
  key_ID :: string
  key_UserID :: string
  key_TenantID :: string
  key_Name :: string
  key_KeyHash :: string
  key_KeyPrefix :: string
  key_ScopesJSON :: string
  key_ExpiresAt :: "time option"
  key_CreatedAt :: time

definition or_else :: "string \<Rightarrow> string \<Rightarrow> string" where
  "or_else a b = (if a = [] then b else a)"

definition decodeAPIKeyRecord ::
  "('j \<Rightarrow> 'j option) \<Rightarrow> ('j \<Rightarrow> apiKeyKVRecord option) \<Rightarrow> 'j \<Rightarrow> APIKey option" where
  "decodeAPIKeyRecord legacy dec raw =
     (case dec (case legacy raw of Some inner \<Rightarrow> inner | None \<Rightarrow> raw) of
        None \<Rightarrow> None
      | Some rec \<Rightarrow>
          let keyHash = or_else (ak_KeyHash rec) (ak_Hash rec);
              keyPrefix = or_else (ak_KeyPrefix rec) (ak_Prefix rec);
              userID = or_else (ak_UserID rec) (ak_CreatedBy rec)
          in if keyPrefix = [] \<or> userID = [] then None
             else Some \<lparr>key_ID = or_else (ak_ID rec) keyPrefix, key_UserID = userID, key_TenantID = ak_TenantID rec,
                        key_Name = or_else (ak_Name rec) keyPrefix, key_KeyHash = keyHash, key_KeyPrefix = keyPrefix,
                        key_ScopesJSON = ak_Scopes rec, key_ExpiresAt = ak_ExpiresAt rec, key_CreatedAt = ak_CreatedAt rec\<rparr>)"

fun first_with_prefix :: "('j \<Rightarrow> APIKey option) \<Rightarrow> string \<Rightarrow> 'j kvRow list \<Rightarrow> APIKey option" where
  "first_with_prefix dec prefix [] = None"
| "first_with_prefix dec prefix (r # rs) =
     (case dec (row_data r) of
        None \<Rightarrow> first_with_prefix dec prefix rs
      | Some k \<Rightarrow> if key_KeyPrefix k = prefix then Some k else first_with_prefix dec prefix rs)"

definition GetAPIKeyByPrefix ::
  "('j \<Rightarrow> 'j option) \<Rightarrow> ('j \<Rightarrow> apiKeyKVRecord option) \<Rightarrow> string \<Rightarrow> 'j KVStore \<Rightarrow> APIKey option" where
  "GetAPIKeyByPrefix legacy dec prefix kv =
     first_with_prefix (decodeAPIKeyRecord legacy dec) prefix
       (filter (\<lambda>r. row_bucket r = ''api_keys'') (kv_rows kv))"

definition GetWebhookSecret :: "('j \<Rightarrow> 'j option) \<Rightarrow> ('j \<Rightarrow> string option) \<Rightarrow> string \<Rightarrow> 'j KVStore \<Rightarrow> string option" where
  "GetWebhookSecret legacy dec webhookID kv =
     (case sql_select ''webhooks'' webhookID (kv_rows kv) of
        None \<Rightarrow> None
      | Some row \<Rightarrow>
          (case dec (case legacy (row_data row) of Some inner \<Rightarrow> inner | None \<Rightarrow> row_data row) of
             None \<Rightarrow> None
           | Some secretHash \<Rightarrow> if secretHash = [] then None else Some secretHash))"

definition APIKeyPrefixLength :: nat where
  "APIKeyPrefixLength = length ''dm_'' + 12"

record APIKeyPair =
  kp_Key :: string
  kp_Hash :: string
  kp_Prefix :: string

text \<open>\<open>GenerateAPIKey\<close>: \<open>hex\<close> is the hexadecimal form of the 32 random bytes, \<open>hash\<close> is bcrypt.\<close>

definition GenerateAPIKey :: "(string \<Rightarrow> string option) \<Rightarrow> string \<Rightarrow> APIKeyPair option" where
  "GenerateAPIKey hash hex =
     (let key = ''dm_'' @ hex
      in case hash key of
           None \<Rightarrow> None
         | Some h \<Rightarrow> Some \<lparr>kp_Key = key, kp_Hash = h, kp_Prefix = take APIKeyPrefixLength key\<rparr>)"

subsection \<open>RequireAuth\<close>

definition validateJWTAndServe ::
  "(string \<Rightarrow> time \<Rightarrow> string \<Rightarrow> jwt_payload option) \<Rightarrow> ('j \<Rightarrow> AccessTokenRevocation option) \<Rightarrow>
   JWTService \<Rightarrow> 'j KVStore option \<Rightarrow> time \<Rightarrow> string \<Rightarrow> Request \<Rightarrow> Request verdict" where
  "validateJWTAndServe parse decRev j kvo now tokenStr r =
     (case ValidateAccessToken parse j now tokenStr of
        None \<Rightarrow> Refuse 401 ''invalid token''
      | Some claims \<Rightarrow>
          if IsAccessTokenRevoked decRev now (cl_ID claims) kvo then Refuse 401 ''token has been revoked''
          else Serve (r\<lparr>rq_Claims := Some claims\<rparr>))"

record membership =
  mb_TenantID :: string
  mb_RoleID :: string

definition api_key_claims :: "(string \<Rightarrow> membership option) option \<Rightarrow> APIKey \<Rightarrow> Claims" where
  "api_key_claims getMembership k =
     (let base = \<lparr>cl_ID = [], cl_UserID = key_UserID k, cl_TenantID = key_TenantID k, cl_RoleID = [],
                  cl_Email = [], cl_ExpiresAt = 0\<rparr>
      in case getMembership of
           None \<Rightarrow> base
         | Some f \<Rightarrow>
             (case f (key_UserID k) of
                None \<Rightarrow> base
              | Some m \<Rightarrow>
                  base\<lparr>cl_RoleID := mb_RoleID m,
                       cl_TenantID := (if key_TenantID k = [] then mb_TenantID m else key_TenantID k)\<rparr>))"

definition api_key_auth ::
  "('j \<Rightarrow> 'j option) \<Rightarrow> ('j \<Rightarrow> apiKeyKVRecord option) \<Rightarrow> (string \<Rightarrow> string \<Rightarrow> bool) \<Rightarrow>
   (string \<Rightarrow> membership option) option \<Rightarrow> 'j KVStore option \<Rightarrow> time \<Rightarrow> string \<Rightarrow> Request \<Rightarrow> Request verdict" where
  "api_key_auth legacy decKey verifyKey getMembership kvo now apiKey r =
     (if \<not> hasPrefix apiKey ''dm_'' then Refuse 401 ''invalid api key format''
      else if length apiKey < APIKeyPrefixLength then Refuse 401 ''invalid api key''
      else case kvo of
        None \<Rightarrow> Refuse 401 ''api key authentication not available''
      | Some kv \<Rightarrow>
          (case GetAPIKeyByPrefix legacy decKey (take APIKeyPrefixLength apiKey) kv of
             None \<Rightarrow> Refuse 401 ''invalid api key''
           | Some stored \<Rightarrow>
               if \<not> verifyKey apiKey (key_KeyHash stored) then Refuse 401 ''invalid api key''
               else if (case key_ExpiresAt stored of None \<Rightarrow> False | Some e \<Rightarrow> now > e)
                    then Refuse 401 ''api key expired''
               else Serve (r\<lparr>rq_Claims := Some (api_key_claims getMembership stored)\<rparr>)))"

definition RequireAuth ::
  "(string \<Rightarrow> time \<Rightarrow> string \<Rightarrow> jwt_payload option) \<Rightarrow> ('j \<Rightarrow> AccessTokenRevocation option) \<Rightarrow>
   ('j \<Rightarrow> 'j option) \<Rightarrow> ('j \<Rightarrow> apiKeyKVRecord option) \<Rightarrow> (string \<Rightarrow> string \<Rightarrow> bool) \<Rightarrow>
   (string \<Rightarrow> membership option) option \<Rightarrow> JWTService \<Rightarrow> 'j KVStore option \<Rightarrow> time \<Rightarrow> Request \<Rightarrow> Request verdict" where
  "RequireAuth parse decRev legacy decKey verifyKey getMembership j kvo now r =
     (let header = rq_Header r ''Authorization''; apiKey = rq_Header r ''X-Api-Key''
      in if hasPrefix header ''Bearer '' then
           validateJWTAndServe parse decRev j kvo now (drop (length ''Bearer '') header) r
         else case rq_Cookie r ''dm_access'' of
           Some (c # cs) \<Rightarrow> validateJWTAndServe parse decRev j kvo now (c # cs) r
         | _ \<Rightarrow>
             if apiKey \<noteq> [] then api_key_auth legacy decKey verifyKey getMembership kvo now apiKey r
             else Refuse 401 ''missing authorization - use Bearer token or X-API-Key'')"

subsection \<open>CSRFProtect\<close>

definition hasCookie :: "Request \<Rightarrow> string \<Rightarrow> bool" where
  "hasCookie r name \<longleftrightarrow> (case rq_Cookie r name of None \<Rightarrow> False | Some v \<Rightarrow> v \<noteq> [])"

fun first_cookie :: "Request \<Rightarrow> string list \<Rightarrow> string" where
  "first_cookie r [] = []"
| "first_cookie r (n # rest) = (if hasCookie r n then the (rq_Cookie r n) else first_cookie r rest)"

definition csrfCookieValue :: "Request \<Rightarrow> string" where
  "csrfCookieValue r = first_cookie r [''__Host-dm_csrf'', ''dm_csrf'']"

definition safe_method :: "string \<Rightarrow> bool" where
  "safe_method m \<longleftrightarrow> m = ''GET'' \<or> m = ''HEAD'' \<or> m = ''OPTIONS''"

definition CSRFProtect :: "Request \<Rightarrow> Request verdict" where
  "CSRFProtect r =
     (if safe_method (rq_Method r) then Serve r
      else if rq_Header r ''Authorization'' \<noteq> [] \<or> rq_Header r ''X-Api-Key'' \<noteq> [] then Serve r
      else
        let cookieValue = csrfCookieValue r; headerToken = rq_Header r ''X-Csrf-Token''
        in if cookieValue = [] then
             (if hasCookie r ''dm_access'' \<or> hasCookie r ''dm_refresh'' then Refuse 403 ''CSRF token required''
              else Serve r)
           else if headerToken = [] \<or> length headerToken \<noteq> length cookieValue \<or> headerToken \<noteq> cookieValue
                then Refuse 403 ''CSRF token mismatch''
           else Serve r)"

definition csrf_cookie_name :: "bool \<Rightarrow> Request option \<Rightarrow> string" where
  "csrf_cookie_name tls r =
     (let secure = (case r of None \<Rightarrow> False | Some q \<Rightarrow> tls \<or> rq_Header q ''X-Forwarded-Proto'' = ''https'')
      in if secure then ''__Host-dm_csrf'' else ''dm_csrf'')"

subsection \<open>Roles and permissions\<close>

definition requireRole :: "string set \<Rightarrow> Request \<Rightarrow> Request verdict" where
  "requireRole allowed r =
     (case rq_Claims r of
        None \<Rightarrow> Refuse 401 ''authentication required''
      | Some c \<Rightarrow> if cl_RoleID c \<notin> allowed then Refuse 403 ''insufficient privileges'' else Serve r)"

definition RequireSuperAdmin :: "Request \<Rightarrow> Request verdict" where
  "RequireSuperAdmin r = requireRole {''role_super_admin''} r"

definition perm_covers :: "string \<Rightarrow> string \<Rightarrow> bool" where
  "perm_covers permission p \<longleftrightarrow>
     p = ''*'' \<or> p = permission
     \<or> (case cutSuffix p ''.*'' of (prefix, ok) \<Rightarrow>
          ok \<and> length permission > length prefix \<and> take (length prefix) permission = prefix
          \<and> permission ! length prefix = CHR ''.'')"

text \<open>\<open>Role.HasPermission\<close>: \<open>dec\<close> decodes the JSON list of permissions.\<close>

definition HasPermission :: "(string \<Rightarrow> string list option) \<Rightarrow> string \<Rightarrow> string \<Rightarrow> bool" where
  "HasPermission dec permissionsJSON permission =
     (if permissionsJSON = [] then False
      else case dec permissionsJSON of
             None \<Rightarrow> False
           | Some perms \<Rightarrow> list_ex (perm_covers permission) perms)"

definition RequirePermission ::
  "(string \<Rightarrow> string list option) \<Rightarrow> (string \<Rightarrow> string option) \<Rightarrow> string \<Rightarrow> Request \<Rightarrow> Request verdict" where
  "RequirePermission dec getRole permission r =
     (case rq_Claims r of
        None \<Rightarrow> Refuse 401 ''authentication required''
      | Some c \<Rightarrow>
          (case getRole (cl_RoleID c) of
             None \<Rightarrow> Refuse 403 ''role not found''
           | Some permissionsJSON \<Rightarrow>
               if \<not> HasPermission dec permissionsJSON permission
               then Refuse 403 (''missing permission: '' @ permission) else Serve r))"

definition RoleLevel :: "string \<Rightarrow> int" where
  "RoleLevel roleID =
     (if roleID = ''role_super_admin'' then 6
      else if roleID = ''role_owner'' then 5
      else if roleID = ''role_admin'' then 4
      else if roleID = ''role_developer'' then 3
      else if roleID = ''role_operator'' then 2
      else if roleID = ''role_viewer'' then 1
      else 3)"

definition CanAssignRole :: "string \<Rightarrow> string \<Rightarrow> bool" where
  "CanAssignRole inviterRoleID targetRoleID \<longleftrightarrow> RoleLevel targetRoleID \<le> RoleLevel inviterRoleID"

subsection \<open>IP allowlist and CORS\<close>

definition NewIPAllowlist :: "(string \<Rightarrow> 'c option) \<Rightarrow> string list \<Rightarrow> 'c list" where
  "NewIPAllowlist parseCIDR cidrs =
     List.map_filter parseCIDR (filter (\<lambda>c. c \<noteq> []) (map trimSpace cidrs))"

definition IPAllowlist_Middleware ::
  "ip_parser \<Rightarrow> ('c \<Rightarrow> ip_addr \<Rightarrow> bool) \<Rightarrow> 'c list \<Rightarrow> Request \<Rightarrow> Request verdict" where
  "IPAllowlist_Middleware parseIP cidrContains allowed r =
     (if allowed = [] then Serve r
      else case parseIP (safeClientIP parseIP r False) of
        None \<Rightarrow> Refuse 403 ''access denied''
      | Some ip \<Rightarrow> if list_ex (\<lambda>c. cidrContains c ip) allowed then Serve r else Refuse 403 ''access denied'')"

definition parseCORSOrigins :: "string \<Rightarrow> string list" where
  "parseCORSOrigins s = (if s = [] then [] else filter (\<lambda>v. v \<noteq> []) (map trimSpace (splitOn (CHR '','') s)))"

definition originAllowed :: "string \<Rightarrow> string list \<Rightarrow> bool" where
  "originAllowed origin allowlist \<longleftrightarrow> list_ex (\<lambda>a. a = origin) allowlist"

definition CORS_origin_headers :: "string \<Rightarrow> Request \<Rightarrow> (string \<times> string) list" where
  "CORS_origin_headers allowedOrigins r =
     (let origins = parseCORSOrigins allowedOrigins;
          publicMode = (origins = [] \<or> origins = [''*'']);
          origin = rq_Header r ''Origin''
      in if publicMode then [(''Access-Control-Allow-Origin'', ''*'')]
         else if origin \<noteq> [] \<and> originAllowed origin origins
              then [(''Access-Control-Allow-Origin'', origin), (''Access-Control-Allow-Credentials'', ''true'')]
         else [])"

subsection \<open>Authentication is sound\<close>

lemma first_with_prefix_Some:
  "first_with_prefix dec p rows = Some k \<Longrightarrow> key_KeyPrefix k = p \<and> (\<exists>r\<in>set rows. dec (row_data r) = Some k)"
  by (induction rows) (auto split: option.splits if_splits)

lemma validate_serve_iff:
  "validateJWTAndServe parse decRev j kvo now tok r = Serve r' \<longleftrightarrow>
     (\<exists>c. ValidateAccessToken parse j now tok = Some c \<and> \<not> IsAccessTokenRevoked decRev now (cl_ID c) kvo
        \<and> r' = r\<lparr>rq_Claims := Some c\<rparr>)"
  by (auto simp: validateJWTAndServe_def split: option.splits)

definition jwt_credential :: "Request \<Rightarrow> string option" where
  "jwt_credential r =
     (if hasPrefix (rq_Header r ''Authorization'') ''Bearer ''
      then Some (drop (length ''Bearer '') (rq_Header r ''Authorization''))
      else if hasCookie r ''dm_access'' then rq_Cookie r ''dm_access'' else None)"

lemma require_auth_cases:
  "RequireAuth parse decRev legacy decKey verifyKey getMembership j kvo now r =
     (case jwt_credential r of
        Some tok \<Rightarrow> validateJWTAndServe parse decRev j kvo now tok r
      | None \<Rightarrow>
          if rq_Header r ''X-Api-Key'' \<noteq> []
          then api_key_auth legacy decKey verifyKey getMembership kvo now (rq_Header r ''X-Api-Key'') r
          else Refuse 401 ''missing authorization - use Bearer token or X-API-Key'')"
  by (auto simp: RequireAuth_def jwt_credential_def hasCookie_def Let_def split: option.splits list.splits)

lemma api_key_auth_serve:
  assumes "api_key_auth legacy decKey verifyKey getMembership kvo now apiKey r = Serve r'"
  shows "\<exists>kv k row. kvo = Some kv \<and> row \<in> set (kv_rows kv) \<and> row_bucket row = ''api_keys''
    \<and> decodeAPIKeyRecord legacy decKey (row_data row) = Some k
    \<and> key_KeyPrefix k = take APIKeyPrefixLength apiKey \<and> verifyKey apiKey (key_KeyHash k)
    \<and> (\<forall>e. key_ExpiresAt k = Some e \<longrightarrow> now \<le> e)
    \<and> r' = r\<lparr>rq_Claims := Some (api_key_claims getMembership k)\<rparr>"
proof -
  obtain kv k where "kvo = Some kv" "GetAPIKeyByPrefix legacy decKey (take APIKeyPrefixLength apiKey) kv = Some k"
    "verifyKey apiKey (key_KeyHash k)" "\<forall>e. key_ExpiresAt k = Some e \<longrightarrow> now \<le> e"
    "r' = r\<lparr>rq_Claims := Some (api_key_claims getMembership k)\<rparr>"
    using assms by (auto simp: api_key_auth_def split: if_splits option.splits)
  then show ?thesis
    using first_with_prefix_Some[of "decodeAPIKeyRecord legacy decKey" "take APIKeyPrefixLength apiKey"]
    unfolding GetAPIKeyByPrefix_def by fastforce
qed


definition ex_claims_parse :: "string \<Rightarrow> time \<Rightarrow> string \<Rightarrow> jwt_payload option" where
  "ex_claims_parse k now tok =
     (if tok = ''good'' then Some (access_payload ex_jwt 0 ''j1'' ''u'' ''t'' ''r'' ''e'') else None)"

lemma ex_bearer_serve:
  "RequireAuth ex_claims_parse (\<lambda>_ :: nat. None) (\<lambda>_. None) (\<lambda>_. None) (\<lambda>_ _. False) None ex_jwt None 5
     (ex_request ((\<lambda>_. [])(''Authorization'' := ''Bearer good'')))
   = Serve ((ex_request ((\<lambda>_. [])(''Authorization'' := ''Bearer good'')))\<lparr>rq_Claims := Some (claims_of 900 ''j1'' ''u'' ''t'' ''r'' ''e'')\<rparr>)"
  by (simp add: RequireAuth_def ex_request_def hasPrefix_def validateJWTAndServe_def ValidateAccessToken_def
      allKeys_def purgeExpiredPreviousKeys_def ex_jwt_def ex_claims_parse_def IsAccessTokenRevoked_def
      access_payload_def claims_of_def unix_sec_def ns_def Let_def)


subsection \<open>Cross-site requests\<close>


definition ex_cookie_request :: Request where
  "ex_cookie_request = (ex_request ((\<lambda>_. [])(''X-Csrf-Token'' := ''tok'')))
     \<lparr>rq_Cookie := [''dm_access'' \<mapsto> ''good'', ''dm_csrf'' \<mapsto> ''tok'']\<rparr>"


subsection \<open>Authorization\<close>

text \<open>
  A permission check passes exactly when it should: RequirePermission serves a request if and only if
  its claims name a role that exists and whose decoded list has "*", the permission itself, or "p.*"
  for a p followed by a dot in the permission; in every other case the request is refused with 401 when
  there are no claims and 403 otherwise.
\<close>

theorem permission_check_exact:
  "RequirePermission dec getRole permission r =
     (case rq_Claims r of
        None \<Rightarrow> Refuse 401 ''authentication required''
      | Some c \<Rightarrow>
          (case getRole (cl_RoleID c) of
             None \<Rightarrow> Refuse 403 ''role not found''
           | Some js \<Rightarrow>
               if js \<noteq> [] \<and> (\<exists>perms p. dec js = Some perms \<and> p \<in> set perms
                    \<and> (p = ''*'' \<or> p = permission \<or> (\<exists>q rest. p = q @ ''.*'' \<and> permission = q @ ''.'' @ rest)))
               then Serve r else Refuse 403 (''missing permission: '' @ permission)))"
proof -
  have covers: "perm_covers permission p \<longleftrightarrow>
      p = ''*'' \<or> p = permission \<or> (\<exists>q rest. p = q @ ''.*'' \<and> permission = q @ ''.'' @ rest)" for p
    using sub_matches_iff[of permission "\<lparr>sub_ID = [], sub_EventType = p, sub_Name = [], sub_Async = False\<rparr>"]
    by (auto simp: perm_covers_def sub_matches_def)
  show ?thesis
    unfolding RequirePermission_def HasPermission_def list_ex_iff covers
    by (auto split: option.splits)
qed

text \<open>Credentials are only ever allowed to an origin of the configured list.\<close>

lemma cors_credentials:
  assumes "(''Access-Control-Allow-Credentials'', v) \<in> set (CORS_origin_headers allowed r)"
  shows "rq_Header r ''Origin'' \<in> set (parseCORSOrigins allowed)
    \<and> (''Access-Control-Allow-Origin'', rq_Header r ''Origin'') \<in> set (CORS_origin_headers allowed r)
    \<and> (''Access-Control-Allow-Origin'', ''*'') \<notin> set (CORS_origin_headers allowed r) - {(''Access-Control-Allow-Origin'', rq_Header r ''Origin'')}"
  using assms by (auto simp: CORS_origin_headers_def originAllowed_def list_ex_iff Let_def split: if_splits)

text \<open>An allowlist whose every entry is malformed admits everybody.\<close>

lemma allowlist_fails_open:
  assumes "\<forall>c\<in>set cidrs. parseCIDR (trimSpace c) = None"
  shows "IPAllowlist_Middleware parseIP cidrContains (NewIPAllowlist parseCIDR cidrs) r = Serve r"
proof -
  have "NewIPAllowlist parseCIDR cidrs = []"
    using assms by (auto simp: NewIPAllowlist_def List.map_filter_def filter_empty_conv)
  then show ?thesis
    by (simp add: IPAllowlist_Middleware_def)
qed

lemma assign_role_no_escalation:
  "CanAssignRole a b \<Longrightarrow> CanAssignRole b c \<Longrightarrow> CanAssignRole a c"
  by (simp add: CanAssignRole_def)

end
