(* ===== verification/Load_Balancer.thy ===== *)
theory Load_Balancer
  imports Http "HOL-Library.Word"
begin

text \<open>
  The load balancing strategies of \<open>internal/ingress/lb\<close> (\<open>balancer.go\<close>, \<open>weighted.go\<close>).

  A strategy is its state and a \<open>Next\<close> that picks a backend. The counters of \<open>RoundRobin\<close> and
  \<open>Random\<close> are \<open>uint64\<close>, the hash is \<open>uint32\<close>; both are kept at their width. Indexing an empty
  pool panics in the first, third and fourth strategy; the models are used on non-empty pools. A Go
  map of integers is a function with default zero; a map of weights is a partial function, since the
  code asks whether a weight is set.
\<close>

subsection \<open>Round robin\<close>

definition RoundRobin_Next :: "64 word \<Rightarrow> string list \<Rightarrow> 64 word \<times> string" where
  "RoundRobin_Next counter backends =
     (let counter1 = counter + 1; idx = counter1 - 1
      in (counter1, backends ! unat (idx mod of_nat (length backends))))"

subsection \<open>Least connections\<close>

definition MaxInt64 :: int where
  "MaxInt64 = 2 ^ 63 - 1"

fun least_loop :: "(string \<Rightarrow> int) \<Rightarrow> string list \<Rightarrow> string \<Rightarrow> int \<Rightarrow> string" where
  "least_loop conns [] best bestCount = best"
| "least_loop conns (b # bs) best bestCount =
     (if conns b < bestCount then least_loop conns bs b (conns b) else least_loop conns bs best bestCount)"

definition LeastConn_Next :: "(string \<Rightarrow> int) \<Rightarrow> string list \<Rightarrow> (string \<Rightarrow> int) \<times> string" where
  "LeastConn_Next conns backends =
     (let best = least_loop conns backends [] MaxInt64 in (conns(best := conns best + 1), best))"

definition LeastConn_Release :: "string \<Rightarrow> (string \<Rightarrow> int) \<Rightarrow> (string \<Rightarrow> int)" where
  "LeastConn_Release backend conns =
     (if conns backend > 0 then conns(backend := conns backend - 1) else conns)"

subsection \<open>Hashing\<close>

definition fnv32a :: "bytes \<Rightarrow> 32 word" where
  "fnv32a s = fold (\<lambda>c h. (xor h (of_nat (of_char c))) * 16777619) s 2166136261"

definition parseXFF :: "ip_parser \<Rightarrow> string \<Rightarrow> string" where
  "parseXFF parseIP raw =
     (if raw = [] then []
      else case parseIP (trimSpace (trimSpace (hd (splitOn (CHR '','') raw)))) of
             None \<Rightarrow> [] | Some ip \<Rightarrow> ip_string ip)"

definition IPHash_Next :: "ip_parser \<Rightarrow> string list \<Rightarrow> Request \<Rightarrow> string" where
  "IPHash_Next parseIP backends r =
     (let raw = rq_Header r ''X-Forwarded-For'';
          sanitized = parseXFF parseIP raw;
          ip = (if raw \<noteq> [] \<and> sanitized \<noteq> [] then sanitized else rq_RemoteAddr r)
      in backends ! unat (fnv32a ip mod of_nat (length backends)))"

definition Random_Next :: "64 word \<Rightarrow> string list \<Rightarrow> Request \<Rightarrow> 64 word \<times> string" where
  "Random_Next counter backends r =
     (let counter1 = counter + 1;
          sum = (ucast (fnv32a (rq_RemoteAddr r)) :: 64 word) + counter1
      in (counter1, backends ! unat (sum mod of_nat (length backends))))"

subsection \<open>Smooth weighted round robin\<close>

record Weighted =
  wt_weights :: "string \<rightharpoonup> int"
  wt_current :: "string \<Rightarrow> int"

definition NewWeighted :: Weighted where
  "NewWeighted = \<lparr>wt_weights = Map.empty, wt_current = (\<lambda>_. 0)\<rparr>"

definition SetWeight :: "string \<Rightarrow> int \<Rightarrow> Weighted \<Rightarrow> Weighted" where
  "SetWeight backend weight w =
     (let weight1 = (if weight < 0 then 0 else weight)
      in w\<lparr>wt_weights := (wt_weights w)(backend \<mapsto> weight1), wt_current := (wt_current w)(backend := 0)\<rparr>)"

definition SetWeights :: "(string \<rightharpoonup> int) \<Rightarrow> Weighted \<Rightarrow> Weighted" where
  "SetWeights weights w =
     w\<lparr>wt_weights := (\<lambda>b. map_option (\<lambda>x. if x < 0 then 0 else x) (weights b)), wt_current := (\<lambda>_. 0)\<rparr>"

definition Weight :: "Weighted \<Rightarrow> string \<Rightarrow> int" where
  "Weight w backend = (case wt_weights w backend of Some x \<Rightarrow> x | None \<Rightarrow> 1)"

fun wrr_loop ::
  "Weighted \<Rightarrow> string list \<Rightarrow> (string \<Rightarrow> int) \<Rightarrow> string \<Rightarrow> int \<Rightarrow> bool \<Rightarrow> (string \<Rightarrow> int) \<times> string" where
  "wrr_loop w [] cur best bestCur first = (cur, best)"
| "wrr_loop w (b # bs) cur best bestCur first =
     (if Weight w b = 0 then wrr_loop w bs cur best bestCur first
      else
        let cur1 = cur(b := cur b + Weight w b)
        in if first \<or> cur1 b > bestCur then wrr_loop w bs cur1 b (cur1 b) False
           else wrr_loop w bs cur1 best bestCur first)"

definition Weighted_Next :: "Weighted \<Rightarrow> string list \<Rightarrow> Weighted \<times> string" where
  "Weighted_Next w backends =
     (if backends = [] then (w, [])
      else
        let total = sum_list (map (Weight w) backends)
        in if total = 0 then (w, backends ! 0)
           else
             (case wrr_loop w backends (wt_current w) [] 0 True of
                (cur, best) \<Rightarrow>
                  if best = [] then (w\<lparr>wt_current := cur\<rparr>, backends ! 0)
                  else (w\<lparr>wt_current := cur(best := cur best - total)\<rparr>, best)))"

datatype strategy_name = SLeastConn | SIPHash | SRandom | SWeighted | SRoundRobin

definition lb_New :: "string \<Rightarrow> strategy_name" where
  "lb_New name =
     (if name = ''least-conn'' \<or> name = ''leastconn'' then SLeastConn
      else if name = ''ip-hash'' \<or> name = ''iphash'' then SIPHash
      else if name = ''random'' then SRandom
      else if name = ''weighted'' then SWeighted
      else SRoundRobin)"

subsection \<open>The contract of a strategy\<close>

locale lb_strategy =
  fixes nxt :: "'s \<Rightarrow> string list \<Rightarrow> Request \<Rightarrow> 's \<times> string"
    and ok :: "'s \<Rightarrow> string list \<Rightarrow> bool"
  assumes picks_member: "backends \<noteq> [] \<Longrightarrow> ok s backends \<Longrightarrow> snd (nxt s backends r) \<in> set backends"
begin

lemma single_backend: "ok s [b] \<Longrightarrow> snd (nxt s [b] r) = b"
  using picks_member[of "[b]" s r] by simp

lemma never_removed: "backends \<noteq> [] \<Longrightarrow> ok s backends \<Longrightarrow> b \<notin> set backends \<Longrightarrow> snd (nxt s backends r) \<noteq> b"
  using picks_member by blast

end

lemma mod_index: "n > 0 \<Longrightarrow> n < 2 ^ LENGTH('a) \<Longrightarrow> unat ((x :: 'a::len word) mod of_nat n) < n"
  by (simp add: unat_mod_distrib take_bit_nat_eq_self unsigned_of_nat)

definition pool_ok :: "'s \<Rightarrow> string list \<Rightarrow> bool" where
  "pool_ok s backends \<longleftrightarrow> length backends < 2 ^ 32"

interpretation round_robin: lb_strategy "\<lambda>s bs r. RoundRobin_Next s bs" pool_ok
  by unfold_locales (auto simp: RoundRobin_Next_def Let_def pool_ok_def intro!: nth_mem mod_index)

interpretation ip_hash: lb_strategy "\<lambda>s bs r. (s, IPHash_Next parseIP bs r)" pool_ok for parseIP
  by unfold_locales (auto simp: IPHash_Next_def Let_def pool_ok_def intro!: nth_mem mod_index)

interpretation rand: lb_strategy Random_Next pool_ok
  by unfold_locales (auto simp: Random_Next_def Let_def pool_ok_def intro!: nth_mem mod_index)

lemma least_loop_spec:
  "(\<exists>b\<in>set bs. conns b < bestCount) \<Longrightarrow>
     least_loop conns bs best bestCount \<in> set bs \<and> conns (least_loop conns bs best bestCount) < bestCount
     \<and> (\<forall>b\<in>set bs. conns (least_loop conns bs best bestCount) \<le> conns b)"
  "\<not> (\<exists>b\<in>set bs. conns b < bestCount) \<Longrightarrow> least_loop conns bs best bestCount = best"
proof (induction bs arbitrary: best bestCount)
  case (Cons b bs)
  {
    case 1
    show ?case
    proof (cases "conns b < bestCount")
      case True
      then show ?thesis
        using Cons(1)[of "conns b" b] Cons(2)[of "conns b" b]
        by (cases "\<exists>b'\<in>set bs. conns b' < conns b") (auto simp: not_less dest: order_trans)
    next
      case False
      then show ?thesis
        using Cons(1)[of bestCount best] 1 by auto
    qed
  next
    case 2
    then show ?case
      using Cons(2)[of bestCount best] by auto
  }
qed auto

interpretation least_conn: lb_strategy "\<lambda>s bs r. LeastConn_Next s bs" "\<lambda>s bs. \<exists>b\<in>set bs. s b < MaxInt64"
  by unfold_locales (simp add: LeastConn_Next_def Let_def least_loop_spec(1))

text \<open>
  LeastConn counts and balances: while counts are below the largest int64, Next picks a member of the
  pool with the fewest connections among its members and increases that member's count by one; a Release
  of the picked backend restores all counts.
\<close>

theorem least_conn_minimal:
  assumes "\<exists>b\<in>set backends. conns b < MaxInt64" "\<forall>b. 0 \<le> conns b"
  shows "case LeastConn_Next conns backends of (conns', b) \<Rightarrow>
    b \<in> set backends \<and> (\<forall>x\<in>set backends. conns b \<le> conns x) \<and> conns' = conns(b := conns b + 1)
    \<and> LeastConn_Release b conns' = conns"
proof -
  have "0 < conns (least_loop conns backends [] MaxInt64) + 1"
    using assms(2) by (simp add: add_strict_increasing zero_less_one order_le_less_trans)
  then show ?thesis
    using least_loop_spec(1)[OF assms(1), of "[]"] by (auto simp: LeastConn_Next_def LeastConn_Release_def Let_def)
qed

theorem least_conn_minimal_witness:
  "snd (LeastConn_Next (\<lambda>b. if b = ''a'' then 2 else 1) [''a'', ''b'']) = ''b''"
proof -
  let ?conns = "(\<lambda>b. if b = ''a'' then 2 else 1) :: string \<Rightarrow> int"
  have "\<exists>b\<in>set [''a'', ''b'']. ?conns b < MaxInt64" "\<forall>b. 0 \<le> ?conns b"
    by (simp_all add: MaxInt64_def)
  from least_conn_minimal[OF this] show ?thesis
    by (auto split: prod.splits if_splits)
qed

subsection \<open>Fairness of the weighted strategy\<close>

definition heavy :: "Weighted \<Rightarrow> string list \<Rightarrow> string set" where
  "heavy w bs = {b \<in> set bs. Weight w b \<noteq> 0}"

lemma heavy_Cons: "heavy w (b # bs) = (if Weight w b = 0 then heavy w bs else insert b (heavy w bs))"
  by (auto simp: heavy_def)

lemma wrr_loop_current:
  "distinct bs \<Longrightarrow> fst (wrr_loop w bs cur best bestCur first) x = (if x \<in> set bs then cur x + Weight w x else cur x)"
  by (induction bs arbitrary: cur best bestCur first) (auto simp: Let_def)

lemma wrr_loop_best:
  assumes "distinct bs" "wrr_loop w bs cur best bestCur first = (cur', best')"
  shows "if first \<and> heavy w bs = {} then best' = best
    else (best' \<in> heavy w bs \<and> (\<forall>b\<in>heavy w bs. cur' b \<le> cur' best') \<and> (first \<or> bestCur < cur' best'))
       \<or> (\<not> first \<and> best' = best \<and> (\<forall>b\<in>heavy w bs. cur' b \<le> bestCur))"
  using assms
proof (induction bs arbitrary: cur best bestCur first)
  case (Cons b bs)
  show ?case
  proof (cases "Weight w b = 0")
    case True
    then show ?thesis
      using Cons by (simp add: heavy_Cons)
  next
    case False
    let ?cur1 = "cur(b := cur b + Weight w b)"
    have cur_b: "fst (wrr_loop w bs ?cur1 p q f) b = ?cur1 b" for p q f
      using wrr_loop_current[of bs w ?cur1 p q f b] Cons(2) by simp
    show ?thesis
    proof (cases "first \<or> ?cur1 b > bestCur")
      case True
      then have run: "wrr_loop w bs ?cur1 b (?cur1 b) False = (cur', best')"
        using Cons(3) False by (simp add: Let_def split: if_splits)
      then have "cur' b = ?cur1 b"
        using cur_b[of b "?cur1 b" False] by simp
      then show ?thesis
        using Cons(1)[OF _ run] Cons(2) False True by (auto simp: heavy_Cons)
    next
      case worse: False
      then have run: "wrr_loop w bs ?cur1 best bestCur first = (cur', best')"
        using Cons(3) False by (simp add: Let_def split: if_splits)
      then have "cur' b = ?cur1 b"
        using cur_b[of best bestCur first] by simp
      then show ?thesis
        using Cons(1)[OF _ run] Cons(2) False worse by (auto simp: heavy_Cons)
    qed
  qed
qed (simp add: heavy_def)

fun weighted_picks :: "nat \<Rightarrow> string list \<Rightarrow> Weighted \<Rightarrow> Weighted \<times> string list" where
  "weighted_picks 0 backends w = (w, [])"
| "weighted_picks (Suc n) backends w =
     (case weighted_picks n backends w of
        (w1, picks) \<Rightarrow> (case Weighted_Next w1 backends of (w2, b) \<Rightarrow> (w2, b # picks)))"

abbreviation cycle_length :: "Weighted \<Rightarrow> string list \<Rightarrow> int" where
  "cycle_length w backends \<equiv> sum_list (map (Weight w) backends)"

definition weighted_pool :: "Weighted \<Rightarrow> string list \<Rightarrow> bool" where
  "weighted_pool w backends \<longleftrightarrow> distinct backends \<and> [] \<notin> set backends
     \<and> list_all (\<lambda>b. 0 \<le> Weight w b) backends \<and> 0 < cycle_length w backends"

lemma weighted_pool_heavy: "weighted_pool w backends \<Longrightarrow> heavy w backends \<noteq> {}"
proof
  assume pool: "weighted_pool w backends" and "heavy w backends = {}"
  then have "map (Weight w) backends = map (\<lambda>_. 0) backends"
    by (auto simp: heavy_def)
  then have "cycle_length w backends = 0"
    by (metis sum_list_0)
  with pool show False
    by (simp add: weighted_pool_def)
qed

lemma weighted_next:
  assumes "weighted_pool w backends"
  obtains b where "b \<in> heavy w backends" "snd (Weighted_Next w backends) = b"
    and "\<And>x. Weight (fst (Weighted_Next w backends)) x = Weight w x"
    and "\<And>x. x \<in> set backends \<Longrightarrow> wt_current (fst (Weighted_Next w backends)) x
           = wt_current w x + Weight w x - (if x = b then cycle_length w backends else 0)"
    and "\<And>x. x \<in> heavy w backends \<Longrightarrow> wt_current w x + Weight w x \<le> wt_current w b + Weight w b"
proof -
  obtain cur best where run: "wrr_loop w backends (wt_current w) [] 0 True = (cur, best)"
    by fastforce
  have dist: "distinct backends" and nonempty: "[] \<notin> set backends"
    and total: "cycle_length w backends \<noteq> 0"
    using assms by (auto simp: weighted_pool_def)
  have best: "best \<in> heavy w backends" "\<And>x. x \<in> heavy w backends \<Longrightarrow> cur x \<le> cur best"
    using wrr_loop_best[OF dist run] weighted_pool_heavy[OF assms] by auto
  have cur: "cur x = wt_current w x + Weight w x" if "x \<in> set backends" for x
    using wrr_loop_current[OF dist, of w "wt_current w" "[]" 0 True x] that by (simp add: run)
  have in_set: "x \<in> set backends" if "x \<in> heavy w backends" for x
    using that by (simp add: heavy_def)
  have "backends \<noteq> []" "best \<noteq> []"
    using total in_set[OF best(1)] nonempty by auto
  then have step: "Weighted_Next w backends
      = (w\<lparr>wt_current := cur(best := cur best - cycle_length w backends)\<rparr>, best)"
    using total run by (simp add: Weighted_Next_def Let_def)
  show thesis
    by (rule that[OF best(1)]) (use best in_set in \<open>auto simp: step cur Weight_def\<close>)
qed

interpretation weighted: lb_strategy "\<lambda>w bs r. Weighted_Next w bs" weighted_pool
proof unfold_locales
  fix w backends assume "weighted_pool w backends"
  then obtain b where "b \<in> heavy w backends" "snd (Weighted_Next w backends) = b"
    by (rule weighted_next)
  then show "snd (Weighted_Next w backends) \<in> set backends"
    by (simp add: heavy_def)
qed

definition fair_state :: "string list \<Rightarrow> Weighted \<Rightarrow> nat \<Rightarrow> Weighted \<times> string list \<Rightarrow> bool" where
  "fair_state backends w n s \<longleftrightarrow> set (snd s) \<subseteq> heavy w backends \<and> length (snd s) = n
     \<and> (\<forall>x. Weight (fst s) x = Weight w x)
     \<and> (\<forall>x\<in>set backends. - cycle_length w backends < wt_current (fst s) x
          \<and> wt_current (fst s) x = int n * Weight w x - cycle_length w backends * int (count_list (snd s) x))"

lemma sum_count_list: "finite A \<Longrightarrow> set ps \<subseteq> A \<Longrightarrow> (\<Sum>x\<in>A. count_list ps x) = length ps"
proof (induction ps)
  case (Cons a ps)
  have "(\<Sum>x\<in>A. count_list (a # ps) x) = (\<Sum>x\<in>A. count_list ps x + (if x = a then 1 else 0))"
    by (intro sum.cong) auto
  then show ?case
    using Cons by (simp add: sum.distrib)
qed simp

lemma cycle_length_sum: "distinct backends \<Longrightarrow> cycle_length w backends = (\<Sum>x\<in>set backends. Weight w x)"
  by (simp add: sum_list_distinct_conv_sum_set)

lemma heavy_subset: "heavy w backends \<subseteq> set backends"
  by (auto simp: heavy_def)

lemma fair_sum_zero:
  assumes "fair_state backends w n s" "distinct backends"
  shows "(\<Sum>x\<in>set backends. wt_current (fst s) x) = 0"
proof -
  let ?W = "cycle_length w backends"
  have "(\<Sum>x\<in>set backends. wt_current (fst s) x)
      = (\<Sum>x\<in>set backends. int n * Weight w x - ?W * int (count_list (snd s) x))"
    using assms(1) by (intro sum.cong) (auto simp: fair_state_def)
  also have "\<dots> = int n * (\<Sum>x\<in>set backends. Weight w x) - ?W * int (\<Sum>x\<in>set backends. count_list (snd s) x)"
    by (simp add: sum_subtractf sum_distrib_left)
  also have "(\<Sum>x\<in>set backends. count_list (snd s) x) = n"
    using assms(1) heavy_subset[of w backends] by (subst sum_count_list) (auto simp: fair_state_def)
  finally show ?thesis
    by (simp add: cycle_length_sum[OF assms(2)])
qed

lemma fair_pick_positive:
  assumes fair: "fair_state backends w n s" and pool: "weighted_pool w backends"
  shows "\<exists>x\<in>heavy w backends. 0 < wt_current (fst s) x + Weight w x"
proof (rule ccontr)
  assume no: "\<not> ?thesis"
  have dist: "distinct backends"
    using pool by (simp add: weighted_pool_def)
  have "wt_current (fst s) x + Weight w x \<le> 0" if "x \<in> set backends" for x
  proof (cases "x \<in> heavy w backends")
    case False
    then have "count_list (snd s) x = 0" "Weight w x = 0"
      using fair that by (auto simp: fair_state_def heavy_def count_list_0_iff)
    then show ?thesis
      using fair that by (simp add: fair_state_def)
  qed (use no in \<open>auto simp: not_less\<close>)
  then have "(\<Sum>x\<in>set backends. wt_current (fst s) x + Weight w x) \<le> 0"
    by (rule sum_nonpos)
  then show False
    using fair_sum_zero[OF fair dist] pool by (simp add: sum.distrib cycle_length_sum[OF dist] weighted_pool_def)
qed

lemma fair_state_step:
  assumes fair: "fair_state backends w n (w1, picks)" and pool: "weighted_pool w backends"
    and nxt: "Weighted_Next w1 backends = (w2, b)"
  shows "fair_state backends w (Suc n) (w2, b # picks)"
proof -
  let ?W = "cycle_length w backends"
  have same: "Weight w1 = Weight w"
    using fair by (auto simp: fair_state_def)
  then have pool1: "weighted_pool w1 backends" and heavy1: "heavy w1 backends = heavy w backends"
    using pool by (simp_all add: weighted_pool_def heavy_def)
  from weighted_next[OF pool1] have b: "b \<in> heavy w backends" "\<And>x. Weight w2 x = Weight w x"
    and cur: "\<And>x. x \<in> set backends \<Longrightarrow> wt_current w2 x = wt_current w1 x + Weight w x - (if x = b then ?W else 0)"
    and best: "\<And>x. x \<in> heavy w backends \<Longrightarrow> wt_current w1 x + Weight w x \<le> wt_current w1 b + Weight w b"
    unfolding nxt same heavy1 fst_conv snd_conv by metis+
  obtain y where "y \<in> heavy w backends" "0 < wt_current w1 y + Weight w y"
    using fair_pick_positive[OF fair pool] by auto
  then have pos: "0 < wt_current w1 b + Weight w b"
    using best[of y] by simp
  have W: "\<And>x. x \<in> set backends \<Longrightarrow> 0 \<le> Weight w x"
    using pool by (simp add: weighted_pool_def list_all_iff)
  have inv: "\<forall>x\<in>set backends. - ?W < wt_current w2 x
      \<and> wt_current w2 x = int (Suc n) * Weight w x - ?W * int (count_list (b # picks) x)"
  proof
    fix x assume x: "x \<in> set backends"
    show "- ?W < wt_current w2 x
        \<and> wt_current w2 x = int (Suc n) * Weight w x - ?W * int (count_list (b # picks) x)"
      using fair W[OF x] pos x by (auto simp: cur fair_state_def algebra_simps)
  qed
  have picks: "set picks \<subseteq> heavy w backends" "length picks = n"
    using fair by (simp_all add: fair_state_def)
  show ?thesis
    unfolding fair_state_def fst_conv snd_conv by (intro conjI; (rule inv)?) (use b picks in simp_all)
qed

lemma fair_state_picks:
  assumes "weighted_pool w backends" "\<forall>x\<in>set backends. wt_current w x = 0"
  shows "fair_state backends w n (weighted_picks n backends w)"
proof (induction n)
  case 0
  show ?case
    using assms by (auto simp: fair_state_def weighted_pool_def)
next
  case (Suc n)
  obtain w1 picks w2 b where
    "weighted_picks n backends w = (w1, picks)" "Weighted_Next w1 backends = (w2, b)"
    by fastforce
  then show ?case
    using fair_state_step[OF _ assms(1)] Suc by simp
qed

lemma SetWeights_pool:
  assumes "distinct backends" "[] \<notin> set backends" "0 < cycle_length (SetWeights weights w) backends"
  shows "weighted_pool (SetWeights weights w) backends"
  using assms by (auto simp: weighted_pool_def list_all_iff Weight_def SetWeights_def split: option.split)

text \<open>
  C6. The weighted strategy is exactly fair over a cycle, as its documentation promises: after SetWeights, the
  first sum(weights) picks from a pool of distinct, nonempty backends choose each backend exactly as often
  as its weight says, and leave the running weights where they started, so that every cycle is the same.
\<close>

theorem weighted_fair:
  assumes "w = SetWeights weights w0" "distinct backends" "[] \<notin> set backends"
    and "0 < sum_list (map (Weight w) backends)"
  shows "case weighted_picks (nat (sum_list (map (Weight w) backends))) backends w of (w', picks) \<Rightarrow>
    \<forall>b\<in>set backends. int (count_list picks b) = Weight w b \<and> wt_current w' b = wt_current w b"
proof -
  let ?W = "cycle_length w backends"
  have pool: "weighted_pool w backends"
    using assms SetWeights_pool by blast
  obtain w' picks where run: "weighted_picks (nat ?W) backends w = (w', picks)"
    by fastforce
  have start: "wt_current w b = 0" for b
    by (simp add: assms(1) SetWeights_def)
  have fair: "fair_state backends w (nat ?W) (w', picks)"
    using fair_state_picks[OF pool, of "nat ?W"] by (simp add: start run)
  have cur: "wt_current w' b = ?W * (Weight w b - int (count_list picks b))" if "b \<in> set backends" for b
    using fair that assms(4) by (simp add: fair_state_def right_diff_distrib)
  have le: "0 \<le> Weight w b - int (count_list picks b)" if "b \<in> set backends" for b
  proof -
    have "- ?W < wt_current w' b"
      using fair that unfolding fair_state_def fst_conv by blast
    then have "?W * (- 1) < ?W * (Weight w b - int (count_list picks b))"
      by (simp add: cur[OF that])
    then show ?thesis
      using assms(4) by (simp only: mult_less_cancel_left_pos)
  qed
  have "(\<Sum>b\<in>set backends. ?W * (Weight w b - int (count_list picks b))) = 0"
    using fair_sum_zero[OF fair assms(2)] by (simp add: cur)
  then have "(\<Sum>b\<in>set backends. Weight w b - int (count_list picks b)) = 0"
    using assms(4) by (simp flip: sum_distrib_left)
  then have "Weight w b - int (count_list picks b) = 0" if "b \<in> set backends" for b
    using sum_nonneg_0[of "set backends" "\<lambda>b. Weight w b - int (count_list picks b)"] le that by blast
  then show ?thesis
    by (simp add: run cur start)
qed

theorem weighted_fair_witness:
  "\<exists>w. w = SetWeights [''a'' \<mapsto> 5, ''c'' \<mapsto> 0] NewWeighted
     \<and> (\<exists>w' picks. weighted_picks 6 [''a'', ''b'', ''c''] w = (w', picks)
          \<and> count_list picks ''a'' = 5 \<and> count_list picks ''b'' = 1 \<and> count_list picks ''c'' = 0)"
proof -
  let ?w = "SetWeights [''a'' \<mapsto> 5, ''c'' \<mapsto> 0] NewWeighted"
  have weights: "Weight ?w ''a'' = 5" "Weight ?w ''b'' = 1" "Weight ?w ''c'' = 0"
    by (simp_all add: Weight_def SetWeights_def)
  then show ?thesis
    using weighted_fair[of ?w "[''a'' \<mapsto> 5, ''c'' \<mapsto> 0]" NewWeighted "[''a'', ''b'', ''c'']"]
    by (auto split: prod.splits)
qed

end
