(* ===== verification/Build_Queue.thy ===== *)
theory Build_Queue
  imports Prelude
begin

text \<open>
  The build gates of \<open>internal/build\<close>: the per-tenant queue of \<open>tenant_queue.go\<close> and the worker
  pool of \<open>module.go\<close>.

  A channel used as a semaphore is the number of elements in it. Every goroutine inside \<open>Submit\<close>,
  and every job goroutine it starts, is an element of a multiset that says where it stands; the
  step relations interleave them at the channel operations, the mutex sections and \<open>wg.Done\<close>.
  A job function may return or panic at any time, which is the same step since the panic is
  recovered. What a queue promises at shutdown is the interface \<open>drain_system\<close>.
\<close>

subsection \<open>Draining\<close>

text \<open>A system of goroutines counted by a wait group. Once it is closed, every step that changes it
  brings it closer to rest, and it is never stuck before it is at rest.\<close>

locale drain_system =
  fixes step :: "'s \<Rightarrow> 's \<Rightarrow> bool"
    and inv :: "'s \<Rightarrow> bool"
    and closed :: "'s \<Rightarrow> bool"
    and wg :: "'s \<Rightarrow> nat"
    and load :: "'s \<Rightarrow> nat"
  assumes inv_step: "inv s \<Longrightarrow> step s s' \<Longrightarrow> inv s'"
    and closed_step: "closed s \<Longrightarrow> step s s' \<Longrightarrow> closed s'"
    and load_step: "inv s \<Longrightarrow> closed s \<Longrightarrow> step s s' \<Longrightarrow> s' \<noteq> s \<Longrightarrow> load s' < load s"
    and progress: "inv s \<Longrightarrow> 0 < wg s \<Longrightarrow> \<exists>s'. step s s' \<and> s' \<noteq> s"
begin

lemma inv_steps: "step\<^sup>*\<^sup>* s s' \<Longrightarrow> inv s \<Longrightarrow> inv s'"
  by (induction rule: rtranclp_induct) (auto intro: inv_step)

lemma drains: "inv s \<Longrightarrow> closed s \<Longrightarrow> \<exists>s'. step\<^sup>*\<^sup>* s s' \<and> wg s' = 0"
proof (induction "load s" arbitrary: s rule: less_induct)
  case less
  show ?case
  proof (cases "wg s = 0")
    case False
    then obtain s' where s': "step s s'" "s' \<noteq> s"
      using progress less.prems by blast
    moreover have "load s' < load s" "inv s'" "closed s'"
      using s' less.prems load_step inv_step closed_step by blast+
    ultimately show ?thesis
      using less.hyps by (meson converse_rtranclp_into_rtranclp)
  qed blast
qed

lemma drain_bounded:
  assumes "inv (f 0)" "closed (f 0)" "\<forall>i<n. step (f i) (f (Suc i)) \<and> f (Suc i) \<noteq> f i"
  shows "n \<le> load (f 0)"
proof -
  have "k \<le> n \<Longrightarrow> inv (f k) \<and> closed (f k) \<and> load (f k) + k \<le> load (f 0)" for k
  proof (induction k)
    case (Suc k)
    then have k: "inv (f k)" "closed (f k)" "load (f k) + k \<le> load (f 0)" and
      st: "step (f k) (f (Suc k))" "f (Suc k) \<noteq> f k"
      using assms(3) by auto
    then show ?case
      using inv_step closed_step load_step[OF k(1,2) st] by fastforce
  qed (use assms in auto)
  from this[of n] show ?thesis by simp
qed

end

subsection \<open>The tenant queue\<close>

datatype tq_job =
    TqTenant string \<comment> \<open>in Submit, waiting for the tenant slot\<close>
  | TqGlobal string \<comment> \<open>in Submit, waiting for the global slot\<close>
  | TqRun string \<comment> \<open>the job goroutine runs the build\<close>
  | TqRelTenant string \<comment> \<open>about to receive from the tenant slot\<close>
  | TqDone string \<comment> \<open>about to call wg.Done\<close>

record TenantQueue =
  tq_globalCap :: nat
  tq_perTenant :: nat
  tq_global :: nat
  tq_tenant :: "string \<rightharpoonup> nat"
  tq_closed :: bool
  tq_wg :: nat
  tq_jobs :: "tq_job multiset"

definition NewTenantQueue :: "int \<Rightarrow> int \<Rightarrow> TenantQueue" where
  "NewTenantQueue globalCap perTenantCap =
     \<lparr>tq_globalCap = (if globalCap < 1 then 1 else nat globalCap),
      tq_perTenant = (if perTenantCap < 1 then 1 else nat perTenantCap),
      tq_global = 0, tq_tenant = Map.empty, tq_closed = False, tq_wg = 0, tq_jobs = {#}\<rparr>"

definition tenantSlot :: "string \<Rightarrow> TenantQueue \<Rightarrow> TenantQueue" where
  "tenantSlot t q = (case tq_tenant q t of Some n \<Rightarrow> q | None \<Rightarrow> q\<lparr>tq_tenant := (tq_tenant q)(t \<mapsto> 0)\<rparr>)"

definition tq_move :: "tq_job \<Rightarrow> tq_job \<Rightarrow> TenantQueue \<Rightarrow> TenantQueue" where
  "tq_move j j' q = q\<lparr>tq_jobs := add_mset j' (tq_jobs q - {#j#})\<rparr>"

definition tq_put :: "string \<Rightarrow> nat \<Rightarrow> TenantQueue \<Rightarrow> TenantQueue" where
  "tq_put t n q = q\<lparr>tq_tenant := (tq_tenant q)(t \<mapsto> n)\<rparr>"

text \<open>The entry of \<open>Submit\<close>: the section under the mutex.\<close>

definition tq_Submit :: "string \<Rightarrow> TenantQueue \<Rightarrow> TenantQueue option" where
  "tq_Submit t q =
     (if tq_closed q then None
      else let q1 = tenantSlot t q in Some (q1\<lparr>tq_wg := tq_wg q1 + 1, tq_jobs := add_mset (TqTenant t) (tq_jobs q1)\<rparr>))"

definition tq_Shutdown :: "TenantQueue \<Rightarrow> TenantQueue" where
  "tq_Shutdown q = q\<lparr>tq_closed := True\<rparr>"

definition tq_drained :: "TenantQueue \<Rightarrow> bool" where
  "tq_drained q \<longleftrightarrow> tq_wg q = 0"

definition tq_Closed :: "TenantQueue \<Rightarrow> bool" where
  "tq_Closed q = tq_closed q"

definition TenantInFlight :: "string \<Rightarrow> TenantQueue \<Rightarrow> nat" where
  "TenantInFlight t q = (case tq_tenant q t of None \<Rightarrow> 0 | Some n \<Rightarrow> n)"

definition GlobalInFlight :: "TenantQueue \<Rightarrow> nat" where
  "GlobalInFlight q = tq_global q"

text \<open>Steps of the goroutines that need nothing from the environment but that a running job
  returns, and the steps of the environment: calls of \<open>Submit\<close> and \<open>Shutdown\<close>, and contexts that
  end.\<close>

inductive tq_work :: "TenantQueue \<Rightarrow> TenantQueue \<Rightarrow> bool" where
  tq_acquire_tenant: "TqTenant t \<in># tq_jobs q \<Longrightarrow> tq_tenant q t = Some n \<Longrightarrow> n < tq_perTenant q \<Longrightarrow>
    tq_work q (tq_put t (n + 1) (tq_move (TqTenant t) (TqGlobal t) q))"
| tq_stop_tenant: "TqTenant t \<in># tq_jobs q \<Longrightarrow> tq_closed q \<Longrightarrow> tq_work q (tq_move (TqTenant t) (TqDone t) q)"
| tq_acquire_global: "TqGlobal t \<in># tq_jobs q \<Longrightarrow> tq_global q < tq_globalCap q \<Longrightarrow>
    tq_work q ((tq_move (TqGlobal t) (TqRun t) q)\<lparr>tq_global := tq_global q + 1\<rparr>)"
| tq_stop_global: "TqGlobal t \<in># tq_jobs q \<Longrightarrow> tq_closed q \<Longrightarrow> tq_work q (tq_move (TqGlobal t) (TqRelTenant t) q)"
| tq_finish: "TqRun t \<in># tq_jobs q \<Longrightarrow> 0 < tq_global q \<Longrightarrow>
    tq_work q ((tq_move (TqRun t) (TqRelTenant t) q)\<lparr>tq_global := tq_global q - 1\<rparr>)"
| tq_release_tenant: "TqRelTenant t \<in># tq_jobs q \<Longrightarrow> tq_tenant q t = Some n \<Longrightarrow> 0 < n \<Longrightarrow>
    tq_work q (tq_put t (n - 1) (tq_move (TqRelTenant t) (TqDone t) q))"
| tq_wg_done: "TqDone t \<in># tq_jobs q \<Longrightarrow>
    tq_work q (q\<lparr>tq_jobs := tq_jobs q - {#TqDone t#}, tq_wg := tq_wg q - 1\<rparr>)"

inductive tq_step :: "TenantQueue \<Rightarrow> TenantQueue \<Rightarrow> bool" where
  tq_internal: "tq_work q q' \<Longrightarrow> tq_step q q'"
| tq_submit: "tq_Submit t q = Some q' \<Longrightarrow> tq_step q q'"
| tq_cancel_tenant: "TqTenant t \<in># tq_jobs q \<Longrightarrow> tq_step q (tq_move (TqTenant t) (TqDone t) q)"
| tq_cancel_global: "TqGlobal t \<in># tq_jobs q \<Longrightarrow> tq_step q (tq_move (TqGlobal t) (TqRelTenant t) q)"
| tq_shutdown: "tq_step q (tq_Shutdown q)"

subsection \<open>Who holds which slot\<close>

fun holds_tenant :: "string \<Rightarrow> tq_job \<Rightarrow> bool" where
  "holds_tenant t (TqTenant s) = False"
| "holds_tenant t (TqGlobal s) = (s = t)"
| "holds_tenant t (TqRun s) = (s = t)"
| "holds_tenant t (TqRelTenant s) = (s = t)"
| "holds_tenant t (TqDone s) = False"

fun is_running :: "tq_job \<Rightarrow> bool" where
  "is_running (TqRun s) = True"
| "is_running j = False"

fun job_tenant :: "tq_job \<Rightarrow> string" where
  "job_tenant (TqTenant t) = t"
| "job_tenant (TqGlobal t) = t"
| "job_tenant (TqRun t) = t"
| "job_tenant (TqRelTenant t) = t"
| "job_tenant (TqDone t) = t"

definition tenant_held :: "TenantQueue \<Rightarrow> string \<Rightarrow> nat" where
  "tenant_held q t = size (filter_mset (holds_tenant t) (tq_jobs q))"

definition running :: "TenantQueue \<Rightarrow> nat" where
  "running q = size (filter_mset is_running (tq_jobs q))"

definition tq_inv :: "TenantQueue \<Rightarrow> bool" where
  "tq_inv q \<longleftrightarrow> 0 < tq_globalCap q \<and> 0 < tq_perTenant q
     \<and> tq_global q = running q \<and> tq_global q \<le> tq_globalCap q
     \<and> tq_wg q = size (tq_jobs q)
     \<and> (\<forall>t. TenantInFlight t q = tenant_held q t) \<and> (\<forall>t. tenant_held q t \<le> tq_perTenant q)
     \<and> (\<forall>j\<in>#tq_jobs q. job_tenant j \<in> dom (tq_tenant q))"

fun job_load :: "tq_job \<Rightarrow> nat" where
  "job_load (TqTenant t) = 5"
| "job_load (TqGlobal t) = 4"
| "job_load (TqRun t) = 3"
| "job_load (TqRelTenant t) = 2"
| "job_load (TqDone t) = 1"

definition tq_load :: "TenantQueue \<Rightarrow> nat" where
  "tq_load q = sum_mset (image_mset job_load (tq_jobs q)) + (if tq_closed q then 0 else 1)"

lemma InFlight_simps [simp]:
  "TenantInFlight s (q\<lparr>tq_jobs := J\<rparr>) = TenantInFlight s q"
  "TenantInFlight s (q\<lparr>tq_wg := w\<rparr>) = TenantInFlight s q"
  "TenantInFlight s (q\<lparr>tq_global := g\<rparr>) = TenantInFlight s q"
  "TenantInFlight s (q\<lparr>tq_closed := c\<rparr>) = TenantInFlight s q"
  "TenantInFlight s (q\<lparr>tq_tenant := (tq_tenant q)(t \<mapsto> n)\<rparr>) = (if s = t then n else TenantInFlight s q)"
  "TenantInFlight s (q\<lparr>tq_jobs := J, tq_tenant := m\<rparr>) = TenantInFlight s (q\<lparr>tq_tenant := m\<rparr>)"
  by (simp_all add: TenantInFlight_def)

lemma InFlight_Some: "tq_tenant q t = Some n \<Longrightarrow> TenantInFlight t q = n"
  by (simp add: TenantInFlight_def)

lemma InFlight_None: "tq_tenant q t = None \<Longrightarrow> TenantInFlight t q = 0"
  by (simp add: TenantInFlight_def)

lemma held_simps [simp]:
  "tenant_held (q\<lparr>tq_tenant := m\<rparr>) = tenant_held q" "running (q\<lparr>tq_tenant := m\<rparr>) = running q"
  "tenant_held (q\<lparr>tq_global := g\<rparr>) = tenant_held q" "running (q\<lparr>tq_global := g\<rparr>) = running q"
  "tenant_held (q\<lparr>tq_closed := c\<rparr>) = tenant_held q" "running (q\<lparr>tq_closed := c\<rparr>) = running q"
  "tenant_held (q\<lparr>tq_wg := w\<rparr>) = tenant_held q" "running (q\<lparr>tq_wg := w\<rparr>) = running q"
  by (simp_all add: tenant_held_def running_def fun_eq_iff)

lemma move_simps [simp]:
  "tq_globalCap (tq_move j j' q) = tq_globalCap q" "tq_perTenant (tq_move j j' q) = tq_perTenant q"
  "tq_global (tq_move j j' q) = tq_global q" "tq_tenant (tq_move j j' q) = tq_tenant q"
  "tq_wg (tq_move j j' q) = tq_wg q" "tq_closed (tq_move j j' q) = tq_closed q"
  "TenantInFlight s (tq_move j j' q) = TenantInFlight s q"
  by (simp_all add: tq_move_def)

text \<open>How moving a goroutine changes the counts.\<close>

lemma move_counts:
  assumes "j \<in># tq_jobs q"
  shows "tenant_held (tq_move j j' q) s + of_bool (holds_tenant s j) = tenant_held q s + of_bool (holds_tenant s j')"
    and "running (tq_move j j' q) + of_bool (is_running j) = running q + of_bool (is_running j')"
    and "size (tq_jobs (tq_move j j' q)) = size (tq_jobs q)"
    and "\<forall>x\<in>#tq_jobs (tq_move j j' q). x = j' \<or> x \<in># tq_jobs q"
    and "sum_mset (image_mset job_load (tq_jobs (tq_move j j' q))) + job_load j
           = sum_mset (image_mset job_load (tq_jobs q)) + job_load j'"
proof -
  obtain J where J: "tq_jobs q = add_mset j J" using assms by (auto dest: multi_member_split)
  show "tenant_held (tq_move j j' q) s + of_bool (holds_tenant s j) = tenant_held q s + of_bool (holds_tenant s j')"
    "running (tq_move j j' q) + of_bool (is_running j) = running q + of_bool (is_running j')"
    "size (tq_jobs (tq_move j j' q)) = size (tq_jobs q)"
    "\<forall>x\<in>#tq_jobs (tq_move j j' q). x = j' \<or> x \<in># tq_jobs q"
    "sum_mset (image_mset job_load (tq_jobs (tq_move j j' q))) + job_load j
       = sum_mset (image_mset job_load (tq_jobs q)) + job_load j'"
    by (simp_all add: J tq_move_def tenant_held_def running_def)
qed

lemma tq_inv_moved:
  assumes "tq_inv q" "j \<in># tq_jobs q" "job_tenant j' = job_tenant j"
    and "\<And>s. TenantInFlight s q' = tenant_held (tq_move j j' q) s" "\<And>s. TenantInFlight s q' \<le> tq_perTenant q"
    and "tq_global q' = running (tq_move j j' q)" "tq_global q' \<le> tq_globalCap q"
    and "tq_jobs q' = tq_jobs (tq_move j j' q)" "tq_wg q' = tq_wg q" "dom (tq_tenant q') = dom (tq_tenant q)"
    and "tq_globalCap q' = tq_globalCap q" "tq_perTenant q' = tq_perTenant q"
  shows "tq_inv q'"
proof -
  have "tenant_held q' = tenant_held (tq_move j j' q)" "running q' = running (tq_move j j' q)"
    using assms(8) by (simp_all add: tenant_held_def running_def fun_eq_iff)
  moreover have "\<forall>x\<in>#tq_jobs q'. job_tenant x \<in> dom (tq_tenant q')"
    using assms(1,2,3,8,10) move_counts(4)[OF assms(2), of j'] unfolding tq_inv_def by metis
  ultimately show ?thesis
    using assms(1,5,6,7,8,9,11,12) move_counts(3)[OF assms(2), of j'] unfolding tq_inv_def
    by (simp add: assms(4)[symmetric])
qed

lemma tq_inv_move:
  assumes "tq_inv q" "j \<in># tq_jobs q" "\<And>s. holds_tenant s j' = holds_tenant s j" "is_running j' = is_running j"
    and "job_tenant j' = job_tenant j"
  shows "tq_inv (tq_move j j' q)"
  by (rule tq_inv_moved[OF assms(1,2,5)])
    (use assms(1,3,4) move_counts(1,2)[OF assms(2), of j'] in \<open>auto simp: tq_inv_def\<close>)

lemma InFlight_put: "TenantInFlight s (tq_put t n q) = (if s = t then n else TenantInFlight s q)"
  by (simp add: tq_put_def TenantInFlight_def)

lemma put_simps [simp]:
  "tq_globalCap (tq_put t n q) = tq_globalCap q" "tq_perTenant (tq_put t n q) = tq_perTenant q"
  "tq_global (tq_put t n q) = tq_global q" "tq_tenant (tq_put t n q) = (tq_tenant q)(t \<mapsto> n)"
  "tq_wg (tq_put t n q) = tq_wg q" "tq_closed (tq_put t n q) = tq_closed q" "tq_jobs (tq_put t n q) = tq_jobs q"
  by (simp_all add: tq_put_def)

lemma tq_inv_work: "tq_work q q' \<Longrightarrow> tq_inv q \<Longrightarrow> tq_inv q'"
proof (induction rule: tq_work.induct)
  case (tq_acquire_tenant t q n)
  note move = move_counts(1,2)[OF tq_acquire_tenant(1), of "TqGlobal t"]
  show ?case
    by (rule tq_inv_moved[OF tq_acquire_tenant(4,1), of "TqGlobal t"])
      (use tq_acquire_tenant move InFlight_Some[of q t n] in \<open>auto simp: InFlight_put tq_inv_def\<close>)
next
  case (tq_acquire_global t q)
  note move = move_counts(1,2)[OF tq_acquire_global(1), of "TqRun t"]
  show ?case
    by (rule tq_inv_moved[OF tq_acquire_global(3,1), of "TqRun t"])
      (use tq_acquire_global move in \<open>auto simp: tq_inv_def\<close>)
next
  case (tq_finish t q)
  note move = move_counts(1,2)[OF tq_finish(1), of "TqRelTenant t"]
  show ?case
    by (rule tq_inv_moved[OF tq_finish(3,1), of "TqRelTenant t"])
      (use tq_finish move in \<open>auto simp: tq_inv_def\<close>)
next
  case (tq_release_tenant t q n)
  note move = move_counts(1,2)[OF tq_release_tenant(1), of "TqDone t"]
  have held: "tenant_held (tq_move (TqRelTenant t) (TqDone t) q) s = tenant_held q s - of_bool (t = s)" for s
    using move(1)[of s] by (cases "t = s") simp_all
  have bound: "tenant_held q t - Suc 0 \<le> tq_perTenant q"
    using tq_release_tenant(4) by (simp add: tq_inv_def le_diff_conv le_SucI)
  show ?case
    by (rule tq_inv_moved[OF tq_release_tenant(4,1), of "TqDone t"])
      (use tq_release_tenant move(2) held bound InFlight_Some[of q t n] in \<open>auto simp: InFlight_put tq_inv_def\<close>)
next
  case (tq_wg_done t q)
  then obtain J where "tq_jobs q = add_mset (TqDone t) J" by (auto dest: multi_member_split)
  with tq_wg_done show ?case by (auto simp: tq_inv_def tenant_held_def running_def)
qed (auto intro!: tq_inv_move)

lemma tq_inv_step: "tq_step q q' \<Longrightarrow> tq_inv q \<Longrightarrow> tq_inv q'"
proof (induction rule: tq_step.induct)
  case (tq_submit t q q')
  then show ?case
    using InFlight_None[of q t]
    by (auto simp: tq_inv_def tq_Submit_def tenantSlot_def Let_def tenant_held_def running_def
        split: if_splits option.splits)
next
  case (tq_shutdown q)
  then show ?case by (simp add: tq_Shutdown_def tq_inv_def)
qed (auto intro: tq_inv_work intro!: tq_inv_move)

lemma tq_load_move: "j \<in># tq_jobs q \<Longrightarrow> job_load j' < job_load j \<Longrightarrow> tq_load (tq_move j j' q) < tq_load q"
  using move_counts(5)[of j q j'] by (simp add: tq_load_def)

lemma tq_load_simps [simp]:
  "tq_load (tq_put t n q) = tq_load q" "tq_load (q\<lparr>tq_global := g\<rparr>) = tq_load q"
  by (simp_all add: tq_load_def)

lemma tq_load_work: "tq_work q q' \<Longrightarrow> tq_load q' < tq_load q"
proof (induction rule: tq_work.induct)
  case (tq_wg_done t q)
  then obtain J where "tq_jobs q = add_mset (TqDone t) J" by (auto dest: multi_member_split)
  then show ?case by (simp add: tq_load_def)
qed (auto intro: tq_load_move)

lemma tq_load_step:
  assumes "tq_step q q'" "tq_closed q" "q' \<noteq> q"
  shows "tq_load q' < tq_load q"
  using assms by cases (auto simp: tq_Submit_def tq_Shutdown_def intro: tq_load_work tq_load_move)

lemma tq_closed_step: "tq_step q q' \<Longrightarrow> tq_closed q \<Longrightarrow> tq_closed q'"
  by (auto simp: tq_Submit_def tq_Shutdown_def elim!: tq_step.cases tq_work.cases)

lemma size_filter_pos: "0 < size (filter_mset P J) \<longleftrightarrow> (\<exists>j\<in>#J. P j)"
  by (induction J) auto

lemma tq_progress_run: "tq_inv q \<Longrightarrow> TqRun t \<in># tq_jobs q \<Longrightarrow> \<exists>q'. tq_work q q'"
  using tq_finish[of t q] size_filter_pos[of is_running "tq_jobs q"] is_running.simps(1)
  unfolding tq_inv_def running_def by metis

lemma tq_progress_holder:
  assumes "tq_inv q" "j \<in># tq_jobs q" "holds_tenant t j"
  shows "\<exists>q'. tq_work q q'"
proof (cases j)
  case (TqGlobal s)
  show ?thesis
  proof (cases "tq_global q < tq_globalCap q")
    case True
    then show ?thesis using tq_acquire_global[of s q] assms(2) TqGlobal by blast
  next
    case False
    then obtain j' where "j' \<in># tq_jobs q" "is_running j'"
      using assms(1) size_filter_pos[of is_running "tq_jobs q"] by (auto simp: tq_inv_def running_def)
    then show ?thesis using tq_progress_run[OF assms(1)] by (cases j') auto
  qed
next
  case (TqRelTenant s)
  then have "0 < tenant_held q s"
    using assms(2) size_filter_pos[of "holds_tenant s" "tq_jobs q"] holds_tenant.simps(4)
    unfolding tenant_held_def by blast
  moreover have "TenantInFlight s q = tenant_held q s"
    using assms(1) by (simp add: tq_inv_def)
  ultimately obtain n where "tq_tenant q s = Some n" "0 < n"
    by (cases "tq_tenant q s") (auto simp: TenantInFlight_def)
  then show ?thesis using tq_release_tenant[of s q n] assms(2) TqRelTenant by blast
qed (use assms tq_progress_run in auto)

lemma tq_progress:
  assumes "tq_inv q" "tq_jobs q \<noteq> {#}"
  shows "\<exists>q'. tq_work q q'"
proof -
  obtain j where j: "j \<in># tq_jobs q" using assms(2) by blast
  show ?thesis
  proof (cases j)
    case (TqTenant t)
    then obtain n where n: "tq_tenant q t = Some n"
      using assms(1) j by (fastforce simp: tq_inv_def)
    show ?thesis
    proof (cases "n < tq_perTenant q")
      case True
      then show ?thesis using tq_acquire_tenant[of t q n] j TqTenant n by blast
    next
      case False
      then have "0 < tenant_held q t"
        using assms(1) InFlight_Some[OF n] by (auto simp: tq_inv_def)
      then show ?thesis
        using tq_progress_holder[OF assms(1)] size_filter_pos by (metis tenant_held_def)
    qed
  qed (use j tq_progress_holder[OF assms(1), of j] tq_wg_done in auto)
qed

interpretation tenant_queue: drain_system tq_step tq_inv tq_closed tq_wg tq_load
proof
  fix q assume inv: "tq_inv q" and "0 < tq_wg q"
  then have "tq_jobs q \<noteq> {#}" by (auto simp: tq_inv_def)
  then obtain q' where "tq_work q q'"
    using tq_progress[OF inv] by blast
  then show "\<exists>q'. tq_step q q' \<and> q' \<noteq> q"
    using tq_load_work tq_internal by blast
qed (auto intro: tq_inv_step tq_closed_step tq_load_step)

lemma tq_inv_init: "tq_inv (NewTenantQueue g p)"
  by (simp add: tq_inv_def NewTenantQueue_def running_def tenant_held_def TenantInFlight_def)

lemma tq_inv_reach: "tq_step\<^sup>*\<^sup>* (NewTenantQueue g p) q \<Longrightarrow> tq_inv q"
  using tenant_queue.inv_steps tq_inv_init by blast

lemma tq_caps_step: "tq_step q q' \<Longrightarrow> tq_globalCap q' = tq_globalCap q \<and> tq_perTenant q' = tq_perTenant q"
  by (auto simp: tq_Submit_def tq_Shutdown_def tenantSlot_def Let_def split: option.splits if_splits
      elim!: tq_step.cases tq_work.cases)

lemma tq_caps_reach: "tq_step\<^sup>*\<^sup>* q q' \<Longrightarrow> tq_globalCap q' = tq_globalCap q \<and> tq_perTenant q' = tq_perTenant q"
  by (induction rule: rtranclp_induct) (auto dest: tq_caps_step)

subsection \<open>Properties of the tenant queue\<close>

text \<open>
  C11. Whatever goroutines submit, cancel, finish, panic or shut down, at most the global cap of builds run at
  once and at most the per-tenant cap of one tenant's builds, with caps below one read as one; the
  in-flight gauges agree with the goroutines; and while any submission is in progress the queue can
  itself make a step: no combination of waiting submissions is a deadlock.
\<close>

theorem tenant_queue_safe:
  assumes "tq_step\<^sup>*\<^sup>* (NewTenantQueue globalCap perTenant) q"
  shows "int (running q) \<le> max 1 globalCap \<and> GlobalInFlight q = running q
    \<and> (\<forall>t. int (count (tq_jobs q) (TqRun t)) \<le> max 1 perTenant \<and> TenantInFlight t q = tenant_held q t)
    \<and> (tq_jobs q \<noteq> {#} \<longrightarrow> (\<exists>q'. tq_work q q'))"
proof -
  have inv: "tq_inv q" by (rule tq_inv_reach[OF assms])
  have "count J (TqRun t) \<le> size (filter_mset (holds_tenant t) J)" for t J
    by (induction J) auto
  then have "count (tq_jobs q) (TqRun t) \<le> tq_perTenant q" for t
    using inv unfolding tq_inv_def tenant_held_def by (meson le_trans)
  moreover have caps: "max 1 globalCap = int (tq_globalCap q)" "max 1 perTenant = int (tq_perTenant q)"
    using tq_caps_reach[OF assms] by (auto simp: NewTenantQueue_def)
  ultimately show ?thesis
    using inv tq_progress[OF inv] unfolding caps of_nat_le_iff by (auto simp: tq_inv_def GlobalInFlight_def)
qed

definition ex_queue :: TenantQueue where
  "ex_queue = \<lparr>tq_globalCap = 1, tq_perTenant = 1, tq_global = 1, tq_tenant = [''a'' \<mapsto> 1], tq_closed = False,
     tq_wg = 1, tq_jobs = {#TqRun ''a''#}\<rparr>"

lemma ex_queue_reach: "tq_step\<^sup>*\<^sup>* (NewTenantQueue 1 0) ex_queue"
proof -
  let ?q0 = "NewTenantQueue 1 0"
  let ?q1 = "?q0\<lparr>tq_tenant := [''a'' \<mapsto> 0], tq_wg := 1, tq_jobs := {#TqTenant ''a''#}\<rparr>"
  let ?q2 = "tq_put ''a'' 1 (tq_move (TqTenant ''a'') (TqGlobal ''a'') ?q1)"
  have "tq_step ?q0 ?q1"
    by (rule tq_submit[of "''a''"]) (simp add: tq_Submit_def tenantSlot_def NewTenantQueue_def)
  moreover have "tq_step ?q1 ?q2"
    using tq_acquire_tenant[of "''a''" ?q1 0] by (simp add: NewTenantQueue_def tq_internal)
  moreover have "tq_step ?q2 ex_queue"
    using tq_acquire_global[of "''a''" ?q2]
    by (simp add: NewTenantQueue_def tq_internal tq_move_def tq_put_def ex_queue_def)
  ultimately show ?thesis
    by (meson rtranclp.rtrancl_into_rtrancl rtranclp.rtrancl_refl)
qed

theorem tenant_queue_safe_witness:
  "\<exists>q. tq_step\<^sup>*\<^sup>* (NewTenantQueue 1 0) q \<and> count (tq_jobs q) (TqRun ''a'') = 1 \<and> running q \<le> 1
     \<and> TenantInFlight ''a'' q = 1"
proof -
  have "running ex_queue \<le> 1" "TenantInFlight ''a'' ex_queue = tenant_held ex_queue ''a''"
    using tenant_queue_safe[OF ex_queue_reach] by auto
  then show ?thesis
    using ex_queue_reach by (intro exI[of _ ex_queue]) (simp add: ex_queue_def tenant_held_def)
qed

text \<open>
  C12. Shutdown drains: from every state in which Shutdown was called, however the goroutines are scheduled, only
  boundedly many steps can still change the queue, submissions are refused, and the queue can always go on to
  the state in which the wait group is empty and Shutdown returns.
\<close>

theorem tenant_queue_drains:
  assumes "tq_step\<^sup>*\<^sup>* (NewTenantQueue globalCap perTenant) q" "tq_closed q"
  shows "tq_Submit t q = None \<and> (\<exists>q'. tq_step\<^sup>*\<^sup>* q q' \<and> tq_drained q')
    \<and> (\<forall>run n. run 0 = q \<and> (\<forall>i<n. tq_step (run i) (run (Suc i)) \<and> run (Suc i) \<noteq> run i) \<longrightarrow> n \<le> tq_load q)"
  using tenant_queue.drains[OF tq_inv_reach[OF assms(1)] assms(2)] tq_inv_reach[OF assms(1)] assms(2)
    tenant_queue.drain_bounded
  by (auto simp: tq_drained_def tq_Submit_def)

lemma tq_reach_shutdown: "tq_step\<^sup>*\<^sup>* q q' \<Longrightarrow> tq_step\<^sup>*\<^sup>* q (tq_Shutdown q')"
  using tq_shutdown by (meson rtranclp.rtrancl_into_rtrancl)

theorem tenant_queue_drains_witness:
  "\<exists>q q'. count (tq_jobs q) (TqRun ''a'') = 1 \<and> tq_closed q \<and> tq_step\<^sup>*\<^sup>* q q' \<and> tq_drained q'"
proof -
  have "\<exists>q'. tq_step\<^sup>*\<^sup>* (tq_Shutdown ex_queue) q' \<and> tq_drained q'"
    using tenant_queue_drains[OF tq_reach_shutdown[OF ex_queue_reach]] by (simp add: tq_Shutdown_def)
  moreover have "count (tq_jobs (tq_Shutdown ex_queue)) (TqRun ''a'') = 1 \<and> tq_closed (tq_Shutdown ex_queue)"
    by (simp add: tq_Shutdown_def ex_queue_def)
  ultimately show ?thesis by blast
qed

subsection \<open>The worker pool\<close>

datatype wp_job = WpWait | WpRun | WpDone

record WorkerPool =
  wp_maxWorkers :: int
  wp_semCap :: nat
  wp_sem :: nat
  wp_closed :: bool
  wp_wg :: nat
  wp_jobs :: "wp_job multiset"

definition NewWorkerPool :: "int \<Rightarrow> WorkerPool" where
  "NewWorkerPool maxw =
     \<lparr>wp_maxWorkers = maxw, wp_semCap = (if maxw < 0 then 0 else nat maxw), wp_sem = 0, wp_closed = False,
      wp_wg = 0, wp_jobs = {#}\<rparr>"

definition wp_move :: "wp_job \<Rightarrow> wp_job \<Rightarrow> WorkerPool \<Rightarrow> WorkerPool" where
  "wp_move j j' w = w\<lparr>wp_jobs := add_mset j' (wp_jobs w - {#j#})\<rparr>"

definition wp_SubmitCtx :: "WorkerPool \<Rightarrow> WorkerPool option" where
  "wp_SubmitCtx w =
     (if wp_closed w then None else Some (w\<lparr>wp_wg := wp_wg w + 1, wp_jobs := add_mset WpWait (wp_jobs w)\<rparr>))"

definition wp_Shutdown :: "WorkerPool \<Rightarrow> WorkerPool" where
  "wp_Shutdown w = w\<lparr>wp_closed := True\<rparr>"

definition wp_Closed :: "WorkerPool \<Rightarrow> bool" where
  "wp_Closed w = wp_closed w"

text \<open>An unbuffered channel, the semaphore of a pool of size zero, takes an element only when a
  receiver stands ready; the receivers are running jobs, and there are none.\<close>

inductive wp_step :: "WorkerPool \<Rightarrow> WorkerPool \<Rightarrow> bool" where
  wp_submit: "wp_SubmitCtx w = Some w' \<Longrightarrow> wp_step w w'"
| wp_acquire: "WpWait \<in># wp_jobs w \<Longrightarrow> wp_sem w < wp_semCap w \<Longrightarrow>
    wp_step w ((wp_move WpWait WpRun w)\<lparr>wp_sem := wp_sem w + 1\<rparr>)"
| wp_stop: "WpWait \<in># wp_jobs w \<Longrightarrow> wp_closed w \<Longrightarrow> wp_step w (wp_move WpWait WpDone w)"
| wp_cancel: "WpWait \<in># wp_jobs w \<Longrightarrow> wp_step w (wp_move WpWait WpDone w)"
| wp_finish: "WpRun \<in># wp_jobs w \<Longrightarrow> 0 < wp_sem w \<Longrightarrow>
    wp_step w ((wp_move WpRun WpDone w)\<lparr>wp_sem := wp_sem w - 1\<rparr>)"
| wp_wg_done: "WpDone \<in># wp_jobs w \<Longrightarrow>
    wp_step w (w\<lparr>wp_jobs := wp_jobs w - {#WpDone#}, wp_wg := wp_wg w - 1\<rparr>)"
| wp_shutdown: "wp_step w (wp_Shutdown w)"

definition wp_inv :: "WorkerPool \<Rightarrow> bool" where
  "wp_inv w \<longleftrightarrow> wp_sem w = count (wp_jobs w) WpRun \<and> wp_sem w \<le> wp_semCap w \<and> wp_wg w = size (wp_jobs w)"

definition wp_load :: "WorkerPool \<Rightarrow> nat" where
  "wp_load w = 3 * count (wp_jobs w) WpWait + 2 * count (wp_jobs w) WpRun + count (wp_jobs w) WpDone"

lemma wp_inv_step: "wp_step w w' \<Longrightarrow> wp_inv w \<Longrightarrow> wp_inv w'"
  by (induction rule: wp_step.induct)
    (auto simp: wp_inv_def wp_SubmitCtx_def wp_move_def wp_Shutdown_def split: if_splits
      dest!: multi_member_split)

lemma wp_load_step: "wp_step w w' \<Longrightarrow> wp_closed w \<Longrightarrow> w' \<noteq> w \<Longrightarrow> wp_load w' < wp_load w"
  by (induction rule: wp_step.induct)
    (auto simp: wp_load_def wp_SubmitCtx_def wp_move_def wp_Shutdown_def dest!: multi_member_split)

lemma wp_closed_step: "wp_step w w' \<Longrightarrow> wp_closed w \<Longrightarrow> wp_closed w'"
  by (induction rule: wp_step.induct) (auto simp: wp_SubmitCtx_def wp_move_def wp_Shutdown_def)

lemma wp_progress:
  assumes "wp_inv w" "0 < wp_wg w"
  shows "\<exists>w'. wp_step w w' \<and> w' \<noteq> w"
proof -
  have "wp_jobs w \<noteq> {#}" using assms by (auto simp: wp_inv_def)
  then obtain j where j: "j \<in># wp_jobs w" by blast
  have moved: "wp_move j WpDone w \<noteq> w" if "j \<noteq> WpDone"
    using j that by (auto simp: wp_move_def dest!: multi_member_split arg_cong[where f = wp_jobs])
  show ?thesis
  proof (cases j)
    case WpWait
    then show ?thesis using wp_cancel[of w] j moved by auto
  next
    case WpRun
    then have "0 < wp_sem w" using assms(1) j by (auto simp: wp_inv_def count_greater_zero_iff)
    then show ?thesis using wp_finish[of w] j WpRun by (fastforce dest: arg_cong[where f = wp_sem])
  next
    case WpDone
    then show ?thesis using wp_wg_done[of w] j assms(2) by (fastforce dest: arg_cong[where f = wp_wg])
  qed
qed

interpretation worker_pool: drain_system wp_step wp_inv wp_closed wp_wg wp_load
  by unfold_locales (auto intro: wp_inv_step wp_closed_step wp_load_step wp_progress)

lemma wp_cap_reach: "wp_step\<^sup>*\<^sup>* w w' \<Longrightarrow> wp_semCap w' = wp_semCap w"
  by (induction rule: rtranclp_induct)
    (auto simp: wp_SubmitCtx_def wp_move_def wp_Shutdown_def split: if_splits elim!: wp_step.cases)

text \<open>A pool of nonpositive size never runs a job: every submission waits until it is cancelled or
  the pool is shut down.\<close>

lemma worker_pool_bound:
  assumes "wp_step\<^sup>*\<^sup>* (NewWorkerPool maxw) w"
  shows "int (count (wp_jobs w) WpRun) \<le> max 0 maxw"
proof -
  have "wp_inv (NewWorkerPool maxw)" by (simp add: wp_inv_def NewWorkerPool_def)
  then have "wp_inv w" using worker_pool.inv_steps[OF assms] by blast
  then show ?thesis
    using wp_cap_reach[OF assms] by (auto simp: wp_inv_def NewWorkerPool_def split: if_splits)
qed

lemma worker_pool_drains:
  assumes "wp_step\<^sup>*\<^sup>* (NewWorkerPool maxw) w" "wp_closed w"
  shows "\<exists>w'. wp_step\<^sup>*\<^sup>* w w' \<and> wp_wg w' = 0"
proof -
  have "wp_inv (NewWorkerPool maxw)" by (simp add: wp_inv_def NewWorkerPool_def)
  then show ?thesis
    using worker_pool.drains worker_pool.inv_steps[OF assms(1)] assms(2) by blast
qed

end
