(* ===== verification/Idempotency.thy ===== *)
theory Idempotency
  imports Http KV_Store
begin

text \<open>
  The idempotency middleware of \<open>internal/api/middleware/idempotency.go\<close>: scoping of the key, the
  recorder that captures a response, and the handling of concurrent requests with one key over the
  key-value store and the in-flight table.

  SHA-256 with hex encoding is the argument \<open>sha\<close>. A handler is what it writes: a sequence of
  \<open>WriteHeader\<close> and \<open>Write\<close> calls. Every request goroutine is an element of a multiset, and the
  step relation interleaves them at the mutex sections, the calls to the store and the handler.
  The state keeps the history of what happened to each key, newest first.
\<close>

definition idempotencyBucket :: string where
  "idempotencyBucket = ''idempotency''"

definition idempotencyTTLSecs :: int where
  "idempotencyTTLSecs = 86400"

record idempotencyEntry =
  ie_StatusCode :: int
  ie_ContentType :: string
  ie_Body :: bytes

definition idempotencyMethod :: "string \<Rightarrow> bool" where
  "idempotencyMethod m \<longleftrightarrow> m = ''POST'' \<or> m = ''PUT'' \<or> m = ''PATCH''"

definition skipIdempotencyPath :: "string \<Rightarrow> bool" where
  "skipIdempotencyPath path = hasPrefix path ''/api/v1/auth/''"

definition idempotencyAuthScope :: "Request \<Rightarrow> string" where
  "idempotencyAuthScope r =
     (if rq_Header r ''Authorization'' \<noteq> [] then ''authorization:'' @ rq_Header r ''Authorization''
      else if rq_Header r ''X-Api-Key'' \<noteq> [] then ''api-key:'' @ rq_Header r ''X-Api-Key''
      else if rq_Header r ''Cookie'' \<noteq> [] then ''cookie:'' @ rq_Header r ''Cookie''
      else ''anonymous'')"

definition scopedIdempotencyKey :: "(bytes \<Rightarrow> string) \<Rightarrow> Request \<Rightarrow> string \<Rightarrow> bytes \<Rightarrow> string" where
  "scopedIdempotencyKey sha r key body =
     joinWith '':'' [rq_Method r, rq_Path r, key, ''auth='' @ sha (idempotencyAuthScope r), ''body='' @ sha body]"

subsection \<open>The recorder\<close>

record idempotencyRecorder =
  rec_status :: int
  rec_body :: bytes
  rec_wroteHeader :: bool

definition rec_WriteHeader :: "int \<Rightarrow> idempotencyRecorder \<Rightarrow> idempotencyRecorder" where
  "rec_WriteHeader code r = (if rec_wroteHeader r then r else r\<lparr>rec_status := code, rec_wroteHeader := True\<rparr>)"

definition rec_Write :: "bytes \<Rightarrow> idempotencyRecorder \<Rightarrow> idempotencyRecorder" where
  "rec_Write b r = r\<lparr>rec_wroteHeader := True, rec_body := rec_body r @ b\<rparr>"

datatype resp_op = OpWriteHeader int | OpWrite bytes

fun rec_op :: "resp_op \<Rightarrow> idempotencyRecorder \<Rightarrow> idempotencyRecorder" where
  "rec_op (OpWriteHeader code) = rec_WriteHeader code"
| "rec_op (OpWrite b) = rec_Write b"

text \<open>What is cached of a handler run: nothing unless the status is 2xx.\<close>

definition idem_capture :: "resp_op list \<Rightarrow> string \<Rightarrow> idempotencyEntry option" where
  "idem_capture ops contentType =
     (let r = fold rec_op ops \<lparr>rec_status = 200, rec_body = [], rec_wroteHeader = False\<rparr>
      in if rec_status r \<ge> 200 \<and> rec_status r < 300
         then Some \<lparr>ie_StatusCode = rec_status r, ie_ContentType = contentType, ie_Body = rec_body r\<rparr>
         else None)"

subsection \<open>The middleware\<close>

datatype idem_entry = IdemPass | IdemBadBody | IdemKeyed string

definition idem_begin :: "(bytes \<Rightarrow> string) \<Rightarrow> bool \<Rightarrow> bool \<Rightarrow> Request \<Rightarrow> idem_entry" where
  "idem_begin sha kv_nil body_ok r =
     (let key = rq_Header r ''Idempotency-Key''
      in if \<not> idempotencyMethod (rq_Method r) \<or> skipIdempotencyPath (rq_Path r) then IdemPass
         else if key = [] \<or> kv_nil then IdemPass
         else if \<not> body_ok then IdemBadBody
         else IdemKeyed (scopedIdempotencyKey sha r key (rq_Body r)))"

datatype idem_job =
    JGet string \<comment> \<open>marked in flight, about to read the cache\<close>
  | JRun string \<comment> \<open>in the handler\<close>
  | JStore string idempotencyEntry \<comment> \<open>about to write the cache\<close>
  | JEnd string \<comment> \<open>about to leave the in-flight table\<close>

datatype idem_event =
    EvConflict string \<comment> \<open>refused with 409\<close>
  | EvRun string time kv_error \<comment> \<open>the handler was started after this cache read error\<close>
  | EvStored string idempotencyEntry time
  | EvReplay string idempotencyEntry time

record 'j idem =
  id_kv :: "'j KVStore"
  id_inFlight :: "string set"
  id_now :: time
  id_jobs :: "idem_job multiset"
  id_log :: "idem_event list"

definition id_move :: "idem_job \<Rightarrow> idem_job \<Rightarrow> 'j idem \<Rightarrow> 'j idem" where
  "id_move j j' s = s\<lparr>id_jobs := add_mset j' (id_jobs s - {#j#})\<rparr>"

definition id_note :: "idem_event \<Rightarrow> 'j idem \<Rightarrow> 'j idem" where
  "id_note ev s = s\<lparr>id_log := ev # id_log s\<rparr>"

inductive id_step :: "(idempotencyEntry \<Rightarrow> 'j option) \<Rightarrow> ('j \<Rightarrow> idempotencyEntry option) \<Rightarrow> 'j idem \<Rightarrow> 'j idem \<Rightarrow> bool"
  for enc dec where
  id_enter: "idem_begin sha False True r = IdemKeyed k \<Longrightarrow> k \<notin> id_inFlight s \<Longrightarrow>
    id_step enc dec s (s\<lparr>id_inFlight := insert k (id_inFlight s), id_jobs := add_mset (JGet k) (id_jobs s)\<rparr>)"
| id_conflict: "idem_begin sha False True r = IdemKeyed k \<Longrightarrow> k \<in> id_inFlight s \<Longrightarrow>
    id_step enc dec s (id_note (EvConflict k) s)"
| id_hit: "JGet k \<in># id_jobs s \<Longrightarrow> kv_Get dec io (id_now s) idempotencyBucket k (id_kv s) = Inr e \<Longrightarrow>
    id_step enc dec s (id_note (EvReplay k e (id_now s)) (id_move (JGet k) (JEnd k) s))"
| id_miss: "JGet k \<in># id_jobs s \<Longrightarrow> kv_Get dec io (id_now s) idempotencyBucket k (id_kv s) = Inl err \<Longrightarrow>
    id_step enc dec s (id_note (EvRun k (id_now s) err) (id_move (JGet k) (JRun k) s))"
| id_success: "JRun k \<in># id_jobs s \<Longrightarrow> idem_capture ops contentType = Some e \<Longrightarrow>
    id_step enc dec s (id_move (JRun k) (JStore k e) s)"
| id_failure: "JRun k \<in># id_jobs s \<Longrightarrow> idem_capture ops contentType = None \<Longrightarrow>
    id_step enc dec s (id_move (JRun k) (JEnd k) s)"
| id_panic: "JRun k \<in># id_jobs s \<Longrightarrow> id_step enc dec s (id_move (JRun k) (JEnd k) s)"
| id_store: "JStore k e \<in># id_jobs s \<Longrightarrow>
    kv_Set enc io (id_now s) idempotencyBucket k e idempotencyTTLSecs (id_kv s) = (kv', None) \<Longrightarrow>
    id_step enc dec s (id_note (EvStored k e (id_now s)) ((id_move (JStore k e) (JEnd k) s)\<lparr>id_kv := kv'\<rparr>))"
| id_store_failed: "JStore k e \<in># id_jobs s \<Longrightarrow>
    kv_Set enc io (id_now s) idempotencyBucket k e idempotencyTTLSecs (id_kv s) = (kv', Some err) \<Longrightarrow>
    id_step enc dec s ((id_move (JStore k e) (JEnd k) s)\<lparr>id_kv := kv'\<rparr>)"
| id_leave: "JEnd k \<in># id_jobs s \<Longrightarrow>
    id_step enc dec s (s\<lparr>id_inFlight := id_inFlight s - {k}, id_jobs := id_jobs s - {#JEnd k#}\<rparr>)"
| id_tick: "0 \<le> d \<Longrightarrow> id_step enc dec s (s\<lparr>id_now := id_now s + d\<rparr>)"
| id_other: "(\<And>k. sql_select idempotencyBucket k (kv_rows kv') = sql_select idempotencyBucket k (kv_rows (id_kv s))) \<Longrightarrow>
    id_step enc dec s (s\<lparr>id_kv := kv'\<rparr>)"

definition id_start :: "time \<Rightarrow> 'j idem" where
  "id_start now = \<lparr>id_kv = NewKVStore, id_inFlight = {}, id_now = now, id_jobs = {#}, id_log = []\<rparr>"

subsection \<open>What the history of a key says about the cache\<close>

fun job_key :: "idem_job \<Rightarrow> string" where
  "job_key (JGet k) = k"
| "job_key (JRun k) = k"
| "job_key (JStore k e) = k"
| "job_key (JEnd k) = k"

fun last_stored :: "string \<Rightarrow> idem_event list \<Rightarrow> (idempotencyEntry \<times> time) option" where
  "last_stored k [] = None"
| "last_stored k (EvStored k' e t # evs) = (if k' = k then Some (e, t) else last_stored k evs)"
| "last_stored k (_ # evs) = last_stored k evs"

fun event_ok :: "idem_event \<Rightarrow> idem_event list \<Rightarrow> bool" where
  "event_ok (EvRun k t err) evs \<longleftrightarrow>
     err = KVDatabase \<or> (case last_stored k evs of None \<Rightarrow> True | Some (e, u) \<Rightarrow> u + idempotencyTTLSecs \<le> t)"
| "event_ok (EvReplay k e t) evs \<longleftrightarrow> (\<exists>u. last_stored k evs = Some (e, u) \<and> t < u + idempotencyTTLSecs)"
| "event_ok (EvStored k e t) evs \<longleftrightarrow> (\<forall>f u. last_stored k evs = Some (f, u) \<longrightarrow> u \<le> t)"
| "event_ok (EvConflict k) evs \<longleftrightarrow> True"

fun log_ok :: "idem_event list \<Rightarrow> bool" where
  "log_ok [] = True"
| "log_ok (ev # evs) = (event_ok ev evs \<and> log_ok evs)"

definition cache_is :: "('j \<Rightarrow> idempotencyEntry option) \<Rightarrow> 'j idem \<Rightarrow> string \<Rightarrow> bool" where
  "cache_is dec s k \<longleftrightarrow>
     (case last_stored k (id_log s) of
        None \<Rightarrow> sql_select idempotencyBucket k (kv_rows (id_kv s)) = None
      | Some (e, u) \<Rightarrow> 0 \<le> u \<and> u \<le> id_now s \<and>
          (\<exists>row. sql_select idempotencyBucket k (kv_rows (id_kv s)) = Some row
             \<and> dec (row_data row) = Some e \<and> row_expires_at row = u + idempotencyTTLSecs))"

definition id_inv :: "('j \<Rightarrow> idempotencyEntry option) \<Rightarrow> 'j idem \<Rightarrow> bool" where
  "id_inv dec s \<longleftrightarrow> 0 \<le> id_now s \<and> log_ok (id_log s) \<and> (\<forall>k. cache_is dec s k)
     \<and> (\<forall>k. size (filter_mset (\<lambda>j. job_key j = k) (id_jobs s)) = of_bool (k \<in> id_inFlight s))"

lemma id_move_count:
  assumes "j \<in># id_jobs s" "job_key j' = job_key j"
  shows "size (filter_mset (\<lambda>j. job_key j = k) (id_jobs (id_move j j' s))) = size (filter_mset (\<lambda>j. job_key j = k) (id_jobs s))"
  using assms by (auto simp: id_move_def dest!: multi_member_split)

lemma id_move_simps [simp]:
  "id_kv (id_move j j' s) = id_kv s" "id_inFlight (id_move j j' s) = id_inFlight s"
  "id_now (id_move j j' s) = id_now s" "id_log (id_move j j' s) = id_log s"
  by (simp_all add: id_move_def)

lemma id_note_simps [simp]:
  "id_kv (id_note ev s) = id_kv s" "id_inFlight (id_note ev s) = id_inFlight s"
  "id_now (id_note ev s) = id_now s" "id_log (id_note ev s) = ev # id_log s" "id_jobs (id_note ev s) = id_jobs s"
  by (simp_all add: id_note_def)

lemma cache_is_cong:
  "last_stored k (id_log s') = last_stored k (id_log s) \<Longrightarrow> id_now s \<le> id_now s' \<Longrightarrow>
   sql_select idempotencyBucket k (kv_rows (id_kv s')) = sql_select idempotencyBucket k (kv_rows (id_kv s)) \<Longrightarrow>
   cache_is dec s k \<Longrightarrow> cache_is dec s' k"
  by (auto simp: cache_is_def split: option.splits)

text \<open>What the cache read says about the history.\<close>

lemma cache_hit:
  assumes "cache_is dec s k" "kv_Get dec io (id_now s) idempotencyBucket k (id_kv s) = Inr e"
  shows "\<exists>u. last_stored k (id_log s) = Some (e, u) \<and> id_now s < u + idempotencyTTLSecs"
  using assms
  by (auto simp: cache_is_def kv_Get_def idempotencyTTLSecs_def split: option.splits if_splits prod.splits)

lemma cache_miss:
  assumes "cache_is dec s k" "kv_Get dec io (id_now s) idempotencyBucket k (id_kv s) = Inl err"
  shows "event_ok (EvRun k (id_now s) err) (id_log s)"
  using assms
  by (auto simp: cache_is_def kv_Get_def split: option.splits if_splits prod.splits)

lemma id_inv_keep:
  assumes "id_inv dec s" "id_now s \<le> id_now s'" "log_ok (id_log s')"
    and "\<And>k. last_stored k (id_log s') = last_stored k (id_log s)"
    and "\<And>k. sql_select idempotencyBucket k (kv_rows (id_kv s')) = sql_select idempotencyBucket k (kv_rows (id_kv s))"
    and "\<And>k. size (filter_mset (\<lambda>j. job_key j = k) (id_jobs s')) = of_bool (k \<in> id_inFlight s')"
  shows "id_inv dec s'"
  using assms cache_is_cong[of _ s' s dec] by (auto simp: id_inv_def intro: order_trans)

lemma id_inv_moved:
  assumes "id_inv dec s" "j \<in># id_jobs s" "job_key j' = job_key j"
  shows "id_inv dec (id_move j j' s)"
  by (rule id_inv_keep[OF assms(1)]) (use assms(1) id_move_count[OF assms(2,3)] in \<open>auto simp: id_inv_def\<close>)

lemma id_inv_store:
  assumes "id_inv dec s" "codec_ok enc dec" "JStore k e \<in># id_jobs s"
    and "kv_Set enc io (id_now s) idempotencyBucket k e idempotencyTTLSecs (id_kv s) = (kv', None)"
  shows "id_inv dec (id_note (EvStored k e (id_now s)) ((id_move (JStore k e) (JEnd k) s)\<lparr>id_kv := kv'\<rparr>))"
    (is "id_inv dec ?s'")
proof -
  obtain j where j: "enc e = Some j" "dec j = Some e"
    using assms(2) by (auto simp: codec_ok_def)
  then have kv': "kv' = kv_put idempotencyBucket k j (id_now s + idempotencyTTLSecs) (id_kv s)"
    using assms(4) by (auto simp: kv_Set_def expiry_def idempotencyTTLSecs_def split: if_splits)
  have now: "0 \<le> id_now s" and log: "log_ok (id_log s)" and cache: "\<And>x. cache_is dec s x"
    using assms(1) by (auto simp: id_inv_def)
  have "log_ok (id_log ?s')"
    using cache[of k] log by (auto simp: cache_is_def)
  moreover have "cache_is dec ?s' x" for x
    using cache[of x] now j(2) by (auto simp: cache_is_def kv' kv_put_def sql_select_upsert split: option.splits)
  moreover have "size (filter_mset (\<lambda>j. job_key j = x) (id_jobs ?s')) = of_bool (x \<in> id_inFlight ?s')" for x
    using assms(1) id_move_count[OF assms(3), of "JEnd k" x] by (simp add: id_inv_def)
  ultimately show ?thesis
    using now by (simp add: id_inv_def)
qed

lemma id_inv_step:
  assumes "id_step enc dec s s'" "codec_ok enc dec" "id_inv dec s"
  shows "id_inv dec s'"
  using assms(1)
proof cases
  case (id_enter sha r k)
  show ?thesis
    by (rule id_inv_keep[OF assms(3)]) (use assms(3) id_enter in \<open>auto simp: id_inv_def\<close>)
next
  case (id_conflict sha r k)
  show ?thesis
    by (rule id_inv_keep[OF assms(3)]) (use assms(3) id_conflict in \<open>auto simp: id_inv_def\<close>)
next
  case (id_hit k io e)
  show ?thesis
    by (rule id_inv_keep[OF assms(3)])
      (use assms(3) id_hit cache_hit[of dec s k io e] id_move_count[of "JGet k" s "JEnd k"] in \<open>auto simp: id_inv_def\<close>)
next
  case (id_miss k io err)
  show ?thesis
    by (rule id_inv_keep[OF assms(3)])
      (use assms(3) id_miss cache_miss[of dec s k io err] id_move_count[of "JGet k" s "JRun k"] in \<open>auto simp: id_inv_def\<close>)
next
  case (id_store k e io kv')
  then show ?thesis using id_inv_store assms(2,3) by blast
next
  case (id_store_failed k e io kv' err)
  then have "kv' = id_kv s" by (auto simp: kv_Set_def split: option.splits if_splits)
  show ?thesis
    by (rule id_inv_keep[OF assms(3)])
      (use assms(3) id_store_failed \<open>kv' = id_kv s\<close> id_move_count[of "JStore k e" s "JEnd k"] in \<open>auto simp: id_inv_def\<close>)
next
  case (id_leave k)
  then obtain J where J: "id_jobs s = add_mset (JEnd k) J" by (auto dest: multi_member_split)
  have "size (filter_mset (\<lambda>j. job_key j = x) (id_jobs s)) = of_bool (x \<in> id_inFlight s)" for x
    using assms(3) by (simp add: id_inv_def)
  note cnt = this[unfolded J]
  have "size (filter_mset (\<lambda>j. job_key j = x) J) = of_bool (x \<in> id_inFlight s - {k})" for x
    using cnt[of x] by (cases "x = k"; cases "x \<in> id_inFlight s") simp_all
  then show ?thesis
    by (intro id_inv_keep[OF assms(3)]) (use assms(3) id_leave J in \<open>auto simp: id_inv_def\<close>)
next
  case (id_tick d)
  show ?thesis
    by (rule id_inv_keep[OF assms(3)]) (use assms(3) id_tick in \<open>auto simp: id_inv_def\<close>)
next
  case (id_other kv')
  show ?thesis
    by (rule id_inv_keep[OF assms(3)]) (use assms(3) id_other in \<open>auto simp: id_inv_def\<close>)
qed (auto intro: id_inv_moved[OF assms(3)])

lemma id_inv_start: "0 \<le> now \<Longrightarrow> id_inv dec (id_start now)"
  by (simp add: id_inv_def id_start_def cache_is_def NewKVStore_def initSchema_def sql_select_def)

lemma id_inv_reach:
  assumes "codec_ok enc dec" "0 \<le> now" "(id_step enc dec)\<^sup>*\<^sup>* (id_start now) s"
  shows "id_inv dec s"
  using assms(3) by (induction rule: rtranclp_induct) (auto intro: id_inv_start assms id_inv_step)

lemma log_ok_tail: "log_ok (newer @ older) \<Longrightarrow> log_ok older"
  by (induction newer) auto

lemma last_stored_newest:
  assumes "log_ok evs" "EvStored k e t \<in> set evs"
  shows "\<exists>f u. last_stored k evs = Some (f, u) \<and> t \<le> u"
  using assms
proof (induction evs)
  case (Cons ev evs)
  show ?case
  proof (cases "EvStored k e t \<in> set evs")
    case True
    then obtain f u where "last_stored k evs = Some (f, u)" "t \<le> u"
      using Cons by auto
    then show ?thesis
      using Cons.prems(1) by (cases ev) (auto intro: order_trans)
  next
    case False
    then show ?thesis using Cons.prems by auto
  qed
qed simp

text \<open>
  C13. At most once: for all interleavings of requests with the same scoped key, on a working clock and whatever
  happens in other buckets, at most one of them is between the in-flight check and its release, so a handler
  never runs twice at the same time for a key; after a response was stored the handler is not started again
  for 24 hours, unless the store fails to answer; and what is replayed is exactly the response stored last, and
  stored less than 24 hours ago.
\<close>

theorem idempotent_at_most_once:
  assumes "codec_ok enc dec" "0 \<le> now" "(id_step enc dec)\<^sup>*\<^sup>* (id_start now) s"
  shows "(\<forall>k. size (filter_mset (\<lambda>j. job_key j = k) (id_jobs s)) \<le> 1)
    \<and> (\<forall>newer k t err older e u. id_log s = newer @ EvRun k t err # older \<and> EvStored k e u \<in> set older
         \<and> err \<noteq> KVDatabase \<longrightarrow> u + idempotencyTTLSecs \<le> t)
    \<and> (\<forall>newer k e t older. id_log s = newer @ EvReplay k e t # older \<longrightarrow>
         (\<exists>u. last_stored k older = Some (e, u) \<and> t < u + idempotencyTTLSecs))"
proof (intro conjI allI impI)
  have inv: "id_inv dec s" by (rule id_inv_reach[OF assms])
  show "size (filter_mset (\<lambda>j. job_key j = k) (id_jobs s)) \<le> 1" for k
    using inv by (simp add: id_inv_def)
  have ok: "log_ok (ev # older)" if "id_log s = newer @ ev # older" for newer ev older
    using inv that log_ok_tail by (metis id_inv_def)
  show "u + idempotencyTTLSecs \<le> t"
    if "id_log s = newer @ EvRun k t err # older \<and> EvStored k e u \<in> set older \<and> err \<noteq> KVDatabase"
    for newer k t err older e u
    using that ok[of newer "EvRun k t err" older] last_stored_newest[of older k e u] by auto
  show "\<exists>u. last_stored k older = Some (e, u) \<and> t < u + idempotencyTTLSecs"
    if "id_log s = newer @ EvReplay k e t # older" for newer k e t older
    using ok[OF that] by auto
qed


definition ex_idem_request :: Request where
  "ex_idem_request = \<lparr>rq_Method = ''POST'', rq_Path = ''/api/v1/apps'',
     rq_Header = (\<lambda>h. if h = ''Idempotency-Key'' then ''k1'' else []), rq_Cookie = Map.empty,
     rq_RemoteAddr = ''10.0.0.1:1'', rq_Body = ''{}'', rq_Claims = None\<rparr>"

definition ex_idem_key :: string where
  "ex_idem_key = scopedIdempotencyKey (\<lambda>_. []) ex_idem_request ''k1'' ''{}''"

definition ex_idem_entry :: idempotencyEntry where
  "ex_idem_entry = \<lparr>ie_StatusCode = 201, ie_ContentType = ''application/json'', ie_Body = ''ok''\<rparr>"

lemma ex_idem_begin: "idem_begin (\<lambda>_. []) False True ex_idem_request = IdemKeyed ex_idem_key"
  by (simp add: idem_begin_def ex_idem_request_def ex_idem_key_def idempotencyMethod_def skipIdempotencyPath_def
      hasPrefix_def Let_def)

lemma ex_idem_capture: "idem_capture [OpWriteHeader 201, OpWrite ''ok''] ''application/json'' = Some ex_idem_entry"
  by (simp add: idem_capture_def rec_WriteHeader_def rec_Write_def ex_idem_entry_def)

text \<open>A request that runs the handler, and a second one that is answered from the cache.\<close>

lemma ex_idem_reach:
  "\<exists>s. (id_step Some Some)\<^sup>*\<^sup>* (id_start 0) s
     \<and> id_log s = EvReplay ex_idem_key ex_idem_entry 0
         # [EvStored ex_idem_key ex_idem_entry 0, EvRun ex_idem_key 0 KVNotFound]"
proof -
  let ?k = ex_idem_key and ?e = ex_idem_entry
  let ?kv = "NewKVStore :: idempotencyEntry KVStore"
  let ?kv1 = "kv_put idempotencyBucket ?k ?e 86400 ?kv"
  let ?st = "\<lambda>kv F J log. \<lparr>id_kv = kv, id_inFlight = F, id_now = 0, id_jobs = J, id_log = log\<rparr>"
  let ?run = "[EvRun ?k 0 KVNotFound]" and ?stored = "[EvStored ?k ?e 0, EvRun ?k 0 KVNotFound]"
  note ups = id_note_def id_move_def
  have "id_step Some Some (?st ?kv {} {#} []) (?st ?kv {?k} {#JGet ?k#} [])"
    using id_enter[OF ex_idem_begin, of "?st ?kv {} {#} []" Some Some] by simp
  moreover have "id_step Some Some (?st ?kv {?k} {#JGet ?k#} []) (?st ?kv {?k} {#JRun ?k#} ?run)"
    using id_miss[of ?k "?st ?kv {?k} {#JGet ?k#} []" Some True KVNotFound Some]
    by (simp add: ups kv_Get_def sql_select_def NewKVStore_def initSchema_def)
  moreover have "id_step Some Some (?st ?kv {?k} {#JRun ?k#} ?run) (?st ?kv {?k} {#JStore ?k ?e#} ?run)"
    using id_success[OF _ ex_idem_capture, of ?k "?st ?kv {?k} {#JRun ?k#} ?run" Some Some] by (simp add: ups)
  moreover have "id_step Some Some (?st ?kv {?k} {#JStore ?k ?e#} ?run) (?st ?kv1 {?k} {#JEnd ?k#} ?stored)"
    using id_store[of ?k ?e "?st ?kv {?k} {#JStore ?k ?e#} ?run" Some True ?kv1 Some]
    by (simp add: ups kv_Set_def expiry_def idempotencyTTLSecs_def)
  moreover have "id_step Some Some (?st ?kv1 {?k} {#JEnd ?k#} ?stored) (?st ?kv1 {} {#} ?stored)"
    using id_leave[of ?k "?st ?kv1 {?k} {#JEnd ?k#} ?stored" Some Some] by simp
  moreover have "id_step Some Some (?st ?kv1 {} {#} ?stored) (?st ?kv1 {?k} {#JGet ?k#} ?stored)"
    using id_enter[OF ex_idem_begin, of "?st ?kv1 {} {#} ?stored" Some Some] by simp
  moreover have "id_step Some Some (?st ?kv1 {?k} {#JGet ?k#} ?stored) (?st ?kv1 {?k} {#JEnd ?k#} (EvReplay ?k ?e 0 # ?stored))"
    using id_hit[of ?k "?st ?kv1 {?k} {#JGet ?k#} ?stored" Some True ?e Some]
    by (simp add: ups kv_Get_def kv_put_def sql_select_upsert)
  ultimately have "(id_step Some Some)\<^sup>*\<^sup>* (?st ?kv {} {#} []) (?st ?kv1 {?k} {#JEnd ?k#} (EvReplay ?k ?e 0 # ?stored))"
    by (meson rtranclp.rtrancl_into_rtrancl rtranclp.rtrancl_refl)
  then show ?thesis
    unfolding id_start_def by (intro exI conjI, assumption) simp
qed

theorem idempotent_at_most_once_witness:
  "\<exists>s. (id_step Some Some)\<^sup>*\<^sup>* (id_start 0) s \<and> hd (id_log s) = EvReplay ex_idem_key ex_idem_entry 0
     \<and> (\<exists>u. last_stored ex_idem_key (tl (id_log s)) = Some (ex_idem_entry, u) \<and> 0 < u + idempotencyTTLSecs)"
proof -
  obtain s where reach: "(id_step Some Some)\<^sup>*\<^sup>* (id_start 0) s" and
    log: "id_log s = EvReplay ex_idem_key ex_idem_entry 0
            # [EvStored ex_idem_key ex_idem_entry 0, EvRun ex_idem_key 0 KVNotFound]"
    using ex_idem_reach by blast
  have "codec_ok Some Some" by (simp add: codec_ok_def)
  from idempotent_at_most_once[OF this _ reach] log
  have "\<exists>u. last_stored ex_idem_key (tl (id_log s)) = Some (ex_idem_entry, u) \<and> 0 < u + idempotencyTTLSecs"
    by (metis append_Nil list.sel(3) order_refl)
  with reach log show ?thesis by auto
qed

end
