(* ===== verification/Compose_Stack.thy ===== *)
theory Compose_Stack
  imports Prelude
begin

text \<open>
  Docker Compose stacks: \<open>internal/compose/parser.go\<close> (environment normalisation, interpolation with
  generated secrets, dependency order) and the deployment loop of \<open>internal/compose/deployer.go\<close>.

  A YAML value of static type \<open>any\<close> is nil, a mapping, a sequence or something else; \<open>sprint\<close> is
  \<open>fmt.Sprintf("%v")\<close> on its elements. Iteration over a Go map takes the keys in an arbitrary
  order, which is an argument. The YAML library is the argument \<open>unmarshal\<close>, the password generator
  a supply of passwords, of which a run uses the first ones.
\<close>

datatype 'v yaml_any = AnyNil | AnyMap "(string \<times> 'v) list" | AnyList "'v list" | AnyOther

record 'v ServiceConfig =
  sc_Image :: string
  sc_Build :: bool
  sc_Environment :: "'v yaml_any"
  sc_DependsOn :: "'v yaml_any"
  sc_Labels :: "(string \<times> string) list"
  sc_Restart :: string
  sc_Limits :: "(string \<times> string) option"
  sc_ResolvedEnv :: "(string \<times> string) list"

record 'v ComposeFile =
  cf_Services :: "string \<rightharpoonup> 'v ServiceConfig option"

subsection \<open>Parsing\<close>

definition MaxComposeYAMLSize :: nat where
  "MaxComposeYAMLSize = 1048576"

text \<open>Association lists stand for the Go maps of strings; a later entry replaces an earlier one.\<close>

definition put_env :: "string \<Rightarrow> string \<Rightarrow> (string \<times> string) list \<Rightarrow> (string \<times> string) list" where
  "put_env k v env = filter (\<lambda>p. fst p \<noteq> k) env @ [(k, v)]"

fun split_env :: "string \<Rightarrow> string \<times> string" where
  "split_env s =
     (case indexOf s ''='' of None \<Rightarrow> (s, []) | Some i \<Rightarrow> (take i s, drop (Suc i) s))"

definition resolveEnv :: "('v \<Rightarrow> string) \<Rightarrow> 'v yaml_any \<Rightarrow> (string \<times> string) list" where
  "resolveEnv sprint env =
     (case env of
        AnyMap kvs \<Rightarrow> fold (\<lambda>(k, v). put_env k (sprint v)) kvs []
      | AnyList items \<Rightarrow> fold (\<lambda>item. case split_env (sprint item) of (k, v) \<Rightarrow> put_env k v) items []
      | _ \<Rightarrow> [])"

definition empty_service :: "'v ServiceConfig" where
  "empty_service = \<lparr>sc_Image = [], sc_Build = False, sc_Environment = AnyNil, sc_DependsOn = AnyNil,
     sc_Labels = [], sc_Restart = [], sc_Limits = None, sc_ResolvedEnv = []\<rparr>"

datatype compose_error = ComposeTooLarge | ComposeYAML string | ComposeNoServices

definition compose_Parse ::
  "(bytes \<Rightarrow> string + 'v ComposeFile) \<Rightarrow> ('v \<Rightarrow> string) \<Rightarrow> bytes \<Rightarrow> compose_error + 'v ComposeFile" where
  "compose_Parse unmarshal sprint doc =
     (if length doc > MaxComposeYAMLSize then Inl ComposeTooLarge
      else case unmarshal doc of
             Inl e \<Rightarrow> Inl (ComposeYAML e)
           | Inr cf \<Rightarrow>
               if dom (cf_Services cf) = {} then Inl ComposeNoServices
               else Inr (cf\<lparr>cf_Services := (\<lambda>name. map_option (\<lambda>svc.
                      let s = (case svc of None \<Rightarrow> empty_service | Some s \<Rightarrow> s)
                      in Some (s\<lparr>sc_ResolvedEnv := resolveEnv sprint (sc_Environment s)\<rparr>)) (cf_Services cf name))\<rparr>))"

subsection \<open>Interpolation\<close>

definition isSensitiveEnvKey :: "string \<Rightarrow> bool" where
  "isSensitiveEnvKey key =
     list_ex (contains (toUpper key)) [''PASSWORD'', ''PASS'', ''PWD'', ''SECRET'', ''TOKEN'', ''KEY'', ''SALT'']"

definition isWeakSecretDefault :: "string \<Rightarrow> bool" where
  "isWeakSecretDefault val =
     (let v = toLower (trimSpace val)
      in v \<noteq> [] \<and> v \<in> set [''admin'', ''authentik'', ''baserow'', ''bookstack'', ''change-this'', ''change-this-key'',
           ''change-this-secret'', ''change-this-too'', ''changeme'', ''huginn'', ''immich'', ''keycloak'',
           ''masterkey123'', ''matomo'', ''minioadmin'', ''paperless'', ''please-change-me'', ''rootpass'',
           ''seafile'', ''wiki''])"

text \<open>The generated secrets so far, and how many passwords of the supply were used.\<close>

type_synonym secrets = "(string \<rightharpoonup> string) \<times> nat"

definition generatedSecret :: "(nat \<Rightarrow> string) \<Rightarrow> string \<Rightarrow> secrets \<Rightarrow> string \<times> secrets" where
  "generatedSecret pwgen key gen =
     (case fst gen key of
        Some pw \<Rightarrow> (pw, gen)
      | None \<Rightarrow> (pwgen (snd gen), ((fst gen)(key \<mapsto> pwgen (snd gen)), Suc (snd gen))))"

definition expand :: "(nat \<Rightarrow> string) \<Rightarrow> (string \<rightharpoonup> string) \<Rightarrow> string \<Rightarrow> secrets \<Rightarrow> string \<times> secrets" where
  "expand pwgen vars expr gen =
     (case indexOf expr '':-'' of
        Some i \<Rightarrow>
          let key = take i expr; defaultVal = drop (i + 2) expr
          in if vars key \<noteq> None \<and> vars key \<noteq> Some [] then (the (vars key), gen)
             else if isSensitiveEnvKey key \<and> isWeakSecretDefault defaultVal then generatedSecret pwgen key gen
             else (defaultVal, gen)
      | None \<Rightarrow>
          (case vars expr of
             Some val \<Rightarrow> (val, gen)
           | None \<Rightarrow>
               if isSensitiveEnvKey expr then generatedSecret pwgen expr gen
               else (''${'' @ expr @ ''}'', gen)))"

text \<open>The leftmost match of the regular expression \<open>\$\{([^}]+)\}\<close> at the start of the input: the
  expression between the braces and the rest.\<close>

definition match_ref :: "string \<Rightarrow> (string \<times> string) option" where
  "match_ref s =
     (if hasPrefix s ''${'' then
        (let body = takeWhile (\<lambda>c. c \<noteq> CHR ''}'') (drop 2 s); rest = dropWhile (\<lambda>c. c \<noteq> CHR ''}'') (drop 2 s)
         in if body \<noteq> [] \<and> rest \<noteq> [] then Some (body, tl rest) else None)
      else None)"

lemma match_ref_shorter:
  assumes "match_ref s = Some (e, rest)"
  shows "length rest < length s"
proof -
  let ?r = "dropWhile (\<lambda>c. c \<noteq> CHR ''}'') (drop 2 s)"
  have "rest = tl ?r" "?r \<noteq> []"
    using assms by (simp_all add: match_ref_def Let_def split: if_splits)
  then have "length rest < length ?r" by simp
  also have "\<dots> \<le> length (drop 2 s)" by (rule length_dropWhile_le)
  finally show ?thesis by simp
qed

function interpolate :: "(nat \<Rightarrow> string) \<Rightarrow> (string \<rightharpoonup> string) \<Rightarrow> string \<Rightarrow> secrets \<Rightarrow> string \<times> secrets" where
  "interpolate pwgen vars [] gen = ([], gen)"
| "interpolate pwgen vars (c # s) gen =
     (case match_ref (c # s) of
        None \<Rightarrow> (case interpolate pwgen vars s gen of (out, gen') \<Rightarrow> (c # out, gen'))
      | Some (expr, rest) \<Rightarrow>
          (case expand pwgen vars expr gen of
             (val, gen1) \<Rightarrow> (case interpolate pwgen vars rest gen1 of (out, gen2) \<Rightarrow> (val @ out, gen2))))"
  by pat_completeness auto
termination
  by (relation "measure (\<lambda>(pwgen, vars, s, gen). length s)") (auto dest: match_ref_shorter)

definition InterpolateWithGenerated ::
  "(nat \<Rightarrow> string) \<Rightarrow> (string \<rightharpoonup> string) \<Rightarrow> string \<Rightarrow> string \<times> (string \<rightharpoonup> string)" where
  "InterpolateWithGenerated pwgen vars doc =
     (case interpolate pwgen vars doc (Map.empty, 0) of (out, gen) \<Rightarrow> (out, fst gen))"

definition Interpolate :: "(nat \<Rightarrow> string) \<Rightarrow> (string \<rightharpoonup> string) \<Rightarrow> string \<Rightarrow> string" where
  "Interpolate pwgen vars doc = fst (InterpolateWithGenerated pwgen vars doc)"

subsection \<open>Dependency order\<close>

definition parseDependsOn :: "('v \<Rightarrow> string) \<Rightarrow> 'v yaml_any \<Rightarrow> string list" where
  "parseDependsOn sprint dep =
     (case dep of AnyList items \<Rightarrow> map sprint items | AnyMap kvs \<Rightarrow> map fst kvs | _ \<Rightarrow> [])"

definition service_deps :: "('v \<Rightarrow> string) \<Rightarrow> 'v ComposeFile \<Rightarrow> string \<Rightarrow> string list" where
  "service_deps sprint cf name =
     (case cf_Services cf name of Some (Some svc) \<Rightarrow> parseDependsOn sprint (sc_DependsOn svc) | _ \<Rightarrow> [])"

record dfs =
  df_visited :: "string set"
  df_order :: "string list"

fun dfs_visit :: "(string \<Rightarrow> string list) \<Rightarrow> nat \<Rightarrow> string \<Rightarrow> dfs \<Rightarrow> dfs option"
  and dfs_list :: "(string \<Rightarrow> string list) \<Rightarrow> nat \<Rightarrow> string list \<Rightarrow> dfs \<Rightarrow> dfs option"
where
  "dfs_visit deps 0 name st = None"
| "dfs_visit deps (Suc n) name st =
     (if name \<in> df_visited st then Some st
      else
        (case dfs_list deps n (deps name) (st\<lparr>df_visited := insert name (df_visited st)\<rparr>) of
           None \<Rightarrow> None
         | Some st' \<Rightarrow> Some (st'\<lparr>df_order := df_order st' @ [name]\<rparr>)))"
| "dfs_list deps n [] st = Some st"
| "dfs_list deps n (d # ds) st = (case dfs_visit deps n d st of None \<Rightarrow> None | Some st' \<Rightarrow> dfs_list deps n ds st')"

definition DependencyOrder :: "('v \<Rightarrow> string) \<Rightarrow> string list \<Rightarrow> 'v ComposeFile \<Rightarrow> string list option" where
  "DependencyOrder sprint names cf =
     map_option df_order
       (dfs_list (service_deps sprint cf)
          (Suc (length names + length (concat (map (service_deps sprint cf) names)))) names
          \<lparr>df_visited = {}, df_order = []\<rparr>)"

subsection \<open>Correctness of the dependency order\<close>

definition depends :: "(string \<Rightarrow> string list) \<Rightarrow> (string \<times> string) set" where
  "depends deps = {(d, x). d \<in> set (deps x)}"

definition after_deps :: "(string \<Rightarrow> string list) \<Rightarrow> string list \<Rightarrow> bool" where
  "after_deps deps xs \<longleftrightarrow> (\<forall>us x vs. xs = us @ x # vs \<longrightarrow> set (deps x) \<subseteq> set us)"

lemma after_deps_Nil [simp]: "after_deps deps []"
  by (simp add: after_deps_def)

lemma after_deps_snoc [simp]: "after_deps deps (xs @ [x]) \<longleftrightarrow> after_deps deps xs \<and> set (deps x) \<subseteq> set xs"
proof -
  have "xs @ [x] = us @ y # vs \<longleftrightarrow> (vs = [] \<and> us = xs \<and> y = x) \<or> (\<exists>ws. vs = ws @ [x] \<and> xs = us @ y # ws)" for us y vs
    by (cases vs rule: rev_cases) auto
  then show ?thesis unfolding after_deps_def by (simp only:) blast
qed

text \<open>Names that are visited and not yet in the order are being visited.\<close>

definition open_names :: "dfs \<Rightarrow> string set" where
  "open_names st = df_visited st - set (df_order st)"

definition dfs_inv :: "dfs \<Rightarrow> bool" where
  "dfs_inv st \<longleftrightarrow> distinct (df_order st) \<and> set (df_order st) \<subseteq> df_visited st"

definition dfs_post :: "dfs \<Rightarrow> dfs \<Rightarrow> bool" where
  "dfs_post st st' \<longleftrightarrow> dfs_inv st' \<and> df_visited st \<subseteq> df_visited st' \<and> open_names st' = open_names st"

lemma dfs_success:
  "dfs_inv st \<Longrightarrow> dfs_visit deps n x st = Some st' \<Longrightarrow> dfs_post st st' \<and> x \<in> df_visited st'"
  "dfs_inv st \<Longrightarrow> dfs_list deps n ds st = Some st' \<Longrightarrow> dfs_post st st' \<and> set ds \<subseteq> df_visited st'"
proof (induction deps n x st and deps n ds st arbitrary: st' and st' rule: dfs_visit_dfs_list.induct)
  case (2 deps n x st)
  show ?case
  proof (cases "x \<in> df_visited st")
    case True
    then show ?thesis using 2 by (auto simp: dfs_post_def)
  next
    case new: False
    let ?st1 = "st\<lparr>df_visited := insert x (df_visited st)\<rparr>"
    obtain st2 where run: "dfs_list deps n (deps x) ?st1 = Some st2" and st': "st' = st2\<lparr>df_order := df_order st2 @ [x]\<rparr>"
      using 2(3) new by (auto split: option.splits)
    have "dfs_inv ?st1" using 2(2) by (auto simp: dfs_inv_def)
    then have post: "dfs_post ?st1 st2" using 2(1)[OF new _ run] by simp
    moreover have "x \<in> open_names ?st1" using new 2(2) by (auto simp: open_names_def dfs_inv_def)
    ultimately have "x \<in> open_names st2" by (simp add: dfs_post_def)
    then show ?thesis
      using post new 2(2) unfolding st' by (auto simp: dfs_post_def open_names_def dfs_inv_def)
  qed
next
  case (4 deps n d ds st)
  then obtain st1 where run: "dfs_visit deps n d st = Some st1" "dfs_list deps n ds st1 = Some st'"
    by (auto split: option.splits)
  then have "dfs_post st st1 \<and> d \<in> df_visited st1" using 4(1,3) by blast
  moreover from this have "dfs_post st1 st' \<and> set ds \<subseteq> df_visited st'"
    using 4(2)[OF run(1) _ run(2)] by (simp add: dfs_post_def)
  ultimately show ?case by (auto simp: dfs_post_def)
qed (auto simp: dfs_post_def)

text \<open>A name enters the order only after its dependencies were visited.\<close>

definition order_closed :: "(string \<Rightarrow> string list) \<Rightarrow> dfs \<Rightarrow> bool" where
  "order_closed deps st \<longleftrightarrow> (\<forall>x\<in>set (df_order st). set (deps x) \<subseteq> df_visited st)"

lemma dfs_closed:
  "dfs_inv st \<Longrightarrow> order_closed deps st \<Longrightarrow> dfs_visit deps n x st = Some st' \<Longrightarrow> order_closed deps st'"
  "dfs_inv st \<Longrightarrow> order_closed deps st \<Longrightarrow> dfs_list deps n ds st = Some st' \<Longrightarrow> order_closed deps st'"
proof (induction deps n x st and deps n ds st arbitrary: st' and st' rule: dfs_visit_dfs_list.induct)
  case (2 deps n x st)
  show ?case
  proof (cases "x \<in> df_visited st")
    case True
    then show ?thesis using 2 by auto
  next
    case new: False
    let ?st1 = "st\<lparr>df_visited := insert x (df_visited st)\<rparr>"
    obtain st2 where run: "dfs_list deps n (deps x) ?st1 = Some st2" and st': "st' = st2\<lparr>df_order := df_order st2 @ [x]\<rparr>"
      using 2(4) new by (auto split: option.splits)
    have "dfs_inv ?st1" "order_closed deps ?st1" using 2(2,3) by (auto simp: dfs_inv_def order_closed_def)
    then show ?thesis
      using 2(1)[OF new _ _ run] dfs_success(2)[OF _ run] by (auto simp: st' order_closed_def)
  qed
next
  case (4 deps n d ds st)
  then obtain st1 where run: "dfs_visit deps n d st = Some st1" "dfs_list deps n ds st1 = Some st'"
    by (auto split: option.splits)
  have "dfs_inv st1" using dfs_success(1)[OF 4(3) run(1)] by (simp add: dfs_post_def)
  then show ?case using 4(1)[OF 4(3,4) run(1)] 4(2)[OF run(1) _ _ run(2)] by blast
qed auto

definition below_open :: "(string \<Rightarrow> string list) \<Rightarrow> dfs \<Rightarrow> string \<Rightarrow> bool" where
  "below_open deps st x \<longleftrightarrow> (\<forall>g\<in>open_names st. (x, g) \<in> (depends deps)\<^sup>+)"

lemma below_open_closed:
  "acyclic (depends deps) \<Longrightarrow> below_open deps st x \<Longrightarrow> x \<in> df_visited st \<Longrightarrow> x \<in> set (df_order st)"
  by (auto simp: below_open_def open_names_def acyclic_def)

lemma dfs_ordered:
  "acyclic (depends deps) \<Longrightarrow> dfs_inv st \<Longrightarrow> after_deps deps (df_order st) \<Longrightarrow> below_open deps st x \<Longrightarrow>
     dfs_visit deps n x st = Some st' \<Longrightarrow> after_deps deps (df_order st')"
  "acyclic (depends deps) \<Longrightarrow> dfs_inv st \<Longrightarrow> after_deps deps (df_order st) \<Longrightarrow> (\<forall>d\<in>set ds. below_open deps st d) \<Longrightarrow>
     dfs_list deps n ds st = Some st' \<Longrightarrow> after_deps deps (df_order st') \<and> set ds \<subseteq> set (df_order st')"
proof (induction deps n x st and deps n ds st arbitrary: st' and st' rule: dfs_visit_dfs_list.induct)
  case (2 deps n x st)
  show ?case
  proof (cases "x \<in> df_visited st")
    case True
    then show ?thesis using 2 by auto
  next
    case new: False
    let ?st1 = "st\<lparr>df_visited := insert x (df_visited st)\<rparr>"
    obtain st2 where run: "dfs_list deps n (deps x) ?st1 = Some st2" and st': "st' = st2\<lparr>df_order := df_order st2 @ [x]\<rparr>"
      using 2(6) new by (auto split: option.splits)
    have "(d, x) \<in> depends deps" if "d \<in> set (deps x)" for d
      using that by (simp add: depends_def)
    then have "\<forall>d\<in>set (deps x). below_open deps ?st1 d"
      using 2(5) by (auto simp: below_open_def open_names_def intro: trancl_into_trancl2)
    moreover have "dfs_inv ?st1" using 2(3) by (auto simp: dfs_inv_def)
    ultimately have "after_deps deps (df_order st2) \<and> set (deps x) \<subseteq> set (df_order st2)"
      using 2(1)[OF new 2(2) _ _ _ run] 2(4) by simp
    then show ?thesis by (simp add: st')
  qed
next
  case (4 deps n d ds st)
  then obtain st1 where run: "dfs_visit deps n d st = Some st1" "dfs_list deps n ds st1 = Some st'"
    by (auto split: option.splits)
  have post: "dfs_post st st1" "d \<in> df_visited st1" using dfs_success(1)[OF 4(4) run(1)] by auto
  have ordered: "after_deps deps (df_order st1)" using 4(1)[OF 4(3,4,5) _ run(1)] 4(6) by simp
  have below: "\<forall>x\<in>set (d # ds). below_open deps st1 x"
    using 4(6) post(1) by (simp add: below_open_def dfs_post_def)
  have inv1: "dfs_inv st1" using post(1) by (simp add: dfs_post_def)
  have rest: "after_deps deps (df_order st') \<and> set ds \<subseteq> set (df_order st')"
    using 4(2)[OF run(1) 4(3) inv1 ordered _ run(2)] below by simp
  have post2: "dfs_post st1 st'" using dfs_success(2)[OF inv1 run(2)] by simp
  then have "d \<in> df_visited st'" "below_open deps st' d"
    using post(2) below by (auto simp: dfs_post_def below_open_def)
  then have "d \<in> set (df_order st')" using below_open_closed[OF 4(3)] by blast
  with rest show ?case by simp
qed auto

lemma dfs_fuel:
  assumes "finite U" "\<forall>x\<in>U. set (deps x) \<subseteq> U"
  shows "dfs_inv st \<Longrightarrow> x \<in> U \<Longrightarrow> card (U - df_visited st) < n \<Longrightarrow> \<exists>st'. dfs_visit deps n x st = Some st' \<and> df_visited st' \<subseteq> df_visited st \<union> U"
    and "dfs_inv st \<Longrightarrow> set ds \<subseteq> U \<Longrightarrow> card (U - df_visited st) < n \<Longrightarrow> \<exists>st'. dfs_list deps n ds st = Some st' \<and> df_visited st' \<subseteq> df_visited st \<union> U"
  using assms
proof (induction deps n x st and deps n ds st rule: dfs_visit_dfs_list.induct)
  case (2 deps n x st)
  show ?case
  proof (cases "x \<in> df_visited st")
    case new: False
    let ?st1 = "st\<lparr>df_visited := insert x (df_visited st)\<rparr>"
    have "U - insert x (df_visited st) \<subset> U - df_visited st" using 2(3) new by auto
    then have "card (U - insert x (df_visited st)) < card (U - df_visited st)"
      using 2(5) by (intro psubset_card_mono) auto
    then have "card (U - df_visited ?st1) < n" using 2(4) by simp
    moreover have "dfs_inv ?st1" "set (deps x) \<subseteq> U" using 2(2,3,6) by (auto simp: dfs_inv_def)
    ultimately obtain st2 where "dfs_list deps n (deps x) ?st1 = Some st2" "df_visited st2 \<subseteq> df_visited ?st1 \<union> U"
      using 2(1)[OF new _ _ _ 2(5,6)] by blast
    then show ?thesis using new 2(3) by auto
  qed auto
next
  case (4 deps n d ds st)
  obtain st1 where run: "dfs_visit deps n d st = Some st1" "df_visited st1 \<subseteq> df_visited st \<union> U"
    using 4(1)[OF 4(3) _ 4(5,6,7)] 4(4) by auto
  then have post: "dfs_post st st1" using dfs_success(1)[OF 4(3)] by blast
  then have "card (U - df_visited st1) \<le> card (U - df_visited st)"
    using 4(6) by (intro card_mono) (auto simp: dfs_post_def)
  then obtain st2 where "dfs_list deps n ds st1 = Some st2" "df_visited st2 \<subseteq> df_visited st1 \<union> U"
    using 4(2)[OF run(1) _ _ _ 4(6,7)] 4(4,5) post by (auto simp: dfs_post_def)
  then show ?case using run by auto
qed auto


definition mentioned :: "(string \<Rightarrow> string list) \<Rightarrow> string list \<Rightarrow> string set" where
  "mentioned deps names = set names \<union> set (concat (map deps names))"

lemma service_deps_closed:
  assumes "set names = dom (cf_Services cf)"
  shows "\<forall>x. set (service_deps sprint cf x) \<subseteq> mentioned (service_deps sprint cf) names"
proof
  fix x
  show "set (service_deps sprint cf x) \<subseteq> mentioned (service_deps sprint cf) names"
  proof (cases "x \<in> set names")
    case True
    then show ?thesis by (auto simp: mentioned_def)
  next
    case False
    then show ?thesis using assms by (auto simp: service_deps_def domIff)
  qed
qed

lemma compose_order_total:
  assumes "set names = dom (cf_Services cf)"
  shows "\<exists>order. DependencyOrder sprint names cf = Some order \<and> distinct order
    \<and> set order = mentioned (service_deps sprint cf) names
    \<and> (acyclic (depends (service_deps sprint cf)) \<longrightarrow> after_deps (service_deps sprint cf) order)"
proof -
  let ?deps = "service_deps sprint cf" and ?st = "\<lparr>df_visited = {}, df_order = []\<rparr>"
  let ?U = "mentioned ?deps names" and ?n = "Suc (length names + length (concat (map ?deps names)))"
  have inv: "dfs_inv ?st" by (simp add: dfs_inv_def)
  have U: "finite ?U" "\<forall>x\<in>?U. set (?deps x) \<subseteq> ?U" "set names \<subseteq> ?U"
    using service_deps_closed[OF assms] by (auto simp: mentioned_def)
  have "card ?U \<le> card (set names) + card (set (concat (map ?deps names)))"
    unfolding mentioned_def by (rule card_Un_le)
  also have "\<dots> < ?n"
    using card_length[of names] card_length[of "concat (map ?deps names)"] by linarith
  finally obtain st where run: "dfs_list ?deps ?n names ?st = Some st" "df_visited st \<subseteq> ?U"
    using dfs_fuel(2)[OF U(1,2) inv U(3)] by auto
  have post: "dfs_post ?st st" "set names \<subseteq> df_visited st" using dfs_success(2)[OF inv run(1)] by auto
  then have order: "set (df_order st) = df_visited st" "distinct (df_order st)"
    by (auto simp: dfs_post_def open_names_def dfs_inv_def)
  have closed: "\<forall>x\<in>set names. set (?deps x) \<subseteq> df_visited st"
    using dfs_closed(2)[OF inv _ run(1)] post(2) order(1) by (auto simp: order_closed_def)
  have "after_deps ?deps (df_order st)" if "acyclic (depends ?deps)"
    using dfs_ordered(2)[OF that inv _ _ run(1)] by (simp add: below_open_def open_names_def)
  moreover have "?U \<subseteq> df_visited st" using closed post(2) by (auto simp: mentioned_def)
  ultimately show ?thesis
    using run order by (auto simp: DependencyOrder_def)
qed


text \<open>
  C14. DependencyOrder always ends, whatever order the map of services is iterated in and whatever cycles the file
  has; its result lists every service and every name a service depends on exactly once, and when the
  dependencies have no cycle every name stands after all of its dependencies.
\<close>

theorem compose_order_correct:
  assumes "set names = dom (cf_Services cf)"
  shows "\<exists>order. DependencyOrder sprint names cf = Some order \<and> distinct order
    \<and> set order = mentioned (service_deps sprint cf) names
    \<and> (acyclic (depends (service_deps sprint cf)) \<longrightarrow> after_deps (service_deps sprint cf) order)"
  by (rule compose_order_total[OF assms])

definition ex_service :: "string list \<Rightarrow> string ServiceConfig" where
  "ex_service deps = empty_service\<lparr>sc_Image := ''nginx'', sc_DependsOn := AnyList deps\<rparr>"

definition ex_compose :: "string ComposeFile" where
  "ex_compose = \<lparr>cf_Services = [''web'' \<mapsto> Some (ex_service [''db'']), ''db'' \<mapsto> Some (ex_service [])]\<rparr>"

lemma ex_compose_names: "set [''web'', ''db''] = dom (cf_Services ex_compose)"
  by (auto simp: ex_compose_def split: if_splits)

theorem compose_order_correct_witness:
  "DependencyOrder (\<lambda>v. v) [''web'', ''db''] ex_compose = Some [''db'', ''web'']
     \<and> set [''db'', ''web''] = mentioned (service_deps (\<lambda>v. v) ex_compose) [''web'', ''db'']"
proof -
  have "DependencyOrder (\<lambda>v. v) [''web'', ''db''] ex_compose = Some [''db'', ''web'']"
    by (simp add: DependencyOrder_def service_deps_def ex_compose_def ex_service_def empty_service_def
        parseDependsOn_def)
  then show ?thesis
    using compose_order_correct[OF ex_compose_names, of "\<lambda>v. v"] by auto
qed

subsection \<open>Interpolation is a substitution\<close>

text \<open>The value of a reference under a fixed table of generated secrets, and the substitution of all
  references of a document.\<close>

definition ref_value :: "(string \<rightharpoonup> string) \<Rightarrow> (string \<rightharpoonup> string) \<Rightarrow> string \<Rightarrow> string" where
  "ref_value vars secrets expr =
     (case indexOf expr '':-'' of
        Some i \<Rightarrow>
          let key = take i expr; defaultVal = drop (i + 2) expr
          in if vars key \<noteq> None \<and> vars key \<noteq> Some [] then the (vars key)
             else if isSensitiveEnvKey key \<and> isWeakSecretDefault defaultVal then the (secrets key)
             else defaultVal
      | None \<Rightarrow>
          (case vars expr of
             Some val \<Rightarrow> val
           | None \<Rightarrow> if isSensitiveEnvKey expr then the (secrets expr) else ''${'' @ expr @ ''}''))"

function substitute :: "(string \<Rightarrow> string) \<Rightarrow> string \<Rightarrow> string" where
  "substitute f [] = []"
| "substitute f (c # s) =
     (case match_ref (c # s) of None \<Rightarrow> c # substitute f s | Some (expr, rest) \<Rightarrow> f expr @ substitute f rest)"
  by pat_completeness auto
termination
  by (relation "measure (\<lambda>(f, s). length s)") (auto dest: match_ref_shorter)

text \<open>The table holds passwords of the supply, each used for one key.\<close>

definition secrets_inv :: "(nat \<Rightarrow> string) \<Rightarrow> secrets \<Rightarrow> bool" where
  "secrets_inv pwgen gen \<longleftrightarrow>
     (\<exists>idx. inj_on idx (dom (fst gen)) \<and> (\<forall>k\<in>dom (fst gen). fst gen k = Some (pwgen (idx k)) \<and> idx k < snd gen))"

definition gen_le :: "secrets \<Rightarrow> secrets \<Rightarrow> bool" where
  "gen_le gen gen' \<longleftrightarrow> fst gen \<subseteq>\<^sub>m fst gen'"

lemma gen_le_trans: "gen_le a b \<Longrightarrow> gen_le b c \<Longrightarrow> gen_le a c"
  by (auto simp: gen_le_def intro: map_le_trans)

lemma generatedSecret_spec:
  assumes "generatedSecret pwgen key gen = (val, gen')" "secrets_inv pwgen gen"
  shows "gen_le gen gen' \<and> fst gen' key = Some val \<and> secrets_inv pwgen gen'"
proof (cases "fst gen key")
  case (Some pw)
  then show ?thesis using assms by (simp add: generatedSecret_def gen_le_def)
next
  case None
  then have gen': "gen' = ((fst gen)(key \<mapsto> pwgen (snd gen)), Suc (snd gen))" "val = pwgen (snd gen)"
    using assms by (auto simp: generatedSecret_def)
  obtain idx where idx: "inj_on idx (dom (fst gen))" "\<forall>k\<in>dom (fst gen). fst gen k = Some (pwgen (idx k)) \<and> idx k < snd gen"
    using assms(2) by (auto simp: secrets_inv_def)
  let ?idx = "idx(key := snd gen)"
  have D: "dom (fst gen') = insert key (dom (fst gen))" "key \<notin> dom (fst gen)"
    using None by (auto simp: gen')
  have fresh: "snd gen \<notin> idx ` dom (fst gen)" using idx(2) by (metis imageE less_irrefl)
  moreover have "?idx ` (dom (fst gen) - {key}) \<subseteq> idx ` dom (fst gen)" by auto
  ultimately have "inj_on ?idx (dom (fst gen'))"
    unfolding D(1) inj_on_insert using inj_on_fun_updI[OF idx(1) fresh] by auto
  moreover have "fst gen' k = Some (pwgen (?idx k)) \<and> ?idx k < snd gen'" if "k \<in> dom (fst gen')" for k
  proof (cases "k = key")
    case False
    then have "k \<in> dom (fst gen)" using that D(1) by blast
    then show ?thesis using idx(2) False unfolding gen' by (simp add: less_SucI)
  qed (simp add: gen')
  ultimately have "secrets_inv pwgen gen'" unfolding secrets_inv_def by blast
  then show ?thesis using None by (auto simp: gen' gen_le_def map_le_def)
qed

lemma expand_spec:
  assumes "expand pwgen vars expr gen = (val, gen1)" "secrets_inv pwgen gen"
  shows "gen_le gen gen1 \<and> secrets_inv pwgen gen1 \<and> (\<forall>gen2. gen_le gen1 gen2 \<longrightarrow> ref_value vars (fst gen2) expr = val)"
proof -
  have gs: "gen_le gen gen1 \<and> secrets_inv pwgen gen1 \<and> (\<forall>gen2. gen_le gen1 gen2 \<longrightarrow> the (fst gen2 key) = val)"
    if "generatedSecret pwgen key gen = (val, gen1)" for key
  proof -
    have post: "gen_le gen gen1" "fst gen1 key = Some val" "secrets_inv pwgen gen1"
      using generatedSecret_spec[OF that assms(2)] by auto
    moreover have "fst gen2 key = Some val" if "gen_le gen1 gen2" for gen2
      using that post(2) by (metis domI gen_le_def map_le_def)
    ultimately show ?thesis by simp
  qed
  have same: "gen_le gen gen" by (simp add: gen_le_def)
  show ?thesis
  proof (cases "indexOf expr '':-''")
    case None
    then show ?thesis
      using assms gs[of expr] same by (cases "vars expr") (auto simp: expand_def ref_value_def split: if_splits)
  next
    case (Some i)
    define key where "key = take i expr"
    define default where "default = drop (i + 2) expr"
    define given where "given \<longleftrightarrow> vars key \<noteq> None \<and> vars key \<noteq> Some []"
    define weak where "weak \<longleftrightarrow> isSensitiveEnvKey key \<and> isWeakSecretDefault default"
    have run: "(if given then (the (vars key), gen) else if weak then generatedSecret pwgen key gen
        else (default, gen)) = (val, gen1)"
      using assms(1) unfolding expand_def Some option.case Let_def key_def default_def given_def weak_def .
    have val: "ref_value vars secrets expr =
        (if given then the (vars key) else if weak then the (secrets key) else default)" for secrets
      unfolding ref_value_def Some option.case Let_def key_def default_def given_def weak_def ..
    show ?thesis
      unfolding val using run gs[of key] same assms(2) by (cases given; cases weak) simp_all
  qed
qed

lemma interpolate_spec:
  "interpolate pwgen vars s gen = (out, gen') \<Longrightarrow> secrets_inv pwgen gen \<Longrightarrow>
     gen_le gen gen' \<and> secrets_inv pwgen gen'
     \<and> (\<forall>gen2. gen_le gen' gen2 \<longrightarrow> substitute (ref_value vars (fst gen2)) s = out)"
proof (induction pwgen vars s gen arbitrary: out gen' rule: interpolate.induct)
  case (2 pwgen vars c s gen)
  show ?case
  proof (cases "match_ref (c # s)")
    case None
    then show ?thesis using 2 by (auto split: prod.splits)
  next
    case (Some er)
    obtain expr rest where er: "er = (expr, rest)" by (cases er)
    obtain val gen1 where e: "expand pwgen vars expr gen = (val, gen1)" by (cases "expand pwgen vars expr gen") blast
    obtain out2 where r: "interpolate pwgen vars rest gen1 = (out2, gen')" and out: "out = val @ out2"
      using 2(3) Some er e by (auto split: prod.splits)
    note spec = expand_spec[OF e 2(4)]
    have ih: "gen_le gen1 gen' \<and> secrets_inv pwgen gen' \<and> (\<forall>gen2. gen_le gen' gen2 \<longrightarrow> substitute (ref_value vars (fst gen2)) rest = out2)"
      using 2(2)[OF Some er[symmetric] e[symmetric] r] spec by simp
    have "substitute (ref_value vars (fst gen2)) (c # s) = out" if "gen_le gen' gen2" for gen2
    proof -
      have "gen_le gen1 gen2" using ih that gen_le_trans by blast
      then have "ref_value vars (fst gen2) expr = val" "substitute (ref_value vars (fst gen2)) rest = out2"
        using ih spec that by blast+
      then show ?thesis by (simp add: Some er out)
    qed
    then show ?thesis using ih spec gen_le_trans by blast
  qed
qed (auto simp: gen_le_def)

text \<open>
  C15. Interpolation with generated secrets is a substitution: the document returned is the input with every
  reference replaced by its value under the caller's variables and the one table of generated secrets that is
  returned with it, so the same variable has the same secret everywhere; and every secret of the table is a
  fresh password of the generator, a different one for every variable.
\<close>

theorem interpolate_consistent:
  "case InterpolateWithGenerated pwgen vars doc of (out, secrets) \<Rightarrow>
     out = substitute (ref_value vars secrets) doc
     \<and> (\<exists>idx. inj_on idx (dom secrets) \<and> (\<forall>k\<in>dom secrets. secrets k = Some (pwgen (idx k))))"
proof -
  obtain out gen where run: "interpolate pwgen vars doc (Map.empty, 0) = (out, gen)" by (meson surj_pair)
  have "secrets_inv pwgen (Map.empty, 0)" by (simp add: secrets_inv_def)
  from interpolate_spec[OF run this] have "secrets_inv pwgen gen" "substitute (ref_value vars (fst gen)) doc = out"
    by (simp_all add: gen_le_def)
  then show ?thesis
    unfolding InterpolateWithGenerated_def run secrets_inv_def by auto
qed

theorem interpolate_consistent_witness:
  "\<exists>secrets. InterpolateWithGenerated (\<lambda>n. replicate n (CHR ''x'')) (\<lambda>_. None) ''${A_KEY}:${A_KEY:-wiki}:${B_PWD}'' = (''::x'', secrets)
     \<and> ''::x'' = substitute (ref_value (\<lambda>_. None) secrets) ''${A_KEY}:${A_KEY:-wiki}:${B_PWD}''"
proof -
  let ?doc = "''${A_KEY}:${A_KEY:-wiki}:${B_PWD}''"
  have "fst (InterpolateWithGenerated (\<lambda>n. replicate n (CHR ''x'')) (\<lambda>_. None) ?doc) = ''::x''"
    by code_simp
  then show ?thesis
    using interpolate_consistent[where pwgen = "\<lambda>n. replicate n (CHR ''x'')" and vars = "\<lambda>_. None" and doc = ?doc]
    by (cases "InterpolateWithGenerated (\<lambda>n. replicate n (CHR ''x'')) (\<lambda>_. None) ?doc") auto
qed

end
