(* ===== verification/Container_Runtime.thy ===== *)
theory Container_Runtime
  imports Prelude
begin

text \<open>
  The container runtime: \<open>ContainerOpts\<close> with its path validation and resource defaults from
  \<open>internal/core/interfaces.go\<close>, and container creation in \<open>internal/deploy/docker.go\<close>.

  The Docker daemon is not part of the repository: its calls are the fields of \<open>docker_api\<close>, over an
  arbitrary state \<open>'w\<close>. A string map whose iteration order may matter is an association list.
\<close>

record ContainerOpts =
  co_Name :: string
  co_Image :: string
  co_Env :: "string list"
  co_Labels :: "(string \<times> string) list"
  co_Ports :: "(string \<times> string) list"
  co_Volumes :: "(string \<times> string) list"
  co_Network :: string
  co_CPUQuota :: int
  co_MemoryMB :: int
  co_RestartPolicy :: string
  co_AllowDockerSocket :: bool
  co_Privileged :: bool

definition dangerousPaths :: "string list" where
  "dangerousPaths = [''/var/run/docker.sock'', ''/run/docker.sock'', ''/var/run/docker'']"

datatype volume_error =
    VolNullByte | VolTraversal string | VolTraversalCleaned string | VolRelative string | VolRoot string | VolSocket string

definition replace_backslash :: "string \<Rightarrow> string" where
  "replace_backslash s = map (\<lambda>c. if c = CHR 0x5C then CHR ''/'' else c) s"

definition validate_path :: "bool \<Rightarrow> string \<Rightarrow> volume_error option" where
  "validate_path allowSocket hostPath =
     (let cleaned = filepath_Clean hostPath; normalized = replace_backslash cleaned
      in if CHR 0x00 \<in> set hostPath then Some VolNullByte
         else if contains hostPath ''..'' then Some (VolTraversal hostPath)
         else if contains cleaned ''..'' then Some (VolTraversalCleaned hostPath)
         else if \<not> hasPrefix cleaned ''/'' then Some (VolRelative hostPath)
         else if normalized = ''/'' \<or> normalized = [CHR 0x5C] then Some (VolRoot hostPath)
         else if \<not> allowSocket \<and> normalized \<in> set dangerousPaths then Some (VolSocket hostPath)
         else None)"

fun validate_volumes :: "bool \<Rightarrow> (string \<times> string) list \<Rightarrow> volume_error option" where
  "validate_volumes allowSocket [] = None"
| "validate_volumes allowSocket ((hostPath, _) # vols) =
     (case validate_path allowSocket hostPath of Some e \<Rightarrow> Some e | None \<Rightarrow> validate_volumes allowSocket vols)"

definition ValidateVolumePaths :: "ContainerOpts \<Rightarrow> volume_error option" where
  "ValidateVolumePaths o' = validate_volumes (co_AllowDockerSocket o') (co_Volumes o')"

definition ApplyResourceDefaults :: "int \<Rightarrow> int \<Rightarrow> ContainerOpts \<Rightarrow> ContainerOpts" where
  "ApplyResourceDefaults defaultCPU defaultMemoryMB o' =
     o'\<lparr>co_CPUQuota := (if co_CPUQuota o' \<le> 0 \<and> defaultCPU > 0 then defaultCPU else co_CPUQuota o'),
        co_MemoryMB := (if co_MemoryMB o' \<le> 0 \<and> defaultMemoryMB > 0 then defaultMemoryMB else co_MemoryMB o')\<rparr>"

subsection \<open>Creating containers\<close>

record HostConfig =
  hc_SecurityOpt :: "string list"
  hc_LogConfig :: "string \<times> (string \<times> string) list"
  hc_Privileged :: bool
  hc_CapDrop :: "string list"
  hc_CapAdd :: "string list"
  hc_CPUQuota :: int
  hc_Memory :: int
  hc_RestartPolicy :: string

record create_request =
  cr_Image :: string
  cr_Env :: "string list"
  cr_Labels :: "(string \<times> string) list"
  cr_Host :: HostConfig
  cr_Networks :: "string list"
  cr_Name :: string

record 'w docker_api =
  dk_pull :: "string \<Rightarrow> 'w \<Rightarrow> 'w \<times> string option"
  dk_create :: "create_request \<Rightarrow> 'w \<Rightarrow> 'w \<times> (string + string)"
  dk_start :: "string \<Rightarrow> 'w \<Rightarrow> 'w \<times> string option"
  dk_stop :: "string \<Rightarrow> 'w \<Rightarrow> 'w \<times> string option"
  dk_remove :: "string \<Rightarrow> bool \<Rightarrow> 'w \<Rightarrow> 'w \<times> string option"

record DockerManager =
  dm_defaultCPU :: int
  dm_defaultMemMB :: int

definition host_config :: "ContainerOpts \<Rightarrow> HostConfig" where
  "host_config o' =
     \<lparr>hc_SecurityOpt = (if co_Privileged o' then [] else [''no-new-privileges'']),
      hc_LogConfig = (''json-file'', [(''max-size'', ''50m''), (''max-file'', ''5'')]),
      hc_Privileged = co_Privileged o',
      hc_CapDrop = (if co_Privileged o' then [] else [''ALL'']),
      hc_CapAdd = (if co_Privileged o' then []
                   else [''CHOWN'', ''SETUID'', ''SETGID'', ''NET_BIND_SERVICE'', ''DAC_OVERRIDE'']),
      hc_CPUQuota = (if co_CPUQuota o' > 0 then co_CPUQuota o' else 0),
      hc_Memory = (if co_MemoryMB o' > 0 then int64 (co_MemoryMB o' * 1024 * 1024) else 0),
      hc_RestartPolicy = co_RestartPolicy o'\<rparr>"

datatype runtime_error =
    InvalidOpts volume_error | ImagePullFailed string string | ContainerCreateFailed string | ContainerStartFailed string

definition CreateAndStart ::
  "'w docker_api \<Rightarrow> DockerManager \<Rightarrow> ContainerOpts \<Rightarrow> 'w \<Rightarrow> 'w \<times> (runtime_error + string)" where
  "CreateAndStart api d opts0 w =
     (let opts = ApplyResourceDefaults (dm_defaultCPU d) (dm_defaultMemMB d) opts0
      in case ValidateVolumePaths opts of
           Some e \<Rightarrow> (w, Inl (InvalidOpts e))
         | None \<Rightarrow>
             (case dk_pull api (co_Image opts) w of
                (w1, Some e) \<Rightarrow> (w1, Inl (ImagePullFailed (co_Image opts) e))
              | (w1, None) \<Rightarrow>
                  (case dk_create api
                          \<lparr>cr_Image = co_Image opts, cr_Env = co_Env opts, cr_Labels = co_Labels opts,
                           cr_Host = host_config opts,
                           cr_Networks = (if co_Network opts \<noteq> [] then [co_Network opts] else []),
                           cr_Name = co_Name opts\<rparr> w1 of
                     (w2, Inl e) \<Rightarrow> (w2, Inl (ContainerCreateFailed e))
                   | (w2, Inr cid) \<Rightarrow>
                       (case dk_start api cid w2 of
                          (w3, Some e) \<Rightarrow> (w3, Inl (ContainerStartFailed e))
                        | (w3, None) \<Rightarrow> (w3, Inr cid)))))"

definition rt_Stop :: "'w docker_api \<Rightarrow> string \<Rightarrow> 'w \<Rightarrow> 'w \<times> string option" where
  "rt_Stop api cid w = dk_stop api cid w"

definition rt_Remove :: "'w docker_api \<Rightarrow> string \<Rightarrow> bool \<Rightarrow> 'w \<Rightarrow> 'w \<times> string option" where
  "rt_Remove api cid force w = dk_remove api cid force w"

subsection \<open>The daemon's documented behaviour\<close>

text \<open>\<open>conts\<close> reads the daemon's state as its containers by identifier, each running or not. A created container has
  a fresh identifier and does not run; starting and stopping change only whether it runs; a failing
  call changes nothing; a forced removal of an existing container succeeds.\<close>

definition docker_documented :: "'w docker_api \<Rightarrow> ('w \<Rightarrow> string \<rightharpoonup> bool) \<Rightarrow> bool" where
  "docker_documented api conts \<longleftrightarrow>
     (\<forall>img w. conts (fst (dk_pull api img w)) = conts w)
     \<and> (\<forall>req w. case dk_create api req w of
            (w', Inr cid) \<Rightarrow> conts w cid = None \<and> conts w' = (conts w)(cid \<mapsto> False)
          | (w', Inl e) \<Rightarrow> conts w' = conts w)
     \<and> (\<forall>cid w. case dk_start api cid w of
            (w', None) \<Rightarrow> conts w' = (conts w)(cid \<mapsto> True)
          | (w', Some e) \<Rightarrow> conts w' = conts w)
     \<and> (\<forall>cid w. conts w cid \<noteq> None \<longrightarrow> dom (conts (fst (dk_stop api cid w))) = dom (conts w)
          \<and> (\<forall>x. x \<noteq> cid \<longrightarrow> conts (fst (dk_stop api cid w)) x = conts w x))
     \<and> (\<forall>cid w. conts w cid \<noteq> None \<longrightarrow> conts (fst (dk_remove api cid True w)) = (conts w)(cid := None))"

lemma docker_laws:
  assumes "docker_documented api conts"
  shows "dk_pull api img w = (w', x) \<Longrightarrow> conts w' = conts w"
    and "dk_create api req w = (w', Inr cid) \<Longrightarrow> conts w cid = None \<and> conts w' = (conts w)(cid \<mapsto> False)"
    and "dk_create api req w = (w', Inl e) \<Longrightarrow> conts w' = conts w"
    and "dk_start api cid w = (w', None) \<Longrightarrow> conts w' = (conts w)(cid \<mapsto> True)"
    and "dk_start api cid w = (w', Some e) \<Longrightarrow> conts w' = conts w"
proof -
  note doc = assms[unfolded docker_documented_def]
  note pull = spec[OF spec[OF conjunct1[OF doc]], of img w]
  note create = spec[OF spec[OF conjunct1[OF conjunct2[OF doc]]], of w req]
  note start = spec[OF spec[OF conjunct1[OF conjunct2[OF conjunct2[OF doc]]]], of w cid]
  show "dk_pull api img w = (w', x) \<Longrightarrow> conts w' = conts w"
    using pull by simp
  show "dk_create api req w = (w', Inr cid) \<Longrightarrow> conts w cid = None \<and> conts w' = (conts w)(cid \<mapsto> False)"
    "dk_create api req w = (w', Inl e) \<Longrightarrow> conts w' = conts w"
    using create by simp_all
  show "dk_start api cid w = (w', None) \<Longrightarrow> conts w' = (conts w)(cid \<mapsto> True)"
    "dk_start api cid w = (w', Some e) \<Longrightarrow> conts w' = conts w"
    using start by simp_all
qed

lemma CreateAndStart_cases:
  assumes "docker_documented api conts" "CreateAndStart api d opts w = (w', r)"
  shows "case r of
      Inr cid \<Rightarrow> conts w cid = None \<and> conts w' = (conts w)(cid \<mapsto> True)
    | Inl (ContainerStartFailed e) \<Rightarrow> (\<exists>cid. conts w cid = None \<and> conts w' = (conts w)(cid \<mapsto> False))
    | Inl _ \<Rightarrow> conts w' = conts w"
proof (cases "ValidateVolumePaths (ApplyResourceDefaults (dm_defaultCPU d) (dm_defaultMemMB d) opts)")
  case (Some e)
  then show ?thesis using assms(2) by (auto simp: CreateAndStart_def Let_def)
next
  case valid: None
  let ?opts = "ApplyResourceDefaults (dm_defaultCPU d) (dm_defaultMemMB d) opts"
  let ?req = "\<lparr>cr_Image = co_Image ?opts, cr_Env = co_Env ?opts, cr_Labels = co_Labels ?opts, cr_Host = host_config ?opts,
     cr_Networks = (if co_Network ?opts \<noteq> [] then [co_Network ?opts] else []), cr_Name = co_Name ?opts\<rparr>"
  note doc = docker_laws[OF assms(1)]
  obtain w1 pr where pull: "dk_pull api (co_Image ?opts) w = (w1, pr)" by (meson surj_pair)
  then have w1: "conts w1 = conts w" by (rule doc(1))
  show ?thesis
  proof (cases pr)
    case (Some e)
    then show ?thesis using assms(2) valid pull w1 by (auto simp: CreateAndStart_def Let_def)
  next
    case None
    obtain w2 c where create: "dk_create api ?req w1 = (w2, c)" by (meson surj_pair)
    show ?thesis
    proof (cases c)
      case (Inl e)
      then have "conts w2 = conts w" using doc(3) create w1 by simp
      then show ?thesis using assms(2) valid pull None create Inl by (auto simp: CreateAndStart_def Let_def)
    next
      case (Inr cid)
      then have w2: "conts w cid = None" "conts w2 = (conts w)(cid \<mapsto> False)" using doc(2)[of _ w1 w2 cid] create w1 by auto
      obtain w3 sr where start: "dk_start api cid w2 = (w3, sr)" by (meson surj_pair)
      show ?thesis
      proof (cases sr)
        case None': None
        then have "conts w3 = (conts w2)(cid \<mapsto> True)" using doc(4) start by simp
        then show ?thesis
          using assms(2) valid pull None create Inr start None' w2 by (auto simp: CreateAndStart_def Let_def)
      next
        case (Some e)
        then have "conts w3 = conts w2" using doc(5) start by simp
        then show ?thesis
          using assms(2) valid pull None create Inr start Some w2 by (auto simp: CreateAndStart_def Let_def)
      qed
    qed
  qed
qed

lemma rt_Remove_conts: "docker_documented api conts \<Longrightarrow> conts w cid \<noteq> None \<Longrightarrow> conts (fst (rt_Remove api cid True w)) = (conts w)(cid := None)"
  by (simp add: docker_documented_def rt_Remove_def)

lemma rt_Stop_conts:
  "docker_documented api conts \<Longrightarrow> conts w cid \<noteq> None \<Longrightarrow>
     dom (conts (fst (rt_Stop api cid w))) = dom (conts w) \<and> (\<forall>x. x \<noteq> cid \<longrightarrow> conts (fst (rt_Stop api cid w)) x = conts w x)"
  by (simp add: docker_documented_def rt_Stop_def)

subsection \<open>Volume paths\<close>

text \<open>The validation compares whole paths, so the directories that contain the socket pass it.\<close>

lemma socket_parent_mountable:
  "validate_volumes False [(''/var/run'', ''/host/run''), (''/run/'', ''/host/run2''), (''/var/./'', ''/host/var'')] = None"
  by (simp add: validate_path_def filepath_Clean_def hasPrefix_def contains_def joinWith_def
      replace_backslash_def dangerousPaths_def Let_def)

lemma validate_volumes_None:
  "validate_volumes allow vols = None \<longleftrightarrow> (\<forall>(p, q)\<in>set vols. validate_path allow p = None)"
  by (induction allow vols rule: validate_volumes.induct) (auto split: option.splits)

end
