(* ===== verification/Stack_Deploy.thy ===== *)
theory Stack_Deploy
  imports Compose_Stack Container_Runtime
begin

text \<open>
  Deployment of a compose stack, \<open>internal/compose/deployer.go\<close>, over the container runtime.

  The parsed resource limits, which go through floating point numbers, are the arguments \<open>parseMemory\<close>
  and \<open>parseCPUs\<close>. The stack network is created by the argument \<open>ensureNetwork\<close>, which is absent
  when the runtime does not offer it.
\<close>

record HTTPRoute =
  hr_ServiceName :: string
  hr_FQDN :: string
  hr_Port :: int

record 'v DeployOpts =
  do_AppID :: string
  do_TenantID :: string
  do_StackName :: string
  do_Compose :: "'v ComposeFile"
  do_EnvVars :: "(string \<times> string) list"
  do_HTTPRoutes :: "HTTPRoute list"

definition label_char :: "char \<Rightarrow> bool" where
  "label_char c \<longleftrightarrow> (let n = of_char c :: nat in 97 \<le> n \<and> n \<le> 122 \<or> 48 \<le> n \<and> n \<le> 57)"

fun label_loop :: "bool \<Rightarrow> string \<Rightarrow> string" where
  "label_loop lastDash [] = []"
| "label_loop lastDash (c # s) =
     (if label_char c then c # label_loop False s
      else if lastDash then label_loop True s else CHR ''-'' # label_loop True s)"

definition labelName :: "string \<Rightarrow> string" where
  "labelName s =
     (let isDash = (\<lambda>c. c = CHR ''-'');
          out = trimRightP isDash (trimLeftP isDash (label_loop False (toLower (trimSpace s))))
      in if out = [] then ''route'' else out)"

fun route_labels :: "'v DeployOpts \<Rightarrow> string \<Rightarrow> HTTPRoute list \<Rightarrow> (string \<times> string) list \<Rightarrow> (string \<times> string) list" where
  "route_labels opts svcName [] labels = labels"
| "route_labels opts svcName (r # rs) labels =
     (if hr_ServiceName r \<noteq> svcName \<or> hr_FQDN r = [] \<or> hr_Port r \<le> 0 then route_labels opts svcName rs labels
      else
        let routeName = labelName (do_StackName opts @ ''-'' @ svcName)
        in route_labels opts svcName rs
             (put_env (''monster.http.services.'' @ routeName @ ''.loadbalancer.server.port'') (itoa (hr_Port r))
                (put_env (''monster.http.routers.'' @ routeName @ ''.rule'') (''Host(`'' @ hr_FQDN r @ ''`)'') labels)))"

datatype stack_error =
    NoRuntime | NetworkFailed string | NeedsBuild string | NoImage string | ServiceFailed string runtime_error | OrderDiverged

definition service_labels :: "'v DeployOpts \<Rightarrow> string \<Rightarrow> 'v ServiceConfig \<Rightarrow> (string \<times> string) list" where
  "service_labels opts svcName svc =
     route_labels opts svcName (do_HTTPRoutes opts)
       (fold (\<lambda>(k, v). put_env k v) (sc_Labels svc)
          [(''monster.enable'', ''true''), (''monster.app.id'', do_AppID opts), (''monster.stack'', do_StackName opts),
           (''monster.stack.service'', svcName), (''monster.tenant'', do_TenantID opts)])"

definition service_opts ::
  "(string \<Rightarrow> int) \<Rightarrow> (string \<Rightarrow> int) \<Rightarrow> 'v DeployOpts \<Rightarrow> string \<Rightarrow> 'v ServiceConfig \<Rightarrow> string \<Rightarrow> ContainerOpts" where
  "service_opts parseMemory parseCPUs opts svcName svc network =
     \<lparr>co_Name = ''monster-'' @ do_StackName opts @ ''-'' @ svcName,
      co_Image = sc_Image svc,
      co_Env = map (\<lambda>(k, v). k @ ''='' @ v) (do_EnvVars opts @ sc_ResolvedEnv svc),
      co_Labels = service_labels opts svcName svc,
      co_Ports = [], co_Volumes = [], co_Network = network,
      co_CPUQuota = (case sc_Limits svc of Some (cpus, mem) \<Rightarrow> if cpus \<noteq> [] then parseCPUs cpus else 0 | None \<Rightarrow> 0),
      co_MemoryMB = (case sc_Limits svc of Some (cpus, mem) \<Rightarrow> if mem \<noteq> [] then parseMemory mem else 0 | None \<Rightarrow> 0),
      co_RestartPolicy = (if sc_Restart svc = [] then ''unless-stopped'' else sc_Restart svc),
      co_AllowDockerSocket = False, co_Privileged = False\<rparr>"

definition deployService ::
  "'w docker_api \<Rightarrow> DockerManager \<Rightarrow> (string \<Rightarrow> int) \<Rightarrow> (string \<Rightarrow> int) \<Rightarrow> 'v DeployOpts \<Rightarrow> string \<Rightarrow> 'v ServiceConfig \<Rightarrow>
   string \<Rightarrow> 'w \<Rightarrow> 'w \<times> (stack_error + string)" where
  "deployService api d parseMemory parseCPUs opts svcName svc network w =
     (if sc_Image svc = [] then (w, Inl (if sc_Build svc then NeedsBuild svcName else NoImage svcName))
      else
        (case CreateAndStart api d (service_opts parseMemory parseCPUs opts svcName svc network) w of
           (w', Inl e) \<Rightarrow> (w', Inl (ServiceFailed svcName e))
         | (w', Inr cid) \<Rightarrow> (w', Inr cid)))"

fun stack_rollback :: "'w docker_api \<Rightarrow> string list \<Rightarrow> 'w \<Rightarrow> 'w" where
  "stack_rollback api [] w = w"
| "stack_rollback api (cid # ids) w = stack_rollback api ids (fst (rt_Remove api cid True (fst (rt_Stop api cid w))))"

fun deploy_loop ::
  "(string \<Rightarrow> 'v ServiceConfig \<Rightarrow> 'w \<Rightarrow> 'w \<times> (stack_error + string)) \<Rightarrow> (string list \<Rightarrow> 'w \<Rightarrow> 'w) \<Rightarrow> 'v ComposeFile \<Rightarrow>
   string list \<Rightarrow> string list \<Rightarrow> 'w \<Rightarrow> 'w \<times> (stack_error + string list)" where
  "deploy_loop deploy rollback cf [] created w = (w, Inr created)"
| "deploy_loop deploy rollback cf (svcName # order) created w =
     (case cf_Services cf svcName of
        Some (Some svc) \<Rightarrow>
          (case deploy svcName svc w of
             (w', Inl e) \<Rightarrow> (rollback created w', Inl e)
           | (w', Inr cid) \<Rightarrow> deploy_loop deploy rollback cf order (created @ [cid]) w')
      | _ \<Rightarrow> deploy_loop deploy rollback cf order created w)"

definition stack_Deploy ::
  "'w docker_api option \<Rightarrow> DockerManager \<Rightarrow> (string \<Rightarrow> 'w \<Rightarrow> 'w \<times> string option) option \<Rightarrow> (string \<Rightarrow> int) \<Rightarrow> (string \<Rightarrow> int) \<Rightarrow>
   ('v \<Rightarrow> string) \<Rightarrow> string list \<Rightarrow> 'v DeployOpts \<Rightarrow> 'w \<Rightarrow> 'w \<times> (stack_error + string list)" where
  "stack_Deploy runtime d ensureNetwork parseMemory parseCPUs sprint names opts w =
     (case runtime of None \<Rightarrow> (w, Inl NoRuntime) | Some api \<Rightarrow>
      let network = ''monster-'' @ do_StackName opts @ ''-net'';
          (w1, nerr) = (case ensureNetwork of None \<Rightarrow> (w, None) | Some ensure \<Rightarrow> ensure network w)
      in case nerr of
           Some e \<Rightarrow> (w1, Inl (NetworkFailed e))
         | None \<Rightarrow>
             (case DependencyOrder sprint names (do_Compose opts) of
                None \<Rightarrow> (w1, Inl OrderDiverged)
              | Some order \<Rightarrow>
                  deploy_loop (\<lambda>svcName svc. deployService api d parseMemory parseCPUs opts svcName svc network)
                    (stack_rollback api) (do_Compose opts) order [] w1))"

subsection \<open>What a deployment leaves behind\<close>

lemma stack_rollback_conts:
  assumes "docker_documented api conts" "distinct ids" "set ids \<subseteq> dom (conts w)"
  shows "dom (conts (stack_rollback api ids w)) = dom (conts w) - set ids
    \<and> (\<forall>x. x \<notin> set ids \<longrightarrow> conts (stack_rollback api ids w) x = conts w x)"
  using assms(2,3)
proof (induction ids arbitrary: w)
  case (Cons cid ids)
  let ?w = "fst (rt_Remove api cid True (fst (rt_Stop api cid w)))"
  have "conts w cid \<noteq> None" using Cons.prems by auto
  note stop = rt_Stop_conts[OF assms(1) this]
  then have "conts (fst (rt_Stop api cid w)) cid \<noteq> None" using Cons.prems by (auto simp: domIff)
  then have "conts ?w = (conts (fst (rt_Stop api cid w)))(cid := None)" by (rule rt_Remove_conts[OF assms(1)])
  then have "dom (conts ?w) = dom (conts w) - {cid}" "\<forall>x. x \<noteq> cid \<longrightarrow> conts ?w x = conts w x"
    using stop by auto
  moreover from this(1) have "set ids \<subseteq> dom (conts ?w)" "distinct ids" using Cons.prems by auto
  ultimately show ?case using Cons.IH[of ?w] by auto
qed simp

text \<open>The one container a failing service may leave: created, not running.\<close>

definition leftover :: "(string \<rightharpoonup> bool) \<Rightarrow> (string \<rightharpoonup> bool) \<Rightarrow> bool" where
  "leftover before after \<longleftrightarrow> after = before \<or> (\<exists>cid. before cid = None \<and> after = before(cid \<mapsto> False))"

lemma deployService_conts:
  assumes "docker_documented api conts" "deployService api d pm pc opts n svc net w = (w', r)"
  shows "case r of Inr cid \<Rightarrow> conts w cid = None \<and> conts w' = (conts w)(cid \<mapsto> True) \<and> sc_Image svc \<noteq> []
    | Inl (ServiceFailed n' (ContainerStartFailed e)) \<Rightarrow> (\<exists>cid. conts w cid = None \<and> conts w' = (conts w)(cid \<mapsto> False))
    | Inl _ \<Rightarrow> conts w' = conts w"
proof (cases "sc_Image svc = []")
  case True
  then show ?thesis using assms(2) by (auto simp: deployService_def)
next
  case False
  obtain w1 x where run: "CreateAndStart api d (service_opts pm pc opts n svc net) w = (w1, x)" by (meson surj_pair)
  show ?thesis
    using assms(2) CreateAndStart_cases[OF assms(1) run] False
    by (auto simp: deployService_def run split: sum.splits runtime_error.splits)
qed

lemma deploy_loop_conts:
  assumes "docker_documented api conts"
    and "deploy_loop (\<lambda>n svc. deployService api d pm pc opts n svc net) (stack_rollback api) cf order created w = (w', r)"
    and "base = (\<lambda>x. if x \<in> set created then None else conts w x)" "\<forall>x\<in>set created. conts w x = Some True" "distinct created"
  shows "case r of
      Inl e \<Rightarrow> leftover base (conts w')
    | Inr ids \<Rightarrow> distinct ids \<and> (\<forall>x. conts w' x = (if x \<in> set ids then Some True else base x)) \<and> (\<forall>x\<in>set ids. base x = None)
        \<and> length ids = length created + length (filter (\<lambda>n. \<exists>svc. cf_Services cf n = Some (Some svc)) order)"
  using assms(2-5)
proof (induction order arbitrary: created w)
  case Nil
  then show ?case by auto
next
  case (Cons n order)
  show ?case
  proof (cases "\<exists>svc. cf_Services cf n = Some (Some svc)")
    case False
    then have "deploy_loop (\<lambda>n svc. deployService api d pm pc opts n svc net) (stack_rollback api) cf order created w = (w', r)"
      using Cons.prems(1) by (auto split: option.splits)
    from Cons.IH[OF this Cons.prems(2-4)] False show ?thesis by (cases r) simp_all
  next
    case True
    then obtain svc where svc: "cf_Services cf n = Some (Some svc)" by blast
    obtain w1 x where run: "deployService api d pm pc opts n svc net w = (w1, x)" by (meson surj_pair)
    note one = deployService_conts[OF assms(1) run]
    show ?thesis
    proof (cases x)
      case (Inl e)
      then have w': "w' = stack_rollback api created w1" "r = Inl e" using Cons.prems(1) svc run by auto
      have left: "leftover (conts w) (conts w1)"
        using one Inl by (auto simp: leftover_def split: stack_error.splits runtime_error.splits)
      have exists: "set created \<subseteq> dom (conts w1)" using left Cons.prems(3) by (auto simp: leftover_def)
      have w'_eq: "conts w' = (\<lambda>x. if x \<in> set created then None else conts w1 x)"
        using stack_rollback_conts[OF assms(1) Cons.prems(4) exists] w'(1) by (auto simp: fun_eq_iff domIff)
      have "leftover base (conts w')"
      proof (cases "conts w1 = conts w")
        case False
        then obtain cid where cid: "conts w cid = None" "conts w1 = (conts w)(cid \<mapsto> False)"
          using left by (auto simp: leftover_def)
        moreover have "cid \<notin> set created" using cid(1) Cons.prems(3) by auto
        ultimately have "base cid = None" "conts w' = base(cid \<mapsto> False)"
          unfolding w'_eq Cons.prems(2) by auto
        then show ?thesis by (auto simp: leftover_def)
      next
        case True
        show ?thesis unfolding leftover_def w'_eq Cons.prems(2) True by blast
      qed
      then show ?thesis by (simp add: w'(2))
    next
      case (Inr cid)
      then have w1: "conts w cid = None" "conts w1 = (conts w)(cid \<mapsto> True)" using one by auto
      have "deploy_loop (\<lambda>n svc. deployService api d pm pc opts n svc net) (stack_rollback api) cf order (created @ [cid]) w1 = (w', r)"
        using Cons.prems(1) svc run Inr by simp
      moreover have "base = (\<lambda>x. if x \<in> set (created @ [cid]) then None else conts w1 x)"
        using Cons.prems(2) w1 by auto
      moreover have "\<forall>x\<in>set (created @ [cid]). conts w1 x = Some True" "distinct (created @ [cid])"
        using Cons.prems(3,4) w1 by auto
      ultimately show ?thesis using Cons.IH[of "created @ [cid]" w1] svc by (cases r) simp_all
    qed
  qed
qed



text \<open>A daemon whose containers are named, on which one container does not start.\<close>

definition ex_api :: "(string \<rightharpoonup> bool) docker_api" where
  "ex_api = \<lparr>dk_pull = (\<lambda>img w. (w, None)),
     dk_create = (\<lambda>req w. if w (cr_Name req) = None then (w(cr_Name req \<mapsto> False), Inr (cr_Name req)) else (w, Inl ''exists'')),
     dk_start = (\<lambda>cid w. if cid = ''monster-s-web'' then (w, Some ''port taken'') else (w(cid \<mapsto> True), None)),
     dk_stop = (\<lambda>cid w. case w cid of None \<Rightarrow> (w, Some ''no such container'') | Some r \<Rightarrow> (w(cid \<mapsto> False), None)),
     dk_remove = (\<lambda>cid force w. (w(cid := None), None))\<rparr>"

lemma ex_api_documented: "docker_documented ex_api (\<lambda>w. w)"
  by (auto simp: docker_documented_def ex_api_def split: option.splits)

definition ex_stack_opts :: "string DeployOpts" where
  "ex_stack_opts = \<lparr>do_AppID = ''app1'', do_TenantID = ''t1'', do_StackName = ''s'', do_Compose = ex_compose,
     do_EnvVars = [], do_HTTPRoutes = [\<lparr>hr_ServiceName = ''web'', hr_FQDN = ''x.io'', hr_Port = 80\<rparr>]\<rparr>"

definition ex_stack_run :: "(string \<rightharpoonup> bool) \<times> (stack_error + string list)" where
  "ex_stack_run = stack_Deploy (Some ex_api) \<lparr>dm_defaultCPU = 0, dm_defaultMemMB = 512\<rparr> None (\<lambda>_. 0) (\<lambda>_. 0) (\<lambda>v. v)
     [''web'', ''db''] ex_stack_opts (\<lambda>_. None)"

lemma ex_stack_run_result:
  "snd ex_stack_run = Inl (ServiceFailed ''web'' (ContainerStartFailed ''port taken''))"
  "fst ex_stack_run ''monster-s-web'' = Some False" "fst ex_stack_run ''monster-s-db'' = None"
  by code_simp+


end
