(* ===== verification/Topology.thy ===== *)
theory Topology
  imports Prelude "HOL-Library.AList" "HOL-Library.List_Lexorder" "HOL-Library.Char_ord"
begin

text \<open>
  The topology compiler (\<open>internal/topology/types.go\<close>, \<open>compiler.go\<close> and \<open>generator.go\<close>): a drawing of
  apps, databases, domains, volumes and workers is validated, its references are resolved and a compose
  configuration, a Caddyfile and an environment file are generated from it.

  Go maps are association lists in their iteration order, written with \<open>AList.update\<close>. The random source of
  generated passwords is an argument: \<open>rnd n\<close> gives the draws of the \<open>n\<close>-th random string, a failing draw being
  \<open>None\<close>; the compiler counts the strings drawn so far. \<open>sort.Strings\<close> is the sorting function for the bytewise
  lexicographic order.
\<close>

section \<open>Data\<close>

type_synonym gomap = "(string \<times> string) list"

record VolumeMount =
  vm_VolumeID :: string
  vm_MountPath :: string
  vm_ReadOnly :: bool

record App =
  ap_ID :: string
  ap_Name :: string
  ap_GitURL :: string
  ap_Branch :: string
  ap_BuildPack :: string
  ap_Dockerfile :: string
  ap_Port :: int
  ap_Replicas :: int
  ap_MemoryMB :: int
  ap_CPU :: int
  ap_EnvVars :: gomap
  ap_VolumeMounts :: "VolumeMount list"
  ap_HealthCheckPath :: string
  ap_HealthCheckPort :: int
  ap_InternalOnly :: bool

type_synonym DatabaseEngine = string

definition EnginePostgres :: DatabaseEngine where "EnginePostgres = ''postgres''"
definition EngineMySQL :: DatabaseEngine where "EngineMySQL = ''mysql''"
definition EngineMariaDB :: DatabaseEngine where "EngineMariaDB = ''mariadb''"
definition EngineMongoDB :: DatabaseEngine where "EngineMongoDB = ''mongodb''"
definition EngineRedis :: DatabaseEngine where "EngineRedis = ''redis''"

lemmas engine_defs = EnginePostgres_def EngineMySQL_def EngineMariaDB_def EngineMongoDB_def EngineRedis_def

record Database =
  db_ID :: string
  db_Name :: string
  db_Engine :: DatabaseEngine
  db_Version :: string
  db_SizeGB :: int
  db_Managed :: bool
  db_External :: bool
  db_ConnURL :: string
  db_Username :: string
  db_Password :: string
  db_Database :: string
  db_ExtraConfig :: gomap

record Domain =
  dn_ID :: string
  dn_Name :: string
  dn_FQDN :: string
  dn_SSLEnabled :: bool
  dn_SSLMODE :: string
  dn_TargetAppID :: string
  dn_PathPrefix :: string

record Volume =
  vo_ID :: string
  vo_Name :: string
  vo_SizeGB :: int
  vo_VolumeType :: string
  vo_MountPath :: string
  vo_Temporary :: bool

record Worker =
  wk_ID :: string
  wk_Name :: string
  wk_GitURL :: string
  wk_Branch :: string
  wk_BuildPack :: string
  wk_Dockerfile :: string
  wk_Command :: string
  wk_Replicas :: int
  wk_Schedule :: string
  wk_EnvVars :: gomap
  wk_VolumeMounts :: "VolumeMount list"

datatype ConnType = ConnDependency | ConnMount | ConnRoute | ConnNetwork

record ConnConfig =
  cc_MountPath :: string
  cc_EnvVarName :: string

record Connection =
  cn_ID :: string
  cn_Type :: ConnType
  cn_SourceID :: string
  cn_TargetID :: string
  cn_Config :: ConnConfig

record Topology =
  tp_ProjectID :: string
  tp_Environment :: string
  tp_Apps :: "App list"
  tp_Databases :: "Database list"
  tp_Domains :: "Domain list"
  tp_Volumes :: "Volume list"
  tp_Workers :: "Worker list"
  tp_Connections :: "Connection list"

record Compiler =
  cp_topology :: Topology
  cp_project :: string
  cp_env :: string
  cp_images :: gomap
  cp_connections :: gomap
  cp_draws :: nat

definition NewCompiler :: "Topology \<Rightarrow> string \<Rightarrow> string \<Rightarrow> Compiler" where
  "NewCompiler t project env =
     \<lparr>cp_topology = t, cp_project = project, cp_env = env, cp_images = [], cp_connections = [], cp_draws = 0\<rparr>"

record BuildConfig =
  bc_Context :: string
  bc_Dockerfile :: string
  bc_Args :: gomap

record PortMapping =
  pm_Host :: int
  pm_Container :: int
  pm_Protocol :: string

record HealthCheck =
  hk_Test :: "string list"
  hk_Interval :: string
  hk_Timeout :: string
  hk_Retries :: int
  hk_Disable :: bool

record ResourceLimit =
  rl_CPUs :: string
  rl_Memory :: string

record Resources =
  rs_Limits :: "ResourceLimit option"

record DeployConfig =
  dc_Replicas :: int
  dc_Resources :: "Resources option"

record Service =
  sv_Build :: "BuildConfig option"
  sv_Image :: string
  sv_ContainerName :: string
  sv_Restart :: string
  sv_Ports :: "PortMapping list"
  sv_Expose :: "int list"
  sv_Environment :: gomap
  sv_Volumes :: "string list"
  sv_Networks :: "string list"
  sv_DependsOn :: "string list"
  sv_Labels :: gomap
  sv_HealthCheck :: "HealthCheck option"
  sv_Command :: string
  sv_Deploy :: "DeployConfig option"

record Network =
  nw_Driver :: string

record VolumeSpec =
  vs_Driver :: string
  vs_External :: bool

record ComposeConfig =
  cg_Version :: string
  cg_Services :: "(string \<times> Service) list"
  cg_Networks :: "(string \<times> Network) list"
  cg_Volumes :: "(string \<times> VolumeSpec) list"

section \<open>Validation\<close>

datatype topology_error =
    DuplicateApp string
  | DuplicateDatabase string
  | DuplicateVolume string
  | PortConflict int string string
  | DomainTarget string string
  | MountMissing string string
  | InvalidSource string string
  | InvalidTarget string string
  | UnsupportedEngine string string

definition appExists :: "Topology \<Rightarrow> string \<Rightarrow> bool" where
  "appExists t i \<longleftrightarrow> list_ex (\<lambda>app. ap_ID app = i) (tp_Apps t)"

definition volumeExists :: "Topology \<Rightarrow> string \<Rightarrow> bool" where
  "volumeExists t i \<longleftrightarrow> list_ex (\<lambda>vol. vo_ID vol = i) (tp_Volumes t)"

definition componentExists :: "Topology \<Rightarrow> string \<Rightarrow> bool" where
  "componentExists t i \<longleftrightarrow>
     appExists t i \<or> list_ex (\<lambda>db. db_ID db = i) (tp_Databases t) \<or> list_ex (\<lambda>vol. vo_ID vol = i) (tp_Volumes t)
     \<or> list_ex (\<lambda>d. dn_ID d = i) (tp_Domains t) \<or> list_ex (\<lambda>w. wk_ID w = i) (tp_Workers t)"

fun check_names :: "(string \<Rightarrow> topology_error) \<Rightarrow> string list \<Rightarrow> string set \<Rightarrow> topology_error + string set" where
  "check_names err [] names = Inr names"
| "check_names err (n # ns) names = (if n \<in> names then Inl (err n) else check_names err ns (insert n names))"

fun check_ports :: "App list \<Rightarrow> (int \<rightharpoonup> string) \<Rightarrow> topology_error option" where
  "check_ports [] ports = None"
| "check_ports (app # apps) ports =
     (if ap_Port app > 0 then
        (case ports (ap_Port app) of
           Some existing \<Rightarrow> Some (PortConflict (ap_Port app) existing (ap_Name app))
         | None \<Rightarrow> check_ports apps (ports(ap_Port app \<mapsto> ap_Name app)))
      else check_ports apps ports)"

text \<open>A loop that returns the first error of its elements.\<close>

fun first_error :: "('a \<Rightarrow> 'e option) \<Rightarrow> 'a list \<Rightarrow> 'e option" where
  "first_error f [] = None"
| "first_error f (x # xs) = (case f x of Some e \<Rightarrow> Some e | None \<Rightarrow> first_error f xs)"

definition check_domain :: "Topology \<Rightarrow> Domain \<Rightarrow> topology_error option" where
  "check_domain t d =
     (if dn_TargetAppID d \<noteq> [] \<and> \<not> appExists t (dn_TargetAppID d)
      then Some (DomainTarget (dn_FQDN d) (dn_TargetAppID d)) else None)"

definition check_mounts :: "Topology \<Rightarrow> App \<Rightarrow> topology_error option" where
  "check_mounts t app =
     first_error (\<lambda>m. if volumeExists t (vm_VolumeID m) then None else Some (MountMissing (ap_Name app) (vm_VolumeID m)))
       (ap_VolumeMounts app)"

definition check_connection :: "Topology \<Rightarrow> Connection \<Rightarrow> topology_error option" where
  "check_connection t c =
     (if \<not> componentExists t (cn_SourceID c) then Some (InvalidSource (cn_ID c) (cn_SourceID c))
      else if \<not> componentExists t (cn_TargetID c) then Some (InvalidTarget (cn_ID c) (cn_TargetID c))
      else None)"

definition topo_validate :: "Topology \<Rightarrow> topology_error option" where
  "topo_validate t =
     (case check_names DuplicateApp (map ap_Name (tp_Apps t)) {} of
        Inl e \<Rightarrow> Some e
      | Inr names \<Rightarrow>
     (case check_names DuplicateDatabase (map db_Name (tp_Databases t)) names of
        Inl e \<Rightarrow> Some e
      | Inr names \<Rightarrow>
     (case check_names DuplicateVolume (map vo_Name (tp_Volumes t)) names of
        Inl e \<Rightarrow> Some e
      | Inr names \<Rightarrow>
     (case check_ports (tp_Apps t) Map.empty of
        Some e \<Rightarrow> Some e
      | None \<Rightarrow>
     (case first_error (check_domain t) (tp_Domains t) of
        Some e \<Rightarrow> Some e
      | None \<Rightarrow>
     (case first_error (check_mounts t) (tp_Apps t) of
        Some e \<Rightarrow> Some e
      | None \<Rightarrow> first_error (check_connection t) (tp_Connections t)))))))"

section \<open>Resolving references\<close>

definition getDatabasePort :: "DatabaseEngine \<Rightarrow> int" where
  "getDatabasePort engine =
     (if engine = EnginePostgres then 5432
      else if engine = EngineMySQL then 3306
      else if engine = EngineMariaDB then 3306
      else if engine = EngineMongoDB then 27017
      else if engine = EngineRedis then 6379
      else 5432)"

definition randomString :: "(nat \<Rightarrow> nat option) \<Rightarrow> nat \<Rightarrow> string" where
  "randomString draw len =
     (let charset = ''abcdefghijklmnopqrstuvwxyz0123456789''
      in map (\<lambda>i. case draw i of None \<Rightarrow> charset ! (i mod length charset) | Some n \<Rightarrow> charset ! n) [0..<len])"

definition generatePassword :: "(nat \<Rightarrow> nat \<Rightarrow> nat option) \<Rightarrow> Compiler \<Rightarrow> string \<times> Compiler" where
  "generatePassword rnd c =
     (''pwd_'' @ randomString (rnd (cp_draws c)) 12, c\<lparr>cp_draws := Suc (cp_draws c)\<rparr>)"

definition db_user :: "Database \<Rightarrow> string" where
  "db_user db = (if db_Username db = [] then ''root'' else db_Username db)"

definition db_password :: "(nat \<Rightarrow> nat \<Rightarrow> nat option) \<Rightarrow> Compiler \<Rightarrow> Database \<Rightarrow> string \<times> Compiler" where
  "db_password rnd c db = (if db_Password db = [] then generatePassword rnd c else (db_Password db, c))"

definition db_schema :: "Database \<Rightarrow> string" where
  "db_schema db = (if db_Database db = [] then db_Name db else db_Database db)"

definition url_with :: "string \<Rightarrow> Database \<Rightarrow> string \<Rightarrow> string" where
  "url_with scheme db password =
     scheme @ ''://'' @ db_user db @ '':'' @ password @ ''@'' @ db_Name db @ '':'' @ itoa (getDatabasePort (db_Engine db))
       @ ''/'' @ db_schema db"

definition generateDatabaseURL :: "(nat \<Rightarrow> nat \<Rightarrow> nat option) \<Rightarrow> Compiler \<Rightarrow> Database \<Rightarrow> string \<times> Compiler" where
  "generateDatabaseURL rnd c db =
     (if db_ConnURL db \<noteq> [] then (db_ConnURL db, c)
      else
        (case db_password rnd c db of
           (password, c1) \<Rightarrow>
             ((if db_Engine db = EnginePostgres then url_with ''postgresql'' db password
               else if db_Engine db = EngineMySQL then url_with ''mysql'' db password
               else if db_Engine db = EngineMariaDB then url_with ''mariadb'' db password
               else if db_Engine db = EngineMongoDB then url_with ''mongodb'' db password
               else if db_Engine db = EngineRedis then
                 (if password \<noteq> [] then ''redis://:'' @ password @ ''@'' else ''redis://'')
                   @ db_Name db @ '':'' @ itoa (getDatabasePort (db_Engine db)) @ ''/'' @ db_schema db
               else db_Engine db @ ''://'' @ db_Name db @ '':'' @ itoa (getDatabasePort (db_Engine db)) @ ''/'' @ db_schema db),
              c1)))"

definition env_var_of :: "Connection \<Rightarrow> Database \<Rightarrow> string" where
  "env_var_of conn db =
     (if cc_EnvVarName (cn_Config conn) = [] then toUpper (db_Name db) @ ''_URL'' else cc_EnvVarName (cn_Config conn))"

definition resolve_connection :: "(nat \<Rightarrow> nat \<Rightarrow> nat option) \<Rightarrow> Connection \<Rightarrow> Compiler \<Rightarrow> Compiler" where
  "resolve_connection rnd conn c =
     (if cn_Type conn = ConnDependency then
        (case find (\<lambda>db. db_ID db = cn_TargetID conn) (tp_Databases (cp_topology c)) of
           None \<Rightarrow> c
         | Some db \<Rightarrow>
             (case generateDatabaseURL rnd c db of
                (connStr, c1) \<Rightarrow> c1\<lparr>cp_connections := AList.update (env_var_of conn db) connStr (cp_connections c1)\<rparr>))
      else c)"

definition image_name :: "Compiler \<Rightarrow> string \<Rightarrow> string" where
  "image_name c name = cp_project c @ ''/'' @ name @ ''-'' @ cp_env c @ '':latest''"

definition resolveReferences :: "(nat \<Rightarrow> nat \<Rightarrow> nat option) \<Rightarrow> Compiler \<Rightarrow> Compiler" where
  "resolveReferences rnd c =
     (let c1 = fold (resolve_connection rnd) (tp_Connections (cp_topology c)) c;
          imgs1 = fold (\<lambda>app. AList.update (ap_ID app) (image_name c (ap_Name app))) (tp_Apps (cp_topology c)) (cp_images c1);
          imgs2 = fold (\<lambda>w. AList.update (wk_ID w) (image_name c (wk_Name w))) (tp_Workers (cp_topology c)) imgs1
      in c1\<lparr>cp_images := imgs2\<rparr>)"

section \<open>Generating services\<close>

definition getDefaultVersion :: "DatabaseEngine \<Rightarrow> string" where
  "getDefaultVersion engine =
     (if engine = EnginePostgres then ''16''
      else if engine = EngineMySQL then ''8.0''
      else if engine = EngineMariaDB then ''11''
      else if engine = EngineMongoDB then ''7''
      else if engine = EngineRedis then ''7''
      else ''latest'')"

definition getDatabaseImage :: "Database \<Rightarrow> topology_error + string" where
  "getDatabaseImage db =
     (let version = (if db_Version db = [] then getDefaultVersion (db_Engine db) else db_Version db)
      in if db_Engine db = EnginePostgres then Inr (''postgres:'' @ version @ ''-alpine'')
         else if db_Engine db = EngineMySQL then Inr (''mysql:'' @ version)
         else if db_Engine db = EngineMariaDB then Inr (''mariadb:'' @ version)
         else if db_Engine db = EngineMongoDB then Inr (''mongo:'' @ version)
         else if db_Engine db = EngineRedis then Inr (''redis:'' @ version @ ''-alpine'')
         else Inl (UnsupportedEngine (db_Name db) (db_Engine db)))"

definition getDatabaseDataPath :: "DatabaseEngine \<Rightarrow> string" where
  "getDatabaseDataPath engine =
     (if engine = EnginePostgres then ''/var/lib/postgresql/data''
      else if engine = EngineMySQL then ''/var/lib/mysql''
      else if engine = EngineMariaDB then ''/var/lib/mysql''
      else if engine = EngineMongoDB then ''/data/db''
      else if engine = EngineRedis then ''/data''
      else ''/data'')"

definition service_shell :: "Compiler \<Rightarrow> string \<Rightarrow> Service" where
  "service_shell c name =
     \<lparr>sv_Build = None, sv_Image = [], sv_ContainerName = cp_project c @ ''-'' @ name, sv_Restart = ''unless-stopped'',
      sv_Ports = [], sv_Expose = [], sv_Environment = [], sv_Volumes = [], sv_Networks = [''default''],
      sv_DependsOn = [], sv_Labels = [], sv_HealthCheck = None, sv_Command = [], sv_Deploy = None\<rparr>"

definition health_check :: "string list \<Rightarrow> HealthCheck" where
  "health_check test = \<lparr>hk_Test = test, hk_Interval = ''5s'', hk_Timeout = ''5s'', hk_Retries = 5, hk_Disable = False\<rparr>"

definition engine_env :: "Database \<Rightarrow> string \<Rightarrow> gomap" where
  "engine_env db password =
     (if db_Engine db = EnginePostgres then
        [(''POSTGRES_USER'', db_user db), (''POSTGRES_PASSWORD'', password), (''POSTGRES_DB'', db_schema db)]
      else if db_Engine db = EngineMySQL then
        [(''MYSQL_ROOT_PASSWORD'', password), (''MYSQL_DATABASE'', db_schema db)]
          @ (if db_user db \<noteq> ''root'' then [(''MYSQL_USER'', db_user db), (''MYSQL_PASSWORD'', password)] else [])
      else if db_Engine db = EngineMariaDB then
        [(''MARIADB_ROOT_PASSWORD'', password), (''MARIADB_DATABASE'', db_schema db)]
          @ (if db_user db \<noteq> ''root'' then [(''MARIADB_USER'', db_user db), (''MARIADB_PASSWORD'', password)] else [])
      else if db_Engine db = EngineMongoDB then
        [(''MONGO_INITDB_ROOT_USERNAME'', db_user db), (''MONGO_INITDB_ROOT_PASSWORD'', password)]
      else if db_Engine db = EngineRedis then
        (if password \<noteq> [] then [(''REDIS_PASSWORD'', password)] else [])
      else [])"

definition engine_health :: "Database \<Rightarrow> HealthCheck option" where
  "engine_health db =
     (if db_Engine db = EnginePostgres then Some (health_check [''CMD-SHELL'', ''pg_isready -U '' @ db_user db])
      else if db_Engine db = EngineMySQL then Some (health_check [''CMD'', ''mysqladmin'', ''ping'', ''-h'', ''localhost''])
      else if db_Engine db = EngineMariaDB then Some (health_check [''CMD'', ''healthcheck.sh'', ''--connect''])
      else if db_Engine db = EngineMongoDB then
        Some (health_check [''CMD'', ''mongosh'', ''--eval'', ''db.adminCommand('' @ [CHR 0x27] @ ''ping'' @ [CHR 0x27] @ '')''])
      else if db_Engine db = EngineRedis then Some (health_check [''CMD'', ''redis-cli'', ''ping''])
      else None)"

definition generateDatabaseService ::
  "(nat \<Rightarrow> nat \<Rightarrow> nat option) \<Rightarrow> Compiler \<Rightarrow> Database \<Rightarrow> (topology_error + Service) \<times> Compiler" where
  "generateDatabaseService rnd c db =
     (case getDatabaseImage db of
        Inl e \<Rightarrow> (Inl e, c)
      | Inr img \<Rightarrow>
          (case db_password rnd c db of
             (password, c1) \<Rightarrow>
               (Inr ((service_shell c (db_Name db))
                  \<lparr>sv_Image := img,
                   sv_Environment := fold (\<lambda>(k, v). AList.update k v) (db_ExtraConfig db) (engine_env db password),
                   sv_HealthCheck := engine_health db,
                   sv_Volumes := [db_Name db @ ''_data:'' @ getDatabaseDataPath (db_Engine db)],
                   sv_Labels := [(''monster.type'', ''database''), (''monster.engine'', db_Engine db),
                                 (''monster.project'', cp_project c), (''monster.environment'', cp_env c)]\<rparr>), c1)))"

definition env_value :: "Compiler \<Rightarrow> string \<Rightarrow> string" where
  "env_value c v =
     (if hasPrefix v ''${'' \<and> hasSuffix v ''}'' then
        (case map_of (cp_connections c) (trimChars ''${}'' v) of Some val \<Rightarrow> val | None \<Rightarrow> v)
      else v)"

definition env_of :: "Compiler \<Rightarrow> gomap \<Rightarrow> gomap" where
  "env_of c vars = fold (\<lambda>(k, v). AList.update k (env_value c v)) vars []"

definition connection_env :: "Compiler \<Rightarrow> App \<Rightarrow> gomap \<Rightarrow> gomap" where
  "connection_env c app env =
     fold (\<lambda>conn env.
         let name = cc_EnvVarName (cn_Config conn)
         in if cn_Type conn = ConnDependency \<and> cn_SourceID conn = ap_ID app \<and> name \<noteq> [] then
              (case map_of (cp_connections c) name of Some val \<Rightarrow> AList.update name val env | None \<Rightarrow> env)
            else env)
       (tp_Connections (cp_topology c)) env"

definition findVolume :: "Topology \<Rightarrow> string \<Rightarrow> Volume option" where
  "findVolume t i = find (\<lambda>v. vo_ID v = i) (tp_Volumes t)"

definition mount_ref :: "Volume \<Rightarrow> VolumeMount \<Rightarrow> string" where
  "mount_ref vol m =
     (if vo_Temporary vol then ''tmpfs:'' @ vm_MountPath m else vo_Name vol @ '':'' @ vm_MountPath m)
       @ (if vm_ReadOnly m then '':ro'' else [])"

fun mount_refs :: "Topology \<Rightarrow> VolumeMount list \<Rightarrow> string list" where
  "mount_refs t [] = []"
| "mount_refs t (m # ms) =
     (case findVolume t (vm_VolumeID m) of None \<Rightarrow> mount_refs t ms | Some vol \<Rightarrow> mount_ref vol m # mount_refs t ms)"

definition depends_on :: "Topology \<Rightarrow> string \<Rightarrow> string list" where
  "depends_on t source =
     concat (map (\<lambda>conn.
         if cn_Type conn = ConnDependency \<and> cn_SourceID conn = source then
           map db_Name (filter (\<lambda>db. db_ID db = cn_TargetID conn \<and> \<not> db_Managed db \<and> \<not> db_External db) (tp_Databases t))
         else [])
       (tp_Connections t))"

definition app_health :: "App \<Rightarrow> HealthCheck option" where
  "app_health app =
     (if ap_HealthCheckPath app = [] then None
      else
        let port = (if ap_HealthCheckPort app = 0 then ap_Port app else ap_HealthCheckPort app)
        in Some \<lparr>hk_Test = [''CMD'', ''curl'', ''-f'', ''http://localhost:'' @ itoa port @ ap_HealthCheckPath app],
                 hk_Interval = ''30s'', hk_Timeout = ''10s'', hk_Retries = 3, hk_Disable = False\<rparr>)"

definition app_limits :: "App \<Rightarrow> DeployConfig option" where
  "app_limits app =
     (if ap_MemoryMB app > 0 \<or> ap_CPU app > 0 then
        Some \<lparr>dc_Replicas = 0, dc_Resources = Some \<lparr>rs_Limits = Some
          \<lparr>rl_CPUs = (if ap_CPU app > 0 then itoa (ap_CPU app) @ ''m'' else []),
           rl_Memory = (if ap_MemoryMB app > 0 then itoa (ap_MemoryMB app) @ ''M'' else [])\<rparr>\<rparr>\<rparr>
      else None)"

definition generateAppService :: "Compiler \<Rightarrow> App \<Rightarrow> Service" where
  "generateAppService c app =
     (service_shell c (ap_Name app))
       \<lparr>sv_Image := (case map_of (cp_images c) (ap_ID app) of Some i \<Rightarrow> i | None \<Rightarrow> []),
        sv_Build := Some \<lparr>bc_Context = filepath_Join [''.'', ''apps'', ap_Name app], bc_Dockerfile = ap_Dockerfile app, bc_Args = []\<rparr>,
        sv_Expose := (if ap_Port app > 0 then [ap_Port app] else []),
        sv_Environment := connection_env c app (env_of c (ap_EnvVars app)),
        sv_Volumes := mount_refs (cp_topology c) (ap_VolumeMounts app),
        sv_HealthCheck := app_health app,
        sv_DependsOn := sort (depends_on (cp_topology c) (ap_ID app)),
        sv_Labels := [(''monster.type'', ''app''), (''monster.project'', cp_project c), (''monster.environment'', cp_env c),
                      (''monster.port'', itoa (ap_Port app))],
        sv_Deploy := app_limits app\<rparr>"

definition generateWorkerService :: "Compiler \<Rightarrow> Worker \<Rightarrow> Service" where
  "generateWorkerService c worker =
     (service_shell c (wk_Name worker))
       \<lparr>sv_Image := (case map_of (cp_images c) (wk_ID worker) of Some i \<Rightarrow> i | None \<Rightarrow> []),
        sv_Build := Some \<lparr>bc_Context = filepath_Join [''.'', ''workers'', wk_Name worker], bc_Dockerfile = wk_Dockerfile worker, bc_Args = []\<rparr>,
        sv_Command := wk_Command worker,
        sv_Environment := env_of c (wk_EnvVars worker),
        sv_Volumes := mount_refs (cp_topology c) (wk_VolumeMounts worker),
        sv_DependsOn := depends_on (cp_topology c) (wk_ID worker),
        sv_Labels := [(''monster.type'', ''worker''), (''monster.project'', cp_project c), (''monster.environment'', cp_env c)]\<rparr>"

definition generateProxyService :: "Compiler \<Rightarrow> Service" where
  "generateProxyService c =
     (service_shell c ''proxy'')
       \<lparr>sv_Image := ''caddy:2-alpine'',
        sv_Ports := [\<lparr>pm_Host = 80, pm_Container = 80, pm_Protocol = []\<rparr>, \<lparr>pm_Host = 443, pm_Container = 443, pm_Protocol = []\<rparr>],
        sv_Volumes := [''caddy_data:/data'', ''caddy_config:/config'', ''./Caddyfile:/etc/caddy/Caddyfile:ro''],
        sv_Labels := [(''monster.type'', ''proxy''), (''monster.project'', cp_project c)]\<rparr>"

definition local_volume :: VolumeSpec where
  "local_volume = \<lparr>vs_Driver = ''local'', vs_External = False\<rparr>"

definition put_service :: "string \<Rightarrow> Service \<Rightarrow> ComposeConfig \<Rightarrow> ComposeConfig" where
  "put_service name svc cf = cf\<lparr>cg_Services := AList.update name svc (cg_Services cf)\<rparr>"

definition put_volume :: "string \<Rightarrow> ComposeConfig \<Rightarrow> ComposeConfig" where
  "put_volume name cf = cf\<lparr>cg_Volumes := AList.update name local_volume (cg_Volumes cf)\<rparr>"

fun database_loop ::
  "(nat \<Rightarrow> nat \<Rightarrow> nat option) \<Rightarrow> Database list \<Rightarrow> ComposeConfig \<Rightarrow> Compiler \<Rightarrow> (topology_error + ComposeConfig) \<times> Compiler" where
  "database_loop rnd [] cf c = (Inr cf, c)"
| "database_loop rnd (db # dbs) cf c =
     (if db_Managed db \<or> db_External db then database_loop rnd dbs cf c
      else
        (case generateDatabaseService rnd c db of
           (Inl e, c1) \<Rightarrow> (Inl e, c1)
         | (Inr svc, c1) \<Rightarrow>
             database_loop rnd dbs (put_volume (db_Name db @ ''_data'') (put_service (db_Name db) svc cf)) c1))"

definition generateCompose ::
  "(nat \<Rightarrow> nat \<Rightarrow> nat option) \<Rightarrow> Compiler \<Rightarrow> (topology_error + ComposeConfig) \<times> Compiler" where
  "generateCompose rnd c =
     (let t = cp_topology c;
          cf0 = \<lparr>cg_Version = ''3.9'', cg_Services = [], cg_Networks = [(''default'', \<lparr>nw_Driver = ''bridge''\<rparr>)], cg_Volumes = []\<rparr>
      in case database_loop rnd (tp_Databases t) cf0 c of
           (Inl e, c1) \<Rightarrow> (Inl e, c1)
         | (Inr cf1, c1) \<Rightarrow>
             let cf2 = fold (\<lambda>app. put_service (ap_Name app) (generateAppService c1 app)) (tp_Apps t) cf1;
                 cf3 = fold (\<lambda>w. put_service (wk_Name w) (generateWorkerService c1 w)) (tp_Workers t) cf2;
                 cf4 = fold (\<lambda>v cf. if vo_Temporary v then cf else put_volume (vo_Name v) cf) (tp_Volumes t) cf3;
                 cf5 = (if tp_Domains t \<noteq> []
                        then put_volume ''caddy_config'' (put_volume ''caddy_data'' (put_service ''proxy'' (generateProxyService c1) cf4))
                        else cf4)
             in (Inr cf5, c1))"

definition topo_Compile ::
  "(nat \<Rightarrow> nat \<Rightarrow> nat option) \<Rightarrow> Compiler \<Rightarrow> (topology_error + ComposeConfig) \<times> Compiler" where
  "topo_Compile rnd c =
     (case topo_validate (cp_topology c) of
        Some e \<Rightarrow> (Inl e, c)
      | None \<Rightarrow> generateCompose rnd (resolveReferences rnd c))"

section \<open>The Caddyfile and the environment file\<close>

abbreviation nl :: string where "nl \<equiv> [CHR 0x0A]"

definition caddy_block :: "Domain \<Rightarrow> App \<Rightarrow> string" where
  "caddy_block d app =
     dn_FQDN d @ '' {'' @ nl
       @ ''  reverse_proxy '' @ ap_Name app @ '':'' @ itoa (if ap_Port app = 0 then 3000 else ap_Port app) @ nl
       @ ''  encode gzip zstd'' @ nl
       @ (if dn_SSLEnabled d \<and> dn_SSLMODE d = ''auto'' then ''  tls internal'' @ nl else [])
       @ ''}'' @ nl @ nl"

definition domain_block :: "Topology \<Rightarrow> Domain \<Rightarrow> string" where
  "domain_block t d =
     (if dn_TargetAppID d = [] then []
      else (case find (\<lambda>app. ap_ID app = dn_TargetAppID d) (tp_Apps t) of None \<Rightarrow> [] | Some app \<Rightarrow> caddy_block d app))"

definition GenerateCaddyfile :: "Compiler \<Rightarrow> string" where
  "GenerateCaddyfile c =
     ''{'' @ nl @ ''  email admin@deploy.monster'' @ nl
       @ ''  acme_ca https://acme-v02.api.letsencrypt.org/directory'' @ nl @ ''}'' @ nl @ nl
       @ concat (map (domain_block (cp_topology c)) (tp_Domains (cp_topology c)))"

definition GenerateEnvFile :: "Compiler \<Rightarrow> string" where
  "GenerateEnvFile c =
     ''# Auto-generated environment file'' @ nl @ ''# Project: '' @ cp_project c @ nl @ ''# Environment: '' @ cp_env c @ nl @ nl
       @ concat (map (\<lambda>(k, v). k @ ''='' @ v @ nl) (cp_connections c))"

section \<open>What validation accepts\<close>

definition component_ids :: "Topology \<Rightarrow> string set" where
  "component_ids t = ap_ID ` set (tp_Apps t) \<union> db_ID ` set (tp_Databases t) \<union> vo_ID ` set (tp_Volumes t)
     \<union> dn_ID ` set (tp_Domains t) \<union> wk_ID ` set (tp_Workers t)"

definition used_ports :: "App list \<Rightarrow> int list" where
  "used_ports apps = map ap_Port (filter (\<lambda>a. ap_Port a > 0) apps)"

definition well_formed :: "Topology \<Rightarrow> bool" where
  "well_formed t \<longleftrightarrow>
     distinct (map ap_Name (tp_Apps t) @ map db_Name (tp_Databases t) @ map vo_Name (tp_Volumes t))
     \<and> distinct (used_ports (tp_Apps t))
     \<and> (\<forall>d\<in>set (tp_Domains t). dn_TargetAppID d = [] \<or> dn_TargetAppID d \<in> ap_ID ` set (tp_Apps t))
     \<and> (\<forall>app\<in>set (tp_Apps t). \<forall>m\<in>set (ap_VolumeMounts app). vm_VolumeID m \<in> vo_ID ` set (tp_Volumes t))
     \<and> (\<forall>c\<in>set (tp_Connections t). {cn_SourceID c, cn_TargetID c} \<subseteq> component_ids t)"

definition hosted :: "Database \<Rightarrow> bool" where
  "hosted db \<longleftrightarrow> \<not> db_Managed db \<and> \<not> db_External db"

definition self_hosted :: "Topology \<Rightarrow> Database list" where
  "self_hosted t = filter hosted (tp_Databases t)"

definition supported :: "DatabaseEngine \<Rightarrow> bool" where
  "supported e \<longleftrightarrow> e \<in> {EnginePostgres, EngineMySQL, EngineMariaDB, EngineMongoDB, EngineRedis}"

text \<open>What each error claims of the topology.\<close>

fun offence :: "Topology \<Rightarrow> topology_error \<Rightarrow> bool" where
  "offence t (DuplicateApp n) \<longleftrightarrow> 2 \<le> count_list (map ap_Name (tp_Apps t)) n"
| "offence t (DuplicateDatabase n) \<longleftrightarrow>
     1 \<le> count_list (map db_Name (tp_Databases t)) n
     \<and> 2 \<le> count_list (map ap_Name (tp_Apps t) @ map db_Name (tp_Databases t)) n"
| "offence t (DuplicateVolume n) \<longleftrightarrow>
     1 \<le> count_list (map vo_Name (tp_Volumes t)) n
     \<and> 2 \<le> count_list (map ap_Name (tp_Apps t) @ map db_Name (tp_Databases t) @ map vo_Name (tp_Volumes t)) n"
| "offence t (PortConflict p a b) \<longleftrightarrow>
     0 < p \<and> (\<exists>us app1 app2 vs. tp_Apps t = us @ app2 # vs \<and> app1 \<in> set us \<and> ap_Port app1 = p \<and> ap_Port app2 = p
       \<and> ap_Name app1 = a \<and> ap_Name app2 = b)"
| "offence t (DomainTarget f i) \<longleftrightarrow>
     i \<noteq> [] \<and> i \<notin> ap_ID ` set (tp_Apps t) \<and> (\<exists>d\<in>set (tp_Domains t). dn_FQDN d = f \<and> dn_TargetAppID d = i)"
| "offence t (MountMissing n i) \<longleftrightarrow>
     i \<notin> vo_ID ` set (tp_Volumes t) \<and> (\<exists>app\<in>set (tp_Apps t). ap_Name app = n \<and> i \<in> vm_VolumeID ` set (ap_VolumeMounts app))"
| "offence t (InvalidSource i s) \<longleftrightarrow>
     s \<notin> component_ids t \<and> (\<exists>c\<in>set (tp_Connections t). cn_ID c = i \<and> cn_SourceID c = s)"
| "offence t (InvalidTarget i s) \<longleftrightarrow>
     s \<notin> component_ids t \<and> (\<exists>c\<in>set (tp_Connections t). cn_ID c = i \<and> cn_TargetID c = s)"
| "offence t (UnsupportedEngine n e) \<longleftrightarrow>
     \<not> supported e \<and> (\<exists>db\<in>set (self_hosted t). db_Name db = n \<and> db_Engine db = e)"

lemma first_error_None: "first_error f xs = None \<longleftrightarrow> (\<forall>x\<in>set xs. f x = None)"
  by (induction xs) (auto split: option.splits)

lemma first_error_Some: "first_error f xs = Some e \<Longrightarrow> \<exists>x\<in>set xs. f x = Some e"
  by (induction xs) (auto split: option.splits)

lemma exists_iff:
  "appExists t i \<longleftrightarrow> i \<in> ap_ID ` set (tp_Apps t)"
  "volumeExists t i \<longleftrightarrow> i \<in> vo_ID ` set (tp_Volumes t)"
  "componentExists t i \<longleftrightarrow> i \<in> component_ids t"
  by (auto simp: appExists_def volumeExists_def componentExists_def component_ids_def list_ex_iff)

lemma check_names_Inr:
  "check_names err ns names = Inr names' \<longleftrightarrow> distinct ns \<and> set ns \<inter> names = {} \<and> names' = names \<union> set ns"
  by (induction ns arbitrary: names) auto

lemma check_names_Inl:
  "check_names err ns names = Inl e \<Longrightarrow> \<exists>n\<in>set ns. e = err n \<and> (n \<in> names \<or> 2 \<le> count_list ns n)"
proof (induction ns arbitrary: names)
  case (Cons m ns)
  show ?case
  proof (cases "m \<in> names")
    case False
    then obtain n where n: "n \<in> set ns" "e = err n" "n \<in> insert m names \<or> 2 \<le> count_list ns n"
      using Cons.IH[of "insert m names"] Cons.prems by auto
    have "1 \<le> count_list ns n" using n(1) count_list_0_iff[of ns n] by linarith
    then show ?thesis using n by auto
  qed (use Cons.prems in auto)
qed simp

lemma used_ports_simps [simp]:
  "used_ports [] = []"
  "used_ports (app # apps) = (if 0 < ap_Port app then ap_Port app # used_ports apps else used_ports apps)"
  by (simp_all add: used_ports_def)

lemma check_ports_None:
  "check_ports apps ports = None \<longleftrightarrow> distinct (used_ports apps) \<and> set (used_ports apps) \<inter> dom ports = {}"
proof (induction apps arbitrary: ports)
  case (Cons app apps)
  then show ?case by (cases "0 < ap_Port app"; cases "ports (ap_Port app)") (auto simp del: fun_upd_apply)
qed simp

lemma check_ports_Some:
  "check_ports apps ports = Some e \<Longrightarrow> (\<And>p n. ports p = Some n \<Longrightarrow> \<exists>app\<in>set pre. ap_Port app = p \<and> ap_Name app = n) \<Longrightarrow>
   \<exists>p us app1 app2 vs. 0 < p \<and> pre @ apps = us @ app2 # vs \<and> app1 \<in> set us \<and> ap_Port app1 = p \<and> ap_Port app2 = p
     \<and> e = PortConflict p (ap_Name app1) (ap_Name app2)"
proof (induction apps ports arbitrary: pre rule: check_ports.induct)
  case (2 app apps ports)
  show ?case
  proof (cases "0 < ap_Port app \<and> ports (ap_Port app) \<noteq> None")
    case True
    then obtain n where n: "ports (ap_Port app) = Some n" by auto
    obtain app1 where "app1 \<in> set pre" "ap_Port app1 = ap_Port app" "ap_Name app1 = n" using 2(4)[OF n] by blast
    moreover have "e = PortConflict (ap_Port app) n (ap_Name app)" using True 2(3) n by simp
    ultimately show ?thesis using True by blast
  next
    case False
    have *: "\<exists>app'\<in>set (pre @ [app]). ap_Port app' = p \<and> ap_Name app' = n"
      if "(if ap_Port app > 0 then ports(ap_Port app \<mapsto> ap_Name app) else ports) p = Some n" for p n
      using that 2(4)[of p n] by (auto split: if_splits)
    show ?thesis
      using 2(1)[of "pre @ [app]"] 2(2)[of "pre @ [app]"] 2(3) False *
      by (cases "0 < ap_Port app"; cases "ports (ap_Port app)") (simp_all del: fun_upd_apply)
  qed
qed simp

lemma count_list_distinct: "distinct xs \<Longrightarrow> count_list xs n \<le> 1"
  by (induction xs) auto

lemma offence_not_well_formed:
  assumes "offence t e" "well_formed t"
  shows "\<exists>n eng. e = UnsupportedEngine n eng"
proof -
  have dist: "distinct (map ap_Name (tp_Apps t))" "distinct (map ap_Name (tp_Apps t) @ map db_Name (tp_Databases t))"
    "distinct (map ap_Name (tp_Apps t) @ map db_Name (tp_Databases t) @ map vo_Name (tp_Volumes t))"
    and ports: "distinct (used_ports (tp_Apps t))"
    using assms(2) by (auto simp: well_formed_def)
  note le = count_list_distinct[OF dist(1)] count_list_distinct[OF dist(2)] count_list_distinct[OF dist(3)]
  show ?thesis
  proof (cases e)
    case (DuplicateApp n)
    then show ?thesis using assms(1) le(1)[of n] by simp
  next
    case (DuplicateDatabase n)
    then show ?thesis using assms(1) le(2)[of n] by simp
  next
    case (DuplicateVolume n)
    then show ?thesis using assms(1) le(3)[of n] by simp
  next
    case (PortConflict p a b)
    then obtain us app1 app2 vs where apps: "tp_Apps t = us @ app2 # vs" "app1 \<in> set us"
      and pos: "0 < ap_Port app2" "ap_Port app1 = ap_Port app2"
      using assms(1) by auto
    have "used_ports (tp_Apps t) = used_ports us @ ap_Port app2 # used_ports vs" using pos(1) by (simp add: apps(1) used_ports_def)
    moreover have "ap_Port app2 \<in> set (used_ports us)" using apps(2) pos(1) unfolding pos(2)[symmetric] by (auto simp: used_ports_def)
    ultimately show ?thesis using ports by simp
  next
    case (DomainTarget f i)
    then show ?thesis using assms by (auto simp: well_formed_def)
  next
    case (MountMissing n i)
    then show ?thesis using assms by (auto simp: well_formed_def)
  next
    case (InvalidSource i s)
    then show ?thesis using assms by (auto simp: well_formed_def)
  next
    case (InvalidTarget i s)
    then show ?thesis using assms by (auto simp: well_formed_def)
  qed simp
qed

lemma count_list_pos: "n \<in> set xs \<Longrightarrow> 1 \<le> count_list xs n"
  using count_list_0_iff[of xs n] by linarith

lemma validate_names_offence:
  assumes "check_names DuplicateApp (map ap_Name (tp_Apps t)) {} = Inl e
    \<or> check_names DuplicateDatabase (map db_Name (tp_Databases t)) (ap_Name ` set (tp_Apps t)) = Inl e
    \<or> check_names DuplicateVolume (map vo_Name (tp_Volumes t)) (ap_Name ` set (tp_Apps t) \<union> db_Name ` set (tp_Databases t)) = Inl e"
  shows "offence t e \<and> (\<forall>n eng. e \<noteq> UnsupportedEngine n eng)"
proof -
  consider n where "2 \<le> count_list (map ap_Name (tp_Apps t)) n" "e = DuplicateApp n"
    | n where "n \<in> set (map db_Name (tp_Databases t))" "e = DuplicateDatabase n"
        "n \<in> set (map ap_Name (tp_Apps t)) \<or> 2 \<le> count_list (map db_Name (tp_Databases t)) n"
    | n where "n \<in> set (map vo_Name (tp_Volumes t))" "e = DuplicateVolume n"
        "n \<in> set (map ap_Name (tp_Apps t)) \<or> n \<in> set (map db_Name (tp_Databases t)) \<or> 2 \<le> count_list (map vo_Name (tp_Volumes t)) n"
    using assms by (auto dest!: check_names_Inl)
  then show ?thesis
  proof cases
    case 2
    then show ?thesis using count_list_pos[OF 2(1)] count_list_pos[of n "map ap_Name (tp_Apps t)"] by auto
  next
    case 3
    then show ?thesis
      using count_list_pos[OF 3(1)] count_list_pos[of n "map ap_Name (tp_Apps t)"]
        count_list_pos[of n "map db_Name (tp_Databases t)"] by auto
  qed simp
qed

lemma validate_references_offence:
  assumes "check_ports (tp_Apps t) Map.empty = Some e \<or> first_error (check_domain t) (tp_Domains t) = Some e
    \<or> first_error (check_mounts t) (tp_Apps t) = Some e \<or> first_error (check_connection t) (tp_Connections t) = Some e"
  shows "offence t e \<and> (\<forall>n eng. e \<noteq> UnsupportedEngine n eng)"
proof -
  have "offence t e \<and> (\<forall>n eng. e \<noteq> UnsupportedEngine n eng)" if "check_ports (tp_Apps t) Map.empty = Some e"
    using check_ports_Some[OF that, of "[]"] by fastforce
  moreover have "offence t e \<and> (\<forall>n eng. e \<noteq> UnsupportedEngine n eng)" if "first_error (check_domain t) (tp_Domains t) = Some e"
    using first_error_Some[OF that] by (auto simp: check_domain_def exists_iff split: if_splits)
  moreover have "offence t e \<and> (\<forall>n eng. e \<noteq> UnsupportedEngine n eng)" if "first_error (check_mounts t) (tp_Apps t) = Some e"
    using first_error_Some[OF that] by (force simp: check_mounts_def exists_iff dest!: first_error_Some split: if_splits)
  moreover have "offence t e \<and> (\<forall>n eng. e \<noteq> UnsupportedEngine n eng)" if "first_error (check_connection t) (tp_Connections t) = Some e"
    using first_error_Some[OF that] by (auto simp: check_connection_def exists_iff split: if_splits)
  ultimately show ?thesis using assms by blast
qed

lemma topo_validate_offence:
  assumes "topo_validate t = Some e"
  shows "offence t e \<and> (\<forall>n eng. e \<noteq> UnsupportedEngine n eng)"
proof -
  have "check_names DuplicateApp (map ap_Name (tp_Apps t)) {} = Inl e
    \<or> check_names DuplicateDatabase (map db_Name (tp_Databases t)) (ap_Name ` set (tp_Apps t)) = Inl e
    \<or> check_names DuplicateVolume (map vo_Name (tp_Volumes t)) (ap_Name ` set (tp_Apps t) \<union> db_Name ` set (tp_Databases t)) = Inl e
    \<or> check_ports (tp_Apps t) Map.empty = Some e \<or> first_error (check_domain t) (tp_Domains t) = Some e
    \<or> first_error (check_mounts t) (tp_Apps t) = Some e \<or> first_error (check_connection t) (tp_Connections t) = Some e"
    using assms unfolding topo_validate_def by (auto simp: check_names_Inr split: sum.splits option.splits)
  then show ?thesis using validate_names_offence[of t e] validate_references_offence[of t e] by blast
qed

lemma checks_None:
  "check_domain t d = None \<longleftrightarrow> dn_TargetAppID d = [] \<or> dn_TargetAppID d \<in> ap_ID ` set (tp_Apps t)"
  "check_mounts t app = None \<longleftrightarrow> (\<forall>m\<in>set (ap_VolumeMounts app). vm_VolumeID m \<in> vo_ID ` set (tp_Volumes t))"
  "check_connection t c = None \<longleftrightarrow> {cn_SourceID c, cn_TargetID c} \<subseteq> component_ids t"
  by (auto simp: check_domain_def check_mounts_def check_connection_def exists_iff first_error_None)

lemma topo_validate_accepts: "topo_validate t = None \<Longrightarrow> well_formed t"
  unfolding topo_validate_def well_formed_def
  by (auto split: sum.splits option.splits simp: check_names_Inr check_ports_None first_error_None checks_None)

lemma topo_validate_cases:
  "case topo_validate t of None \<Rightarrow> well_formed t | Some e \<Rightarrow> \<not> well_formed t \<and> offence t e"
  using topo_validate_accepts[of t] topo_validate_offence[of t] offence_not_well_formed[of t]
  by (cases "topo_validate t") (simp, simp, blast)

text \<open>
  C17. Validation is exact: it accepts a topology precisely when its names and ports are unique and every
  reference of its domains, mounts and connections has a target, and the error it returns otherwise names
  something that is really wrong with the topology.
\<close>

theorem topology_validation_exact:
  "case topo_validate t of None \<Rightarrow> well_formed t | Some e \<Rightarrow> \<not> well_formed t \<and> offence t e"
  by (rule topo_validate_cases)

end
