(* ===== verification/Topology_Compile.thy ===== *)
theory Topology_Compile
  imports Topology
begin

text \<open>
  Correctness of the topology compiler of \<open>Topology\<close>: which topologies compile and what the compose configuration
  refers to, and what becomes of generated database passwords.
\<close>

section \<open>What compilation produces\<close>

definition declared_volumes :: "Topology \<Rightarrow> string set" where
  "declared_volumes t = (\<lambda>db. db_Name db @ ''_data'') ` set (self_hosted t) \<union> vo_Name ` {v \<in> set (tp_Volumes t). \<not> vo_Temporary v}
     \<union> (if tp_Domains t \<noteq> [] then {''caddy_data'', ''caddy_config''} else {})"

definition service_names :: "Topology \<Rightarrow> string set" where
  "service_names t = db_Name ` set (self_hosted t) \<union> ap_Name ` set (tp_Apps t) \<union> wk_Name ` set (tp_Workers t)
     \<union> (if tp_Domains t \<noteq> [] then {''proxy''} else {})"

text \<open>Every reference of a service has its target: databases it depends on are services, its networks are declared, and
  the source of each volume line is a declared volume, the literal \<open>tmpfs\<close> or the Caddyfile.\<close>

definition volume_line :: "string set \<Rightarrow> string \<Rightarrow> bool" where
  "volume_line volumes r \<longleftrightarrow> (\<exists>n p. r = n @ '':'' @ p \<and> n \<in> volumes \<union> {''tmpfs'', ''./Caddyfile''})"

definition refs_ok :: "string set \<Rightarrow> string set \<Rightarrow> string set \<Rightarrow> Service \<Rightarrow> bool" where
  "refs_ok services networks volumes svc \<longleftrightarrow>
     set (sv_DependsOn svc) \<subseteq> services \<and> set (sv_Networks svc) \<subseteq> networks
     \<and> (\<forall>r\<in>set (sv_Volumes svc). volume_line volumes r)"

definition references_resolve :: "ComposeConfig \<Rightarrow> bool" where
  "references_resolve cf \<longleftrightarrow>
     (\<forall>svc\<in>ran (map_of (cg_Services cf)).
        refs_ok (fst ` set (cg_Services cf)) (fst ` set (cg_Networks cf)) (fst ` set (cg_Volumes cf)) svc)"

lemma put_service_simps [simp]:
  "map_of (cg_Services (put_service n s cf)) = (map_of (cg_Services cf))(n \<mapsto> s)"
  "fst ` set (cg_Services (put_service n s cf)) = insert n (fst ` set (cg_Services cf))"
  "cg_Networks (put_service n s cf) = cg_Networks cf" "cg_Volumes (put_service n s cf) = cg_Volumes cf"
  by (simp_all add: put_service_def update_conv' dom_update)

lemma put_volume_simps [simp]:
  "fst ` set (cg_Volumes (put_volume n cf)) = insert n (fst ` set (cg_Volumes cf))"
  "cg_Networks (put_volume n cf) = cg_Networks cf" "cg_Services (put_volume n cf) = cg_Services cf"
  by (simp_all add: put_volume_def dom_update)

lemma fold_put_service:
  fixes name :: "'a \<Rightarrow> string" and make :: "'a \<Rightarrow> Service"
  defines "step \<equiv> \<lambda>x. put_service (name x) (make x)"
  shows "fst ` set (cg_Services (fold step xs cf)) = fst ` set (cg_Services cf) \<union> name ` set xs"
    and "ran (map_of (cg_Services (fold step xs cf))) \<subseteq> ran (map_of (cg_Services cf)) \<union> make ` set xs"
    and "cg_Networks (fold step xs cf) = cg_Networks cf" "cg_Volumes (fold step xs cf) = cg_Volumes cf"
  unfolding step_def
proof (induction xs arbitrary: cf)
  case (Cons x xs)
  {
    case 2
    show ?case using Cons(2)[of "put_service (name x) (make x) cf"] by (auto simp: ran_def split: if_splits)
  }
qed auto

lemma volume_lineI: "n \<in> volumes \<union> {''tmpfs'', ''./Caddyfile''} \<Longrightarrow> volume_line volumes (n @ '':'' @ p)"
  unfolding volume_line_def by blast

lemma volume_line_mono: "volume_line a r \<Longrightarrow> a \<subseteq> b \<Longrightarrow> volume_line b r"
  unfolding volume_line_def by blast

lemma volume_line_data: "volume_line {n @ ''_data''} (n @ ''_data:'' @ p)"
  using volume_lineI[of "n @ ''_data''" "{n @ ''_data''}" p] by simp

lemma getDatabaseImage_cases:
  "case getDatabaseImage db of
     Inl e \<Rightarrow> \<not> supported (db_Engine db) \<and> e = UnsupportedEngine (db_Name db) (db_Engine db)
   | Inr _ \<Rightarrow> supported (db_Engine db)"
  by (simp add: getDatabaseImage_def supported_def Let_def)

definition static_part :: "Compiler \<Rightarrow> Topology \<times> string \<times> string \<times> gomap \<times> gomap" where
  "static_part c = (cp_topology c, cp_project c, cp_env c, cp_images c, cp_connections c)"

lemma db_password_static: "db_password rnd c db = (p, c') \<Longrightarrow> static_part c' = static_part c"
  by (auto simp: db_password_def generatePassword_def static_part_def split: if_splits)

text \<open>The service of a database: its only references are its own data volume and the default network.\<close>

lemma generateDatabaseService_cases:
  assumes "generateDatabaseService rnd c db = (r, c')"
  shows "static_part c' = static_part c"
    and "case r of
        Inl e \<Rightarrow> \<not> supported (db_Engine db) \<and> e = UnsupportedEngine (db_Name db) (db_Engine db)
      | Inr svc \<Rightarrow> supported (db_Engine db) \<and> refs_ok {} {''default''} {db_Name db @ ''_data''} svc"
proof -
  obtain p c1 where p: "db_password rnd c db = (p, c1)" by (meson surj_pair)
  show "static_part c' = static_part c"
    using assms db_password_static[OF p] p by (auto simp: generateDatabaseService_def split: sum.splits)
  show "case r of
        Inl e \<Rightarrow> \<not> supported (db_Engine db) \<and> e = UnsupportedEngine (db_Name db) (db_Engine db)
      | Inr svc \<Rightarrow> supported (db_Engine db) \<and> refs_ok {} {''default''} {db_Name db @ ''_data''} svc"
    using assms getDatabaseImage_cases[of db] p
      volume_line_data[of "db_Name db" "getDatabaseDataPath (db_Engine db)"]
    by (auto simp: generateDatabaseService_def refs_ok_def service_shell_def split: sum.splits)
qed

lemma refs_ok_mono:
  "refs_ok a b c svc \<Longrightarrow> a \<subseteq> a' \<Longrightarrow> b \<subseteq> b' \<Longrightarrow> c \<subseteq> c' \<Longrightarrow> refs_ok a' b' c' svc"
  unfolding refs_ok_def by (meson subset_trans volume_line_mono)

lemma database_loop_error:
  "database_loop rnd dbs cf c = (Inl e, c') \<Longrightarrow>
   \<exists>db\<in>set dbs. hosted db \<and> \<not> supported (db_Engine db) \<and> e = UnsupportedEngine (db_Name db) (db_Engine db)"
proof (induction rnd dbs cf c rule: database_loop.induct)
  case (2 rnd db dbs cf c)
  obtain r c1 where r: "generateDatabaseService rnd c db = (r, c1)" by (meson surj_pair)
  show ?case using 2 r generateDatabaseService_cases(2)[OF r] by (cases r) (auto simp: hosted_def split: if_splits)
qed simp

lemma database_loop_result:
  "database_loop rnd dbs cf c = (Inr cf', c') \<Longrightarrow>
     static_part c' = static_part c
     \<and> (\<forall>db\<in>set (filter hosted dbs). supported (db_Engine db))
     \<and> fst ` set (cg_Services cf') = fst ` set (cg_Services cf) \<union> db_Name ` set (filter hosted dbs)
     \<and> fst ` set (cg_Volumes cf') = fst ` set (cg_Volumes cf) \<union> (\<lambda>db. db_Name db @ ''_data'') ` set (filter hosted dbs)
     \<and> cg_Networks cf' = cg_Networks cf
     \<and> (\<forall>svc\<in>ran (map_of (cg_Services cf')). svc \<in> ran (map_of (cg_Services cf))
          \<or> refs_ok {} {''default''} ((\<lambda>db. db_Name db @ ''_data'') ` set (filter hosted dbs)) svc)"
proof (induction rnd dbs cf c rule: database_loop.induct)
  case (2 rnd db dbs cf c)
  show ?case
  proof (cases "hosted db")
    case False
    then show ?thesis using 2 by (auto simp: hosted_def)
  next
    case True
    obtain r c1 where r: "generateDatabaseService rnd c db = (r, c1)" by (meson surj_pair)
    then obtain svc where svc: "r = Inr svc" using 2(3) True by (cases r) (auto simp: hosted_def)
    let ?cf = "put_volume (db_Name db @ ''_data'') (put_service (db_Name db) svc cf)"
    have loop: "database_loop rnd dbs ?cf c1 = (Inr cf', c')" using 2(3) True r svc by (simp add: hosted_def)
    note IH = 2(2)[OF _ r[symmetric] svc loop]
    have db: "refs_ok {} {''default''} {db_Name db @ ''_data''} svc" "static_part c1 = static_part c" "supported (db_Engine db)"
      using generateDatabaseService_cases[OF r] by (simp_all add: svc)
    let ?D = "\<lambda>dbs. (\<lambda>db. db_Name db @ ''_data'') ` set (filter hosted dbs)"
    have "s \<in> ran (map_of (cg_Services cf)) \<or> refs_ok {} {''default''} (?D (db # dbs)) s"
      if "s \<in> ran (map_of (cg_Services cf'))" for s
    proof -
      have "s \<in> insert svc (ran (map_of (cg_Services cf))) \<or> refs_ok {} {''default''} (?D dbs) s"
        using IH that True by (auto simp: ran_def hosted_def split: if_splits)
      then show ?thesis using refs_ok_mono[OF db(1), of "{}" "{''default''}" "?D (db # dbs)"] True
        by (auto intro: refs_ok_mono)
    qed
    then show ?thesis using IH True db(2,3) by (auto simp: hosted_def)
  qed
qed simp

lemma depends_on_hosted: "set (depends_on t i) \<subseteq> db_Name ` set (self_hosted t)"
  by (auto simp: depends_on_def self_hosted_def hosted_def split: if_splits)

lemma mount_ref_line:
  assumes "vol \<in> set (tp_Volumes t)"
  shows "volume_line (vo_Name ` {v \<in> set (tp_Volumes t). \<not> vo_Temporary v}) (mount_ref vol m)"
proof (cases "vo_Temporary vol")
  case True
  then show ?thesis
    using volume_lineI[of "''tmpfs''" _ "vm_MountPath m @ (if vm_ReadOnly m then '':ro'' else [])"] by (simp add: mount_ref_def)
next
  case False
  then show ?thesis
    using volume_lineI[of "vo_Name vol" _ "vm_MountPath m @ (if vm_ReadOnly m then '':ro'' else [])"] assms
    by (simp add: mount_ref_def)
qed

lemma mount_refs_line:
  "r \<in> set (mount_refs t ms) \<Longrightarrow> volume_line (vo_Name ` {v \<in> set (tp_Volumes t). \<not> vo_Temporary v}) r"
proof (induction ms)
  case (Cons m ms)
  then show ?case
    by (auto simp: findVolume_def find_Some_iff mount_ref_line split: option.splits)
qed simp

lemma generated_refs:
  "refs_ok (db_Name ` set (self_hosted (cp_topology c))) {''default''}
     (vo_Name ` {v \<in> set (tp_Volumes (cp_topology c)). \<not> vo_Temporary v}) (generateAppService c app)"
  "refs_ok (db_Name ` set (self_hosted (cp_topology c))) {''default''}
     (vo_Name ` {v \<in> set (tp_Volumes (cp_topology c)). \<not> vo_Temporary v}) (generateWorkerService c w)"
  "refs_ok {} {''default''} {''caddy_data'', ''caddy_config''} (generateProxyService c)"
  using depends_on_hosted mount_refs_line volume_lineI[of "''caddy_data''" "{''caddy_data'', ''caddy_config''}" "''/data''"]
    volume_lineI[of "''caddy_config''" "{''caddy_data'', ''caddy_config''}" "''/config''"]
    volume_lineI[of "''./Caddyfile''" "{''caddy_data'', ''caddy_config''}" "''/etc/caddy/Caddyfile:ro''"]
  by (auto simp: refs_ok_def generateAppService_def generateWorkerService_def generateProxyService_def service_shell_def)

lemma fold_put_volume:
  "fst ` set (cg_Volumes (fold (\<lambda>v cf. if vo_Temporary v then cf else put_volume (vo_Name v) cf) vs cf))
     = fst ` set (cg_Volumes cf) \<union> vo_Name ` {v \<in> set vs. \<not> vo_Temporary v}"
  "cg_Networks (fold (\<lambda>v cf. if vo_Temporary v then cf else put_volume (vo_Name v) cf) vs cf) = cg_Networks cf"
  "cg_Services (fold (\<lambda>v cf. if vo_Temporary v then cf else put_volume (vo_Name v) cf) vs cf) = cg_Services cf"
  by (induction vs arbitrary: cf) auto

definition target_of :: "Topology \<Rightarrow> Connection \<Rightarrow> Database option" where
  "target_of t conn =
     (if cn_Type conn = ConnDependency then find (\<lambda>db. db_ID db = cn_TargetID conn) (tp_Databases t) else None)"

lemma generateDatabaseURL_static: "generateDatabaseURL rnd c db = (u, c') \<Longrightarrow> static_part c' = static_part c"
  using db_password_static[of rnd c db] by (auto simp: generateDatabaseURL_def split: if_splits prod.splits)

lemma resolve_connection_unfold:
  "resolve_connection rnd conn c =
     (case target_of (cp_topology c) conn of
        None \<Rightarrow> c
      | Some db \<Rightarrow>
          (case generateDatabaseURL rnd c db of
             (u, c1) \<Rightarrow> c1\<lparr>cp_connections := AList.update (env_var_of conn db) u (cp_connections c1)\<rparr>))"
  by (simp add: resolve_connection_def target_of_def)

lemma resolve_connection_static:
  assumes "target_of (cp_topology c) conn = Some db"
  obtains u c1 where "generateDatabaseURL rnd c db = (u, c1)" "static_part c1 = static_part c"
    "resolve_connection rnd conn c = c1\<lparr>cp_connections := AList.update (env_var_of conn db) u (cp_connections c)\<rparr>"
proof -
  obtain u c1 where u: "generateDatabaseURL rnd c db = (u, c1)" by (meson surj_pair)
  moreover note st = generateDatabaseURL_static[OF u]
  moreover have "cp_connections c1 = cp_connections c" using st by (simp add: static_part_def)
  ultimately show thesis using that[of u c1] by (simp add: resolve_connection_unfold assms)
qed

lemma resolve_connection_topology: "cp_topology (resolve_connection rnd conn c) = cp_topology c"
proof (cases "target_of (cp_topology c) conn")
  case (Some db)
  then show ?thesis by (elim resolve_connection_static[of c conn db rnd]) (simp add: static_part_def)
qed (simp add: resolve_connection_unfold)

lemma resolveReferences_topology: "cp_topology (resolveReferences rnd c) = cp_topology c"
proof -
  have "cp_topology (fold (resolve_connection rnd) cs c) = cp_topology c" for cs
    by (induction cs arbitrary: c) (simp_all add: resolve_connection_topology)
  then show ?thesis by (simp add: resolveReferences_def Let_def)
qed

lemma generateCompose_error:
  "generateCompose rnd c = (Inl e, c') \<Longrightarrow>
   offence (cp_topology c) e \<and> (\<exists>db\<in>set (self_hosted (cp_topology c)). \<not> supported (db_Engine db))"
  by (auto simp: generateCompose_def Let_def self_hosted_def split: prod.splits sum.splits dest!: database_loop_error)

lemma generateCompose_result:
  assumes "generateCompose rnd c = (Inr cf, c')"
  defines "t \<equiv> cp_topology c"
  shows "\<forall>db\<in>set (self_hosted t). supported (db_Engine db)"
    and "fst ` set (cg_Services cf) = service_names t" "fst ` set (cg_Volumes cf) = declared_volumes t"
    and "fst ` set (cg_Networks cf) = {''default''}"
    and "\<forall>svc\<in>ran (map_of (cg_Services cf)). refs_ok (service_names t) {''default''} (declared_volumes t) svc"
proof -
  let ?cf0 = "\<lparr>cg_Version = ''3.9'', cg_Services = [], cg_Networks = [(''default'', \<lparr>nw_Driver = ''bridge''\<rparr>)], cg_Volumes = []\<rparr>"
  obtain cf1 where loop: "database_loop rnd (tp_Databases t) ?cf0 c = (Inr cf1, c')"
    using assms(1) by (auto simp: generateCompose_def Let_def t_def split: prod.splits sum.splits)
  note db = database_loop_result[OF loop]
  then have t': "cp_topology c' = t" by (simp add: static_part_def t_def)
  define cf2 where "cf2 = fold (\<lambda>app. put_service (ap_Name app) (generateAppService c' app)) (tp_Apps t) cf1"
  define cf3 where "cf3 = fold (\<lambda>w. put_service (wk_Name w) (generateWorkerService c' w)) (tp_Workers t) cf2"
  define cf4 where "cf4 = fold (\<lambda>v cf. if vo_Temporary v then cf else put_volume (vo_Name v) cf) (tp_Volumes t) cf3"
  have cf: "cf = (if tp_Domains t \<noteq> []
      then put_volume ''caddy_config'' (put_volume ''caddy_data'' (put_service ''proxy'' (generateProxyService c') cf4)) else cf4)"
    using assms(1) loop by (auto simp: generateCompose_def Let_def t_def[symmetric] cf2_def cf3_def cf4_def)
  note folds = fold_put_service[of ap_Name "generateAppService c'" "tp_Apps t" cf1, folded cf2_def]
    fold_put_service[of wk_Name "generateWorkerService c'" "tp_Workers t" cf2, folded cf3_def]
    fold_put_volume[of "tp_Volumes t" cf3, folded cf4_def]
  show sup: "\<forall>db\<in>set (self_hosted t). supported (db_Engine db)" using db by (simp add: self_hosted_def)
  show names: "fst ` set (cg_Services cf) = service_names t"
    using db by (auto simp: cf folds service_names_def self_hosted_def)
  show vols: "fst ` set (cg_Volumes cf) = declared_volumes t"
    using db by (auto simp: cf folds declared_volumes_def self_hosted_def)
  show "fst ` set (cg_Networks cf) = {''default''}" using db by (simp add: cf folds)
  show "\<forall>svc\<in>ran (map_of (cg_Services cf)). refs_ok (service_names t) {''default''} (declared_volumes t) svc"
  proof
    fix svc
    assume "svc \<in> ran (map_of (cg_Services cf))"
    then have "svc \<in> ran (map_of (cg_Services cf4)) \<or> tp_Domains t \<noteq> [] \<and> svc = generateProxyService c'"
      by (auto simp: cf ran_def split: if_splits)
    then consider "svc \<in> ran (map_of (cg_Services cf1))" | app where "svc = generateAppService c' app"
      | w where "svc = generateWorkerService c' w" | "tp_Domains t \<noteq> []" "svc = generateProxyService c'"
      using folds(2,6) unfolding folds(11) by blast
    moreover have sub: "db_Name ` set (self_hosted t) \<subseteq> service_names t"
      "vo_Name ` {v \<in> set (tp_Volumes t). \<not> vo_Temporary v} \<subseteq> declared_volumes t"
      by (auto simp: service_names_def declared_volumes_def)
    ultimately show "refs_ok (service_names t) {''default''} (declared_volumes t) svc"
    proof cases
      case 1
      then show ?thesis using db by (auto simp: declared_volumes_def self_hosted_def intro: refs_ok_mono)
    next
      case 2
      then show ?thesis using refs_ok_mono[OF generated_refs(1)[of c' app, unfolded t'] sub(1) order_refl sub(2)] by simp
    next
      case 3
      then show ?thesis using refs_ok_mono[OF generated_refs(2)[of c' w, unfolded t'] sub(1) order_refl sub(2)] by simp
    next
      case 4
      then show ?thesis using refs_ok_mono[OF generated_refs(3)[of c'] _ order_refl, of "service_names t" "declared_volumes t"]
        by (auto simp: declared_volumes_def)
    qed
  qed
qed

lemma topo_Compile_cases:
  assumes "topo_Compile rnd (NewCompiler t project env) = (r, c')"
  shows "case r of
      Inl e \<Rightarrow> offence t e \<and> \<not> (well_formed t \<and> (\<forall>db\<in>set (self_hosted t). supported (db_Engine db)))
    | Inr cf \<Rightarrow> well_formed t \<and> (\<forall>db\<in>set (self_hosted t). supported (db_Engine db))
        \<and> fst ` set (cg_Services cf) = service_names t \<and> fst ` set (cg_Volumes cf) = declared_volumes t
        \<and> references_resolve cf"
proof (cases "topo_validate t")
  case (Some e)
  then show ?thesis using assms topo_validate_cases[of t] by (auto simp: topo_Compile_def NewCompiler_def)
next
  case None
  let ?c = "resolveReferences rnd (NewCompiler t project env)"
  have gen: "generateCompose rnd ?c = (r, c')" and t: "cp_topology ?c = t" and wf: "well_formed t"
    using assms None topo_validate_cases[of t] by (simp_all add: topo_Compile_def resolveReferences_topology NewCompiler_def)
  show ?thesis
  proof (cases r)
    case (Inl e)
    then show ?thesis using generateCompose_error[of rnd ?c e c'] gen t by auto
  next
    case (Inr cf)
    note res = generateCompose_result[of rnd ?c cf c', unfolded t]
    show ?thesis using res gen wf by (simp add: Inr references_resolve_def)
  qed
qed


section \<open>Generated database passwords\<close>

definition drawn_password :: "(nat \<Rightarrow> nat \<Rightarrow> nat option) \<Rightarrow> nat \<Rightarrow> string" where
  "drawn_password rnd k = ''pwd_'' @ randomString (rnd k) 12"

definition drawn_url :: "(nat \<Rightarrow> nat \<Rightarrow> nat option) \<Rightarrow> Database \<Rightarrow> nat \<Rightarrow> string option \<Rightarrow> bool" where
  "drawn_url rnd db n v \<longleftrightarrow> (\<exists>k<n. v = Some (url_with ''postgresql'' db (drawn_password rnd k)))"

lemma drawn_url_mono: "drawn_url rnd db n v \<Longrightarrow> n \<le> m \<Longrightarrow> drawn_url rnd db m v"
  unfolding drawn_url_def using order_less_le_trans by blast

lemma db_password_draws: "db_password rnd c db = (p, c') \<Longrightarrow> cp_draws c \<le> cp_draws c'"
  by (auto simp: db_password_def generatePassword_def split: if_splits)

lemma resolve_connection_draws: "cp_draws c \<le> cp_draws (resolve_connection rnd conn c)"
  by (auto simp: resolve_connection_unfold generateDatabaseURL_def dest: db_password_draws split: option.splits prod.splits)

lemma resolve_connection_other:
  assumes "\<And>db. target_of (cp_topology c) conn = Some db \<Longrightarrow> env_var_of conn db \<noteq> var"
  shows "map_of (cp_connections (resolve_connection rnd conn c)) var = map_of (cp_connections c) var"
proof (cases "target_of (cp_topology c) conn")
  case (Some db)
  then have "var \<noteq> env_var_of conn db" using assms by blast
  then show ?thesis using Some by (elim resolve_connection_static[of c conn db rnd]) (simp add: update_conv')
qed (simp add: resolve_connection_unfold)

lemma resolve_connection_drawn:
  assumes "target_of (cp_topology c) conn = Some db" "db_Engine db = EnginePostgres" "db_ConnURL db = []" "db_Password db = []"
  shows "drawn_url rnd db (cp_draws (resolve_connection rnd conn c))
    (map_of (cp_connections (resolve_connection rnd conn c)) (env_var_of conn db))"
  using assms
  by (auto simp: target_of_def resolve_connection_def generateDatabaseURL_def db_password_def generatePassword_def drawn_url_def
      drawn_password_def update_conv' split: if_splits)

lemma fold_resolve_drawn:
  assumes "db_Engine db = EnginePostgres" "db_ConnURL db = []" "db_Password db = []"
    and "\<forall>conn\<in>set conns. \<forall>db'. target_of (cp_topology c) conn = Some db' \<longrightarrow> env_var_of conn db' = var \<longrightarrow> db' = db"
    and "(\<exists>conn\<in>set conns. target_of (cp_topology c) conn = Some db \<and> env_var_of conn db = var)
      \<or> drawn_url rnd db (cp_draws c) (map_of (cp_connections c) var)"
  shows "drawn_url rnd db (cp_draws (fold (resolve_connection rnd) conns c))
    (map_of (cp_connections (fold (resolve_connection rnd) conns c)) var)"
  using assms(4,5)
proof (induction conns arbitrary: c)
  case (Cons conn conns)
  let ?c = "resolve_connection rnd conn c"
  have "(\<exists>conn\<in>set conns. target_of (cp_topology ?c) conn = Some db \<and> env_var_of conn db = var)
      \<or> drawn_url rnd db (cp_draws ?c) (map_of (cp_connections ?c) var)"
  proof (cases "target_of (cp_topology c) conn = Some db \<and> env_var_of conn db = var")
    case True
    then show ?thesis using resolve_connection_drawn[of c conn db rnd] assms(1-3) by auto
  next
    case False
    then have "map_of (cp_connections ?c) var = map_of (cp_connections c) var"
      using Cons.prems(1) by (intro resolve_connection_other) auto
    then show ?thesis
      using Cons.prems(2) False drawn_url_mono[OF _ resolve_connection_draws]
      by (auto simp: resolve_connection_topology)
  qed
  then show ?case using Cons.IH[of ?c] Cons.prems(1) by (simp add: resolve_connection_topology)
qed simp

lemma fold_update_other: "k \<notin> fst ` set kvs \<Longrightarrow> map_of (fold (\<lambda>(k, v). AList.update k v) kvs m) k = map_of m k"
  by (induction kvs arbitrary: m) (auto simp: update_conv')

lemma database_loop_draws: "database_loop rnd dbs cf c = (r, c') \<Longrightarrow> cp_draws c \<le> cp_draws c'"
proof (induction rnd dbs cf c rule: database_loop.induct)
  case (2 rnd db dbs cf c)
  have "cp_draws c \<le> cp_draws c1" if "generateDatabaseService rnd c db = (x, c1)" for x c1
    using that by (auto simp: generateDatabaseService_def dest: db_password_draws split: sum.splits prod.splits)
  then show ?case using 2 by (force split: if_splits prod.splits sum.splits)
qed simp

lemma database_loop_other:
  "database_loop rnd dbs cf c = (Inr cf', c') \<Longrightarrow> n \<notin> db_Name ` set dbs \<Longrightarrow>
   map_of (cg_Services cf') n = map_of (cg_Services cf) n"
  by (induction rnd dbs cf c rule: database_loop.induct) (auto split: if_splits prod.splits sum.splits)

lemma database_loop_password:
  "database_loop rnd dbs cf c = (Inr cf', c') \<Longrightarrow> distinct (map db_Name dbs) \<Longrightarrow> db \<in> set dbs \<Longrightarrow> hosted db \<Longrightarrow>
   db_Engine db = EnginePostgres \<Longrightarrow> db_Password db = [] \<Longrightarrow> ''POSTGRES_PASSWORD'' \<notin> fst ` set (db_ExtraConfig db) \<Longrightarrow>
   \<exists>svc m. map_of (cg_Services cf') (db_Name db) = Some svc \<and> cp_draws c \<le> m \<and> m < cp_draws c'
     \<and> map_of (sv_Environment svc) ''POSTGRES_PASSWORD'' = Some (drawn_password rnd m)"
proof (induction rnd dbs cf c rule: database_loop.induct)
  case (2 rnd db' dbs cf c)
  show ?case
  proof (cases "hosted db'")
    case False
    then show ?thesis using 2 by (auto simp: hosted_def)
  next
    case True
    obtain r c1 where r: "generateDatabaseService rnd c db' = (r, c1)" by (meson surj_pair)
    then obtain svc where svc: "r = Inr svc" using 2(3) True by (cases r) (auto simp: hosted_def)
    let ?cf = "put_volume (db_Name db' @ ''_data'') (put_service (db_Name db') svc cf)"
    have loop: "database_loop rnd dbs ?cf c1 = (Inr cf', c')" using 2(3) True r svc by (simp add: hosted_def)
    have draws: "cp_draws c \<le> cp_draws c1" "cp_draws c1 \<le> cp_draws c'"
      using r database_loop_draws[OF loop]
      by (auto simp: generateDatabaseService_def dest: db_password_draws split: sum.splits prod.splits)
    show ?thesis
    proof (cases "db = db'")
      case True
      then have "map_of (cg_Services cf') (db_Name db) = Some svc"
        using database_loop_other[OF loop, of "db_Name db"] 2(4) by auto
      moreover have "c1 = c\<lparr>cp_draws := Suc (cp_draws c)\<rparr>"
        "map_of (sv_Environment svc) ''POSTGRES_PASSWORD'' = Some (drawn_password rnd (cp_draws c))"
        using r svc 2(7-9) True fold_update_other[OF 2(9)]
        by (auto simp: generateDatabaseService_def db_password_def generatePassword_def engine_env_def drawn_password_def
            split: sum.splits)
      ultimately show ?thesis using draws(2) by (intro exI[of _ svc] exI[of _ "cp_draws c"]) simp
    next
      case False
      then obtain svc' m where "map_of (cg_Services cf') (db_Name db) = Some svc'" "cp_draws c1 \<le> m" "m < cp_draws c'"
        "map_of (sv_Environment svc') ''POSTGRES_PASSWORD'' = Some (drawn_password rnd m)"
        using 2(2)[OF _ r[symmetric] svc loop] 2(4-9) True by (auto simp: hosted_def)
      then show ?thesis using draws(1) by (meson le_trans)
    qed
  qed
qed simp

lemma fold_put_service_other:
  "n \<notin> name ` set xs \<Longrightarrow>
   map_of (cg_Services (fold (\<lambda>x. put_service (name x) (mk x)) xs cf)) n = map_of (cg_Services cf) n"
  by (induction xs arbitrary: cf) auto

lemma generateCompose_database_service:
  assumes "generateCompose rnd c = (Inr cf, c')" "n \<notin> ap_Name ` set (tp_Apps (cp_topology c))"
    "n \<notin> wk_Name ` set (tp_Workers (cp_topology c))" "n \<noteq> ''proxy''"
  shows "\<exists>cf0 cf1. cg_Services cf0 = [] \<and> database_loop rnd (tp_Databases (cp_topology c)) cf0 c = (Inr cf1, c')
    \<and> map_of (cg_Services cf) n = map_of (cg_Services cf1) n"
proof -
  let ?cf0 = "\<lparr>cg_Version = ''3.9'', cg_Services = [], cg_Networks = [(''default'', \<lparr>nw_Driver = ''bridge''\<rparr>)], cg_Volumes = []\<rparr>"
  obtain cf1 where loop: "database_loop rnd (tp_Databases (cp_topology c)) ?cf0 c = (Inr cf1, c')"
    using assms(1) by (auto simp: generateCompose_def Let_def split: prod.splits sum.splits)
  then have "map_of (cg_Services cf) n = map_of (cg_Services cf1) n"
    using assms by (auto simp: generateCompose_def Let_def fold_put_volume fold_put_service_other)
  then show ?thesis using loop by (intro exI[of _ ?cf0] exI[of _ cf1]) simp
qed

text \<open>
  A generated database password reaches the database and its clients as two different values: when a hosted
  PostgreSQL database has no password of its own, the connection string handed to the apps and the password the
  database container starts with come from different draws of the random source, so they differ whenever the
  draws differ.
\<close>

theorem generated_password_mismatch:
  assumes "topo_Compile rnd (NewCompiler t project env) = (Inr cf, c')"
    and "db \<in> set (self_hosted t)" "db_Engine db = EnginePostgres" "db_ConnURL db = []" "db_Password db = []"
      "''POSTGRES_PASSWORD'' \<notin> fst ` set (db_ExtraConfig db)"
    and "conn \<in> set (tp_Connections t)" "target_of t conn = Some db"
      "\<forall>conn'\<in>set (tp_Connections t). \<forall>db'. target_of t conn' = Some db' \<longrightarrow> env_var_of conn' db' = env_var_of conn db \<longrightarrow> db' = db"
    and "db_Name db \<notin> wk_Name ` set (tp_Workers t) \<union> {''proxy''}"
    and "inj_on (\<lambda>k. randomString (rnd k) 12) {..<cp_draws c'}"
  shows "\<exists>pw pw' svc. map_of (cp_connections c') (env_var_of conn db) = Some (url_with ''postgresql'' db pw)
     \<and> map_of (cg_Services cf) (db_Name db) = Some svc \<and> map_of (sv_Environment svc) ''POSTGRES_PASSWORD'' = Some pw' \<and> pw \<noteq> pw'"
proof -
  let ?new = "NewCompiler t project env"
  let ?c = "resolveReferences rnd ?new"
  have t: "cp_topology ?new = t" "cp_topology ?c = t" by (simp_all add: resolveReferences_topology NewCompiler_def)
  have wf: "well_formed t" and gen: "generateCompose rnd ?c = (Inr cf, c')"
    using assms(1) topo_validate_cases[of t] by (auto simp: topo_Compile_def t split: option.splits)
  have db: "db \<in> set (tp_Databases t)" "hosted db" using assms(2) by (auto simp: self_hosted_def)
  have "drawn_url rnd db (cp_draws (fold (resolve_connection rnd) (tp_Connections t) ?new))
      (map_of (cp_connections (fold (resolve_connection rnd) (tp_Connections t) ?new)) (env_var_of conn db))"
    using fold_resolve_drawn[OF assms(3-5), of "tp_Connections t" ?new] assms(7-9) unfolding t by blast
  then obtain k where k: "k < cp_draws ?c"
    "map_of (cp_connections ?c) (env_var_of conn db) = Some (url_with ''postgresql'' db (drawn_password rnd k))"
    by (auto simp: drawn_url_def resolveReferences_def Let_def NewCompiler_def)
  have "db_Name db \<notin> ap_Name ` set (tp_Apps t)" "distinct (map db_Name (tp_Databases t))"
    using wf db(1) by (auto simp: well_formed_def)
  then obtain cf0 cf1 svc m where loop: "database_loop rnd (tp_Databases t) cf0 ?c = (Inr cf1, c')"
    and svc: "map_of (cg_Services cf) (db_Name db) = Some svc" "cp_draws ?c \<le> m" "m < cp_draws c'"
      "map_of (sv_Environment svc) ''POSTGRES_PASSWORD'' = Some (drawn_password rnd m)"
    using generateCompose_database_service[OF gen, of "db_Name db"] assms(3,5,6,10) db database_loop_password[of rnd "tp_Databases t" _ ?c _ c' db]
    unfolding t by (metis UnCI insertI1)
  have "cp_connections c' = cp_connections ?c" using database_loop_result[OF loop] by (simp add: static_part_def)
  moreover have "drawn_password rnd k \<noteq> drawn_password rnd m"
    using inj_onD[OF assms(11), of k m] k(1) svc(2,3) by (auto simp: drawn_password_def)
  ultimately show ?thesis using k(2) svc(1,4) by metis
qed

definition ex_database :: Database where
  "ex_database = \<lparr>db_ID = ''d1'', db_Name = ''main'', db_Engine = EnginePostgres, db_Version = [], db_SizeGB = 10,
     db_Managed = False, db_External = False, db_ConnURL = [], db_Username = [], db_Password = [], db_Database = [],
     db_ExtraConfig = []\<rparr>"

definition ex_connection :: Connection where
  "ex_connection = \<lparr>cn_ID = ''e1'', cn_Type = ConnDependency, cn_SourceID = ''a1'', cn_TargetID = ''d1'',
     cn_Config = \<lparr>cc_MountPath = [], cc_EnvVarName = ''DATABASE_URL''\<rparr>\<rparr>"

definition ex_app :: App where
  "ex_app = \<lparr>ap_ID = ''a1'', ap_Name = ''web'', ap_GitURL = [], ap_Branch = ''main'', ap_BuildPack = ''auto'', ap_Dockerfile = [],
     ap_Port = 3000, ap_Replicas = 1, ap_MemoryMB = 0, ap_CPU = 0, ap_EnvVars = [], ap_VolumeMounts = [],
     ap_HealthCheckPath = [], ap_HealthCheckPort = 0, ap_InternalOnly = False\<rparr>"

definition ex_topology :: Topology where
  "ex_topology = \<lparr>tp_ProjectID = ''p'', tp_Environment = ''prod'', tp_Apps = [ex_app], tp_Databases = [ex_database],
     tp_Domains = [], tp_Volumes = [], tp_Workers = [], tp_Connections = [ex_connection]\<rparr>"

definition ex_compiled :: "(topology_error + ComposeConfig) \<times> Compiler" where
  "ex_compiled = topo_Compile (\<lambda>k i. Some k) (NewCompiler ex_topology ''p'' ''prod'')"

lemma ex_topology_valid: "topo_validate ex_topology = None"
  by (simp add: topo_validate_def ex_topology_def ex_app_def ex_database_def ex_connection_def check_connection_def
      componentExists_def appExists_def check_mounts_def)

lemma ex_compiled_facts: "\<not> isl (fst ex_compiled)" "cp_draws (snd ex_compiled) = 2"
  by (simp_all add: ex_compiled_def topo_Compile_def NewCompiler_def ex_topology_valid resolveReferences_def Let_def
      resolve_connection_def generateDatabaseURL_def generateCompose_def generateDatabaseService_def getDatabaseImage_def
      db_password_def generatePassword_def)
    (simp_all add: ex_topology_def ex_database_def ex_connection_def resolve_connection_def generateDatabaseURL_def
      generateDatabaseService_def getDatabaseImage_def db_password_def generatePassword_def Let_def)

theorem generated_password_mismatch_witness:
  "\<exists>cf c' pw pw' svc. ex_compiled = (Inr cf, c')
     \<and> map_of (cp_connections c') ''DATABASE_URL'' = Some (url_with ''postgresql'' ex_database pw)
     \<and> map_of (cg_Services cf) ''main'' = Some svc \<and> map_of (sv_Environment svc) ''POSTGRES_PASSWORD'' = Some pw' \<and> pw \<noteq> pw'"
proof -
  obtain cf c' where run: "ex_compiled = (Inr cf, c')"
    using ex_compiled_facts(1) by (metis prod.collapse sum.collapse(2))
  have draws: "cp_draws c' = 2" using ex_compiled_facts(2) by (simp add: run)
  have "randomString (\<lambda>i. Some 0) 12 ! 0 \<noteq> randomString (\<lambda>i. Some 1) 12 ! 0" by (simp add: randomString_def)
  then have inj: "inj_on (\<lambda>k. randomString ((\<lambda>k i. Some k) k) 12) {..<cp_draws c'}"
    unfolding draws by (auto simp: inj_on_def less_Suc_eq numeral_2_eq_2)
  have "\<exists>pw pw' svc. map_of (cp_connections c') (env_var_of ex_connection ex_database) = Some (url_with ''postgresql'' ex_database pw)
     \<and> map_of (cg_Services cf) (db_Name ex_database) = Some svc
     \<and> map_of (sv_Environment svc) ''POSTGRES_PASSWORD'' = Some pw' \<and> pw \<noteq> pw'"
    using run unfolding ex_compiled_def
    by (rule generated_password_mismatch[OF _ _ _ _ _ _ _ _ _ _ inj])
      (simp_all add: ex_topology_def ex_database_def ex_connection_def self_hosted_def hosted_def target_of_def env_var_of_def)
  moreover have "env_var_of ex_connection ex_database = ''DATABASE_URL''" "db_Name ex_database = ''main''"
    by (simp_all add: env_var_of_def ex_connection_def ex_database_def)
  ultimately show ?thesis using run by metis
qed

end
