(* ===== verification/Topology_YAML.thy ===== *)
theory Topology_YAML
  imports Topology_Compile
begin

text \<open>
  Rendering of a compose configuration as YAML text (\<open>internal/topology/yaml.go\<close>), with the formatting verb
  \<open>%q\<close> of package fmt that most of its values go through.

  A string is a list of bytes. The Unicode table of printable characters is the argument \<open>ip\<close>, asked only for
  code points from 128 on.
\<close>

section \<open>Quoted strings of package strconv\<close>

definition cont_byte :: "char \<Rightarrow> nat \<Rightarrow> nat \<Rightarrow> bool" where
  "cont_byte c lo hi \<longleftrightarrow> lo \<le> of_char c \<and> of_char c \<le> hi"

text \<open>\<open>utf8.DecodeRuneInString\<close>: the first code point and its width in bytes; an encoding error has the code point
  \<open>RuneError\<close> and width 1.\<close>

definition RuneError :: nat where
  "RuneError = 65533"

fun decodeRune :: "string \<Rightarrow> nat \<times> nat" where
  "decodeRune [] = (RuneError, 0)"
| "decodeRune (a # s) =
     (let n = of_char a in
      if n < 128 then (n, 1)
      else if 194 \<le> n \<and> n \<le> 223 then
        (case s of
           b # _ \<Rightarrow> if cont_byte b 128 191 then ((n - 192) * 64 + (of_char b - 128), 2) else (RuneError, 1)
         | _ \<Rightarrow> (RuneError, 1))
      else if 224 \<le> n \<and> n \<le> 239 then
        (case s of
           b # c # _ \<Rightarrow>
             if cont_byte b (if n = 224 then 160 else 128) (if n = 237 then 159 else 191) \<and> cont_byte c 128 191
             then ((n - 224) * 4096 + (of_char b - 128) * 64 + (of_char c - 128), 3) else (RuneError, 1)
         | _ \<Rightarrow> (RuneError, 1))
      else if 240 \<le> n \<and> n \<le> 244 then
        (case s of
           b # c # d # _ \<Rightarrow>
             if cont_byte b (if n = 240 then 144 else 128) (if n = 244 then 143 else 191) \<and> cont_byte c 128 191 \<and> cont_byte d 128 191
             then ((n - 240) * 262144 + (of_char b - 128) * 4096 + (of_char c - 128) * 64 + (of_char d - 128), 4)
             else (RuneError, 1)
         | _ \<Rightarrow> (RuneError, 1))
      else (RuneError, 1))"

definition hex_digit :: "nat \<Rightarrow> char" where
  "hex_digit n = char_of (if n < 10 then 48 + n else 87 + n)"

fun hex :: "nat \<Rightarrow> nat \<Rightarrow> string" where
  "hex 0 v = []"
| "hex (Suc k) v = hex k (v div 16) @ [hex_digit (v mod 16)]"

abbreviation backslash :: char where "backslash \<equiv> CHR 0x5C"
abbreviation dquote :: char where "dquote \<equiv> CHR 0x22"

definition isPrint :: "(nat \<Rightarrow> bool) \<Rightarrow> nat \<Rightarrow> bool" where
  "isPrint ip r \<longleftrightarrow> (if r < 128 then 32 \<le> r \<and> r \<le> 126 else ip r)"

definition escapeRune :: "(nat \<Rightarrow> bool) \<Rightarrow> nat \<Rightarrow> string \<Rightarrow> string" where
  "escapeRune ip r bytes =
     (if r = 34 \<or> r = 92 then [backslash, char_of r]
      else if isPrint ip r then bytes
      else if r = 7 then [backslash, CHR ''a'']
      else if r = 8 then [backslash, CHR ''b'']
      else if r = 12 then [backslash, CHR ''f'']
      else if r = 10 then [backslash, CHR ''n'']
      else if r = 13 then [backslash, CHR ''r'']
      else if r = 9 then [backslash, CHR ''t'']
      else if r = 11 then [backslash, CHR ''v'']
      else if r < 32 \<or> r = 127 then [backslash, CHR ''x''] @ hex 2 r
      else if r < 65536 then [backslash, CHR ''u''] @ hex 4 r
      else [backslash, CHR ''U''] @ hex 8 r)"

fun quote_body :: "(nat \<Rightarrow> bool) \<Rightarrow> string \<Rightarrow> string" where
  "quote_body ip [] = []"
| "quote_body ip (c # s) =
     (case decodeRune (c # s) of
        (r, w) \<Rightarrow>
          (if w = 1 \<and> r = RuneError then [backslash, CHR ''x''] @ hex 2 (of_char c) else escapeRune ip r (take w (c # s)))
            @ quote_body ip (drop (w - 1) s))"

declare decodeRune.simps [simp del]

definition quote :: "(nat \<Rightarrow> bool) \<Rightarrow> string \<Rightarrow> string" where
  "quote ip s = dquote # quote_body ip s @ [dquote]"

section \<open>The renderer\<close>

definition yamlCommandEscape :: "(nat \<Rightarrow> bool) \<Rightarrow> string \<Rightarrow> string" where
  "yamlCommandEscape ip s = dquote # quote ip s @ [dquote]"

text \<open>\<open>sortStrings\<close> exchanges the element at \<open>i\<close> with every smaller one behind it; \<open>exchange_pass\<close> is its inner loop.\<close>

fun exchange_pass :: "string \<Rightarrow> string list \<Rightarrow> string \<times> string list" where
  "exchange_pass x [] = (x, [])"
| "exchange_pass x (y # ys) =
     (if y < x then (case exchange_pass y ys of (m, zs) \<Rightarrow> (m, x # zs))
      else (case exchange_pass x ys of (m, zs) \<Rightarrow> (m, y # zs)))"

lemma length_exchange_pass: "exchange_pass x ys = (m, zs) \<Longrightarrow> length zs = length ys"
  by (induction x ys arbitrary: m zs rule: exchange_pass.induct) (auto split: if_splits prod.splits)

function sortStrings :: "string list \<Rightarrow> string list" where
  "sortStrings [] = []"
| "sortStrings (x # xs) = (case exchange_pass x xs of (m, ys) \<Rightarrow> m # sortStrings ys)"
  by pat_completeness auto

termination
  by (relation "measure length") (simp_all, metis length_exchange_pass lessI)

definition spaces :: "nat \<Rightarrow> string" where
  "spaces n = replicate n (CHR '' '')"

definition yaml_lines :: "('a \<Rightarrow> string) \<Rightarrow> 'a list \<Rightarrow> string" where
  "yaml_lines f xs = concat (map f xs)"

definition map_get :: "gomap \<Rightarrow> string \<Rightarrow> string" where
  "map_get m k = (case map_of m k of Some v \<Rightarrow> v | None \<Rightarrow> [])"

definition opt_line :: "bool \<Rightarrow> string \<Rightarrow> string" where
  "opt_line b s = (if b then s @ nl else [])"

definition build_yaml :: "(nat \<Rightarrow> bool) \<Rightarrow> string \<Rightarrow> BuildConfig option \<Rightarrow> string" where
  "build_yaml ip pad b =
     (case b of
        None \<Rightarrow> []
      | Some bc \<Rightarrow>
          pad @ ''build:'' @ nl
            @ opt_line (bc_Context bc \<noteq> []) (pad @ ''  context: '' @ quote ip (bc_Context bc))
            @ opt_line (bc_Dockerfile bc \<noteq> []) (pad @ ''  dockerfile: '' @ quote ip (bc_Dockerfile bc))
            @ (if bc_Args bc \<noteq> []
               then pad @ ''  args:'' @ nl @ yaml_lines (\<lambda>(k, v). pad @ ''    '' @ k @ '': '' @ quote ip v @ nl) (bc_Args bc) else []))"

definition port_line :: "string \<Rightarrow> PortMapping \<Rightarrow> string" where
  "port_line pad p =
     pad @ ''  - '' @ [dquote] @ itoa (pm_Host p) @ '':'' @ itoa (pm_Container p)
       @ (if pm_Protocol p \<noteq> [] then ''/'' @ pm_Protocol p else []) @ [dquote] @ nl"

definition map_yaml :: "(nat \<Rightarrow> bool) \<Rightarrow> string \<Rightarrow> string \<Rightarrow> gomap \<Rightarrow> string" where
  "map_yaml ip pad header m =
     (if m \<noteq> [] then
        pad @ header @ '':'' @ nl
          @ yaml_lines (\<lambda>k. pad @ ''  '' @ k @ '': '' @ quote ip (map_get m k) @ nl) (sortStrings (map fst m))
      else [])"

definition list_yaml :: "string \<Rightarrow> string \<Rightarrow> string list \<Rightarrow> string" where
  "list_yaml pad header xs =
     (if xs \<noteq> [] then pad @ header @ '':'' @ nl @ yaml_lines (\<lambda>x. pad @ ''  - '' @ x @ nl) xs else [])"

definition health_yaml :: "(nat \<Rightarrow> bool) \<Rightarrow> string \<Rightarrow> HealthCheck option \<Rightarrow> string" where
  "health_yaml ip pad h =
     (case h of
        None \<Rightarrow> []
      | Some hc \<Rightarrow>
          pad @ ''healthcheck:'' @ nl
            @ opt_line (hk_Test hc \<noteq> []) (pad @ ''  test: ['' @ joinWith '', '' (map (quote ip) (hk_Test hc)) @ '']'')
            @ opt_line (hk_Interval hc \<noteq> []) (pad @ ''  interval: '' @ hk_Interval hc)
            @ opt_line (hk_Timeout hc \<noteq> []) (pad @ ''  timeout: '' @ hk_Timeout hc)
            @ opt_line (hk_Retries hc > 0) (pad @ ''  retries: '' @ itoa (hk_Retries hc))
            @ opt_line (hk_Disable hc) (pad @ ''  disable: true''))"

definition limits_yaml :: "string \<Rightarrow> ResourceLimit \<Rightarrow> string" where
  "limits_yaml pad l =
     pad @ ''    limits:'' @ nl
       @ opt_line (rl_CPUs l \<noteq> []) (pad @ ''      cpus: '' @ rl_CPUs l)
       @ opt_line (rl_Memory l \<noteq> []) (pad @ ''      memory: '' @ rl_Memory l)"

definition deploy_yaml :: "string \<Rightarrow> DeployConfig option \<Rightarrow> string" where
  "deploy_yaml pad d =
     (case d of
        None \<Rightarrow> []
      | Some dc \<Rightarrow>
          pad @ ''deploy:'' @ nl
            @ opt_line (dc_Replicas dc > 0) (pad @ ''  replicas: '' @ itoa (dc_Replicas dc))
            @ (case dc_Resources dc of
                 None \<Rightarrow> []
               | Some rs \<Rightarrow>
                   pad @ ''  resources:'' @ nl @ (case rs_Limits rs of None \<Rightarrow> [] | Some l \<Rightarrow> limits_yaml pad l)))"

definition service_toYAML :: "(nat \<Rightarrow> bool) \<Rightarrow> nat \<Rightarrow> Service \<Rightarrow> string" where
  "service_toYAML ip indent s =
     (let pad = spaces indent
      in opt_line (sv_Image s \<noteq> []) (pad @ ''image: '' @ quote ip (sv_Image s))
         @ build_yaml ip pad (sv_Build s)
         @ opt_line (sv_ContainerName s \<noteq> []) (pad @ ''container_name: '' @ quote ip (sv_ContainerName s))
         @ opt_line (sv_Restart s \<noteq> []) (pad @ ''restart: '' @ sv_Restart s)
         @ (if sv_Ports s \<noteq> [] then pad @ ''ports:'' @ nl @ yaml_lines (port_line pad) (sv_Ports s) else [])
         @ (if sv_Expose s \<noteq> []
            then pad @ ''expose:'' @ nl @ yaml_lines (\<lambda>p. pad @ ''  - '' @ quote ip (itoa p) @ nl) (sv_Expose s) else [])
         @ map_yaml ip pad ''environment'' (sv_Environment s)
         @ list_yaml pad ''volumes'' (sv_Volumes s)
         @ list_yaml pad ''networks'' (sv_Networks s)
         @ list_yaml pad ''depends_on'' (sv_DependsOn s)
         @ map_yaml ip pad ''labels'' (sv_Labels s)
         @ health_yaml ip pad (sv_HealthCheck s)
         @ opt_line (sv_Command s \<noteq> []) (pad @ ''command: '' @ yamlCommandEscape ip (sv_Command s))
         @ deploy_yaml pad (sv_Deploy s))"

definition service_entry :: "(nat \<Rightarrow> bool) \<Rightarrow> (string \<times> Service) list \<Rightarrow> string \<Rightarrow> string" where
  "service_entry ip services name =
     ''  '' @ name @ '':'' @ nl @ (case map_of services name of Some svc \<Rightarrow> service_toYAML ip 4 svc | None \<Rightarrow> [])"

definition network_entry :: "string \<times> Network \<Rightarrow> string" where
  "network_entry e = ''  '' @ fst e @ '':'' @ nl @ opt_line (nw_Driver (snd e) \<noteq> []) (''    driver: '' @ nw_Driver (snd e))"

definition volume_entry :: "string \<times> VolumeSpec \<Rightarrow> string" where
  "volume_entry e =
     ''  '' @ fst e @ '':'' @ nl
       @ opt_line (vs_Driver (snd e) \<noteq> []) (''    driver: '' @ vs_Driver (snd e))
       @ opt_line (vs_External (snd e)) ''    external: true''"

definition ToYAML :: "(nat \<Rightarrow> bool) \<Rightarrow> ComposeConfig \<Rightarrow> string" where
  "ToYAML ip c =
     (if cg_Version c \<noteq> [] then ''version: '' @ quote ip (cg_Version c) @ nl @ nl else [])
       @ (if cg_Services c \<noteq> []
          then ''services:'' @ nl @ yaml_lines (service_entry ip (cg_Services c)) (sortStrings (map fst (cg_Services c))) @ nl else [])
       @ (if cg_Networks c \<noteq> [] then ''networks:'' @ nl @ yaml_lines network_entry (cg_Networks c) @ nl else [])
       @ (if cg_Volumes c \<noteq> [] then ''volumes:'' @ nl @ yaml_lines volume_entry (cg_Volumes c) else [])"

section \<open>Sorting\<close>

lemma exchange_pass_spec:
  "exchange_pass x ys = (m, zs) \<Longrightarrow> add_mset m (mset zs) = add_mset x (mset ys) \<and> m \<le> x \<and> (\<forall>z\<in>set zs. m \<le> z)"
proof (induction x ys arbitrary: m zs rule: exchange_pass.induct)
  case (2 x y ys)
  show ?case
  proof (cases "y < x")
    case True
    obtain m' zs' where run: "exchange_pass y ys = (m', zs')" by (meson surj_pair)
    then show ?thesis using 2(1)[OF True run] 2(3) True by (auto simp: add_mset_commute)
  next
    case False
    obtain m' zs' where run: "exchange_pass x ys = (m', zs')" by (meson surj_pair)
    then show ?thesis using 2(2)[OF False run] 2(3) False by (auto simp: add_mset_commute)
  qed
qed simp

lemma sortStrings_spec: "mset (sortStrings xs) = mset xs \<and> sorted (sortStrings xs)"
proof (induction xs rule: sortStrings.induct)
  case (2 x xs)
  obtain m ys where run: "exchange_pass x xs = (m, ys)" by (meson surj_pair)
  note spec = exchange_pass_spec[OF run]
  have "mset (sortStrings ys) = mset ys" "sorted (sortStrings ys)" using 2[OF run[symmetric]] by simp_all
  moreover from this(1) have "set (sortStrings ys) = set ys" by (rule mset_eq_setD)
  ultimately show ?case using spec by (simp add: run)
qed simp

lemma sortStrings_is_sort: "sortStrings xs = sort xs"
  by (metis properties_for_sort sortStrings_spec)

section \<open>What the text depends on\<close>

text \<open>The same map in another iteration order.\<close>

definition same_map :: "(string \<times> 'v) list \<Rightarrow> (string \<times> 'v) list \<Rightarrow> bool" where
  "same_map m m' \<longleftrightarrow> distinct (map fst m) \<and> mset m = mset m'"

definition same_service :: "Service \<Rightarrow> Service \<Rightarrow> bool" where
  "same_service s s' \<longleftrightarrow> same_map (sv_Environment s) (sv_Environment s') \<and> same_map (sv_Labels s) (sv_Labels s')
     \<and> s' = s\<lparr>sv_Environment := sv_Environment s', sv_Labels := sv_Labels s'\<rparr>"

definition same_config :: "ComposeConfig \<Rightarrow> ComposeConfig \<Rightarrow> bool" where
  "same_config c c' \<longleftrightarrow>
     mset (map fst (cg_Services c)) = mset (map fst (cg_Services c'))
     \<and> (\<forall>n. rel_option same_service (map_of (cg_Services c) n) (map_of (cg_Services c') n))
     \<and> c' = c\<lparr>cg_Services := cg_Services c'\<rparr>"

lemma same_map_sorted_keys: "mset (map fst m) = mset (map fst m') \<Longrightarrow> sortStrings (map fst m) = sortStrings (map fst m')"
  by (metis properties_for_sort sortStrings_is_sort sortStrings_spec)

lemma same_map_lookup: "same_map m m' \<Longrightarrow> map_of m' = map_of m"
  unfolding same_map_def
  by (metis map_of_inject_set mset_eq_imp_distinct_iff mset_map set_mset_mset)

lemma same_map_yaml: "same_map m m' \<Longrightarrow> map_yaml ip pad header m' = map_yaml ip pad header m"
  using same_map_sorted_keys[of m m'] same_map_lookup[of m m']
  by (auto simp: map_yaml_def map_get_def same_map_def mset_map)

lemma same_service_yaml:
  assumes "same_service s s'"
  shows "service_toYAML ip indent s' = service_toYAML ip indent s"
proof -
  have s': "s' = s\<lparr>sv_Environment := sv_Environment s', sv_Labels := sv_Labels s'\<rparr>"
    and maps: "same_map (sv_Environment s) (sv_Environment s')" "same_map (sv_Labels s) (sv_Labels s')"
    using assms by (auto simp: same_service_def)
  show ?thesis
    by (subst s') (simp add: service_toYAML_def Let_def same_map_yaml[OF maps(1)] same_map_yaml[OF maps(2)])
qed

text \<open>
  The rendered file does not depend on Go's map iteration order as far as services, their environments and
  their labels go: two configurations that differ only in the order of these maps render to the same text.
\<close>

theorem compose_yaml_deterministic:
  assumes "same_config c c'"
  shows "ToYAML ip c' = ToYAML ip c"
proof -
  have c': "c' = c\<lparr>cg_Services := cg_Services c'\<rparr>"
    and keys: "mset (map fst (cg_Services c)) = mset (map fst (cg_Services c'))"
    and rel: "rel_option same_service (map_of (cg_Services c) n) (map_of (cg_Services c') n)" for n
    using assms by (auto simp: same_config_def)
  have "service_entry ip (cg_Services c') n = service_entry ip (cg_Services c) n" for n
    using rel[of n] same_service_yaml by (auto simp: service_entry_def rel_option_iff split: option.splits)
  then have entry: "service_entry ip (cg_Services c') = service_entry ip (cg_Services c)" by (rule ext)
  have "cg_Services c' = [] \<longleftrightarrow> cg_Services c = []" using keys by auto
  then show ?thesis
    by (subst c') (simp add: ToYAML_def entry same_map_sorted_keys[OF keys])
qed

text \<open>Two orders of the environment of a service, and of the services.\<close>

theorem compose_yaml_deterministic_witness:
  "\<exists>c c'. c \<noteq> c' \<and> same_config c c' \<and> ToYAML (\<lambda>_. True) c' = ToYAML (\<lambda>_. True) c"
proof -
  define svc where "svc env = (service_shell (NewCompiler ex_topology ''p'' ''e'') ''web'')\<lparr>sv_Environment := env\<rparr>" for env
  define cfg where "cfg svcs = \<lparr>cg_Version = ''3.9'', cg_Services = svcs, cg_Networks = [], cg_Volumes = []\<rparr>" for svcs
  let ?c = "cfg [(''web'', svc [(''A'', ''1''), (''B'', ''2'')]), (''api'', svc [])]"
  let ?d = "cfg [(''api'', svc []), (''web'', svc [(''B'', ''2''), (''A'', ''1'')])]"
  have "same_config ?c ?d"
    by (auto simp: same_config_def cfg_def svc_def same_service_def same_map_def service_shell_def add_mset_commute)
  then show ?thesis using compose_yaml_deterministic[of ?c ?d "\<lambda>_. True"] by (intro exI[of _ ?c] exI[of _ ?d]) (simp add: cfg_def)
qed

section \<open>Quoted values stay on their line\<close>

text \<open>A reader of a double-quoted scalar: it takes a backslash with the character behind it, stops at a quote, and
  returns the scalar's text and the rest.\<close>

fun scan_quoted :: "string \<Rightarrow> (string \<times> string) option" where
  "scan_quoted [] = None"
| "scan_quoted (c # s) =
     (if c = dquote then Some ([], s)
      else if c = CHR 0x0A then None
      else if c = backslash then
        (case s of
           [] \<Rightarrow> None
         | d # t \<Rightarrow> (case scan_quoted t of None \<Rightarrow> None | Some (b, r) \<Rightarrow> Some (c # d # b, r)))
      else (case scan_quoted s of None \<Rightarrow> None | Some (b, r) \<Rightarrow> Some (c # b, r)))"

definition chunk :: "string \<Rightarrow> bool" where
  "chunk e \<longleftrightarrow> (\<forall>t b r. scan_quoted t = Some (b, r) \<longrightarrow> scan_quoted (e @ t) = Some (e @ b, r))"

definition plain :: "char \<Rightarrow> bool" where
  "plain c \<longleftrightarrow> c \<noteq> dquote \<and> c \<noteq> backslash \<and> c \<noteq> CHR 0x0A"

lemma chunk_append: "chunk a \<Longrightarrow> chunk b \<Longrightarrow> chunk (a @ b)"
  by (simp add: chunk_def)

lemma chunk_plain: "\<forall>c\<in>set e. plain c \<Longrightarrow> chunk e"
proof (induction e)
  case (Cons c e)
  then show ?case by (auto simp: chunk_def plain_def)
qed (simp add: chunk_def)

lemma chunk_escape: "chunk [backslash, d]"
  by (auto simp: chunk_def)

lemma plain_of_char: "of_char c \<notin> {10, 34, 92 :: nat} \<Longrightarrow> plain c"
  by (auto simp: plain_def)

lemma hex_plain: "c \<in> set (hex k v) \<Longrightarrow> plain c"
proof (induction k arbitrary: v)
  case (Suc k)
  have "plain (hex_digit (v mod 16))"
    by (rule plain_of_char) (simp add: hex_digit_def of_char_of)
  then show ?case using Suc by auto
qed simp

lemma decodeRune_bytes:
  assumes "decodeRune (c # s) = (r, w)" "\<not> (w = 1 \<and> r = RuneError)"
  shows "r < 128 \<and> w = 1 \<and> r = of_char c \<or> 128 \<le> r \<and> (\<forall>x\<in>set (take w (c # s)). 128 \<le> (of_char x :: nat))"
proof -
  consider "of_char c < (128 :: nat)" | "194 \<le> (of_char c :: nat)" "of_char c \<le> (223 :: nat)"
    | "224 \<le> (of_char c :: nat)" "of_char c \<le> (239 :: nat)" | "240 \<le> (of_char c :: nat)" "of_char c \<le> (244 :: nat)"
    using assms by (fastforce simp: decodeRune.simps Let_def split: if_splits)
  then show ?thesis
  proof cases
    case 1
    then show ?thesis using assms by (simp add: decodeRune.simps Let_def)
  next
    case 2
    then show ?thesis using assms by (auto simp: decodeRune.simps Let_def cont_byte_def split: if_splits list.splits)
  next
    case 3
    then show ?thesis using assms by (auto simp: decodeRune.simps Let_def cont_byte_def split: if_splits list.splits)
  next
    case 4
    then show ?thesis using assms by (auto simp: decodeRune.simps Let_def cont_byte_def split: if_splits list.splits)
  qed
qed

lemma escapeRune_chunk:
  assumes "r < 128 \<and> bytes = [c] \<and> r = of_char c \<or> 128 \<le> r \<and> (\<forall>x\<in>set bytes. 128 \<le> (of_char x :: nat))"
  shows "chunk (escapeRune ip r bytes)"
proof -
  have "chunk bytes" if "isPrint ip r" "r \<noteq> 34" "r \<noteq> 92"
  proof (rule chunk_plain, rule ballI, rule plain_of_char)
    fix x assume "x \<in> set bytes"
    then show "of_char x \<notin> {10, 34, 92 :: nat}" using assms that by (auto simp: isPrint_def split: if_splits)
  qed
  moreover have "chunk ([backslash, d] @ hex k v)" for d k v
    using chunk_append[OF chunk_escape chunk_plain] hex_plain by blast
  ultimately show ?thesis by (auto simp: escapeRune_def chunk_escape)
qed

lemma quote_body_chunk: "chunk (quote_body ip s)"
proof (induction ip s rule: quote_body.induct)
  case (2 ip c s)
  obtain r w where dec: "decodeRune (c # s) = (r, w)" by (meson surj_pair)
  have "chunk (if w = 1 \<and> r = RuneError then [backslash, CHR ''x''] @ hex 2 (of_char c) else escapeRune ip r (take w (c # s)))"
    using decodeRune_bytes[OF dec] escapeRune_chunk[of r "take w (c # s)" c ip] chunk_append[OF chunk_escape chunk_plain] hex_plain
    by (cases "w = 1 \<and> r = RuneError") auto
  then show ?case using 2[OF dec[symmetric]] by (simp add: dec chunk_append)
qed (simp add: chunk_def)

lemma quote_contained: "scan_quoted (tl (quote ip s) @ rest) = Some (quote_body ip s, rest)"
  using quote_body_chunk[of ip s] by (simp add: quote_def chunk_def)

text \<open>
  A command is quoted twice: read as a double-quoted scalar it is the empty string, with the command's text left
  over behind it.
\<close>

lemma command_quoted_twice:
  "scan_quoted (tl (yamlCommandEscape ip s)) = Some ([], quote_body ip s @ [dquote, dquote])"
  by (simp add: yamlCommandEscape_def quote_def)

lemma yaml_lines_split: "x \<in> set xs \<Longrightarrow> \<exists>pre post. yaml_lines f xs = pre @ f x @ post"
  unfolding yaml_lines_def by (metis concat_append concat.simps(2) list.simps(9) map_append split_list)

lemma service_name_in_text:
  assumes "n \<in> fst ` set (cg_Services c)"
  shows "\<exists>pre post. ToYAML ip c = pre @ ''  '' @ n @ '':'' @ nl @ post"
proof -
  have "n \<in> set (sortStrings (map fst (cg_Services c)))" using assms by (simp add: sortStrings_is_sort)
  then obtain pre post where lines:
    "yaml_lines (service_entry ip (cg_Services c)) (sortStrings (map fst (cg_Services c)))
       = pre @ service_entry ip (cg_Services c) n @ post"
    using yaml_lines_split[of n _ "service_entry ip (cg_Services c)"] by blast
  have ne: "(cg_Services c \<noteq> []) = True" using assms by auto
  obtain a b where "ToYAML ip c = a @ (''services:'' @ nl @ yaml_lines (service_entry ip (cg_Services c)) (sortStrings (map fst (cg_Services c))) @ nl) @ b"
    unfolding ToYAML_def ne if_True by blast
  then have "ToYAML ip c = a @ (''services:'' @ nl @ (pre @ service_entry ip (cg_Services c) n @ post) @ nl) @ b"
    unfolding lines .
  then show ?thesis
    by - (rule exI[of _ "a @ ''services:'' @ nl @ pre"],
        rule exI[of _ "(case map_of (cg_Services c) n of Some svc \<Rightarrow> service_toYAML ip 4 svc | None \<Rightarrow> []) @ post @ nl @ b"],
        simp add: service_entry_def)
qed

end
