(* ===== verification/Topology_Draw.thy ===== *)
theory Topology_Draw
  imports Topology_YAML
begin

text \<open>
  The topology editor's endpoints (\<open>internal/api/handlers/topology.go\<close>): nodes and edges of a drawing are converted
  to a topology, which is compiled and rendered.

  A decoded JSON value is a \<open>jany\<close>; floating-point numbers are of a type of their own, with Go's conversion to int as
  the argument \<open>f2i\<close>.
\<close>

datatype 'f jany = JString string | JInt int | JFloat 'f | JBool bool | JObject "(string \<times> 'f jany) list" | JOther

type_synonym 'f jobj = "(string \<times> 'f jany) list"

record 'f TopologyNode =
  tn_ID :: string
  tn_Type :: string
  tn_Data :: "'f jobj"

record 'f TopologyEdge =
  te_ID :: string
  te_Source :: string
  te_Target :: string
  te_Type :: string
  te_Data :: "'f jobj"

record 'f TopologyDeployRequest =
  tr_Nodes :: "'f TopologyNode list"
  tr_Edges :: "'f TopologyEdge list"
  tr_ProjectID :: string
  tr_Environment :: string

section \<open>Conversion\<close>

definition getStringFromMap :: "'f jobj \<Rightarrow> string \<Rightarrow> string \<Rightarrow> string" where
  "getStringFromMap m key dflt = (case map_of m key of Some (JString s) \<Rightarrow> if s \<noteq> [] then s else dflt | _ \<Rightarrow> dflt)"

definition getIntFromMap :: "('f \<Rightarrow> int) \<Rightarrow> 'f jobj \<Rightarrow> string \<Rightarrow> int \<Rightarrow> int" where
  "getIntFromMap f2i m key dflt = (case map_of m key of Some (JInt n) \<Rightarrow> n | Some (JFloat x) \<Rightarrow> f2i x | _ \<Rightarrow> dflt)"

definition getBoolFromMap :: "'f jobj \<Rightarrow> string \<Rightarrow> bool \<Rightarrow> bool" where
  "getBoolFromMap m key dflt = (case map_of m key of Some (JBool b) \<Rightarrow> b | _ \<Rightarrow> dflt)"

fun string_entries :: "'f jobj \<Rightarrow> gomap" where
  "string_entries [] = []"
| "string_entries ((k, JString s) # m) = (k, s) # string_entries m"
| "string_entries (_ # m) = string_entries m"

definition getStringMapFromMap :: "'f jobj \<Rightarrow> string \<Rightarrow> gomap" where
  "getStringMapFromMap m key = (case map_of m key of Some (JObject sm) \<Rightarrow> string_entries sm | _ \<Rightarrow> [])"

definition convertToApp :: "('f \<Rightarrow> int) \<Rightarrow> 'f TopologyNode \<Rightarrow> App" where
  "convertToApp f2i node =
     (let d = tn_Data node
      in \<lparr>ap_ID = tn_ID node, ap_Name = getStringFromMap d ''name'' (tn_ID node), ap_GitURL = getStringFromMap d ''gitUrl'' [],
          ap_Branch = getStringFromMap d ''branch'' ''main'', ap_BuildPack = getStringFromMap d ''buildPack'' ''auto'',
          ap_Dockerfile = [], ap_Port = getIntFromMap f2i d ''port'' 3000, ap_Replicas = getIntFromMap f2i d ''replicas'' 1,
          ap_MemoryMB = getIntFromMap f2i d ''memoryMB'' 0, ap_CPU = getIntFromMap f2i d ''cpu'' 0,
          ap_EnvVars = getStringMapFromMap d ''envVars'', ap_VolumeMounts = [],
          ap_HealthCheckPath = getStringFromMap d ''healthCheckPath'' [], ap_HealthCheckPort = 0,
          ap_InternalOnly = getBoolFromMap d ''internalOnly'' False\<rparr>)"

definition convertToDatabase :: "('f \<Rightarrow> int) \<Rightarrow> 'f TopologyNode \<Rightarrow> Database" where
  "convertToDatabase f2i node =
     (let d = tn_Data node
      in \<lparr>db_ID = tn_ID node, db_Name = getStringFromMap d ''name'' (tn_ID node), db_Engine = getStringFromMap d ''engine'' ''postgres'',
          db_Version = getStringFromMap d ''version'' ''16'', db_SizeGB = getIntFromMap f2i d ''sizeGB'' 10,
          db_Managed = getBoolFromMap d ''managed'' False, db_External = getBoolFromMap d ''external'' False,
          db_ConnURL = getStringFromMap d ''connUrl'' [], db_Username = getStringFromMap d ''username'' [],
          db_Password = getStringFromMap d ''password'' [], db_Database = getStringFromMap d ''database'' [], db_ExtraConfig = []\<rparr>)"

definition convertToDomain :: "'f TopologyNode \<Rightarrow> Domain" where
  "convertToDomain node =
     (let d = tn_Data node
      in \<lparr>dn_ID = tn_ID node, dn_Name = getStringFromMap d ''name'' (tn_ID node), dn_FQDN = getStringFromMap d ''fqdn'' [],
          dn_SSLEnabled = getBoolFromMap d ''sslEnabled'' True, dn_SSLMODE = getStringFromMap d ''sslMode'' ''auto'',
          dn_TargetAppID = getStringFromMap d ''targetAppId'' [], dn_PathPrefix = getStringFromMap d ''pathPrefix'' []\<rparr>)"

definition convertToVolume :: "('f \<Rightarrow> int) \<Rightarrow> 'f TopologyNode \<Rightarrow> Volume" where
  "convertToVolume f2i node =
     (let d = tn_Data node
      in \<lparr>vo_ID = tn_ID node, vo_Name = getStringFromMap d ''name'' (tn_ID node), vo_SizeGB = getIntFromMap f2i d ''sizeGB'' 10,
          vo_VolumeType = getStringFromMap d ''volumeType'' ''local'', vo_MountPath = getStringFromMap d ''mountPath'' ''/data'',
          vo_Temporary = getBoolFromMap d ''temporary'' False\<rparr>)"

definition convertToWorker :: "('f \<Rightarrow> int) \<Rightarrow> 'f TopologyNode \<Rightarrow> Worker" where
  "convertToWorker f2i node =
     (let d = tn_Data node
      in \<lparr>wk_ID = tn_ID node, wk_Name = getStringFromMap d ''name'' (tn_ID node), wk_GitURL = getStringFromMap d ''gitUrl'' [],
          wk_Branch = getStringFromMap d ''branch'' ''main'', wk_BuildPack = getStringFromMap d ''buildPack'' ''auto'',
          wk_Dockerfile = [], wk_Command = getStringFromMap d ''command'' [], wk_Replicas = getIntFromMap f2i d ''replicas'' 1,
          wk_Schedule = getStringFromMap d ''schedule'' [], wk_EnvVars = getStringMapFromMap d ''envVars'', wk_VolumeMounts = []\<rparr>)"

definition convert_node :: "('f \<Rightarrow> int) \<Rightarrow> 'f TopologyNode \<Rightarrow> Topology \<Rightarrow> Topology" where
  "convert_node f2i node t =
     (if tn_Type node = ''app'' then t\<lparr>tp_Apps := tp_Apps t @ [convertToApp f2i node]\<rparr>
      else if tn_Type node = ''database'' then t\<lparr>tp_Databases := tp_Databases t @ [convertToDatabase f2i node]\<rparr>
      else if tn_Type node = ''domain'' then t\<lparr>tp_Domains := tp_Domains t @ [convertToDomain node]\<rparr>
      else if tn_Type node = ''volume'' then t\<lparr>tp_Volumes := tp_Volumes t @ [convertToVolume f2i node]\<rparr>
      else if tn_Type node = ''worker'' then t\<lparr>tp_Workers := tp_Workers t @ [convertToWorker f2i node]\<rparr>
      else t)"

fun set_target :: "string \<Rightarrow> string \<Rightarrow> Domain list \<Rightarrow> Domain list" where
  "set_target source target [] = []"
| "set_target source target (d # ds) =
     (if dn_ID d = source then d\<lparr>dn_TargetAppID := target\<rparr> # ds else d # set_target source target ds)"

definition edge_string :: "'f TopologyEdge \<Rightarrow> string \<Rightarrow> string" where
  "edge_string e key = (case map_of (te_Data e) key of Some (JString s) \<Rightarrow> s | _ \<Rightarrow> [])"

definition convert_edge :: "'f TopologyEdge \<Rightarrow> Topology \<Rightarrow> Topology" where
  "convert_edge e t =
     (let ty = (if te_Type e = ''dependency'' then ConnDependency
                else if te_Type e = ''mount'' then ConnMount
                else if te_Type e = ''route'' \<or> te_Type e = ''dns'' then ConnRoute
                else ConnNetwork);
          conn = \<lparr>cn_ID = te_ID e, cn_Type = ty, cn_SourceID = te_Source e, cn_TargetID = te_Target e,
                  cn_Config = \<lparr>cc_MountPath = edge_string e ''mountPath'', cc_EnvVarName = edge_string e ''envVarName''\<rparr>\<rparr>
      in t\<lparr>tp_Domains := (if ty = ConnRoute then set_target (te_Source e) (te_Target e) (tp_Domains t) else tp_Domains t),
           tp_Connections := tp_Connections t @ [conn]\<rparr>)"

text \<open>The second component is the error list, to which nothing is ever added.\<close>

definition convertNodesToTopology :: "('f \<Rightarrow> int) \<Rightarrow> 'f TopologyDeployRequest \<Rightarrow> Topology \<times> string list" where
  "convertNodesToTopology f2i req =
     (let t = \<lparr>tp_ProjectID = (if tr_ProjectID req = [] then ''default'' else tr_ProjectID req),
               tp_Environment = (if tr_Environment req = [] then ''production'' else tr_Environment req),
               tp_Apps = [], tp_Databases = [], tp_Domains = [], tp_Volumes = [], tp_Workers = [], tp_Connections = []\<rparr>
      in (fold convert_edge (tr_Edges req) (fold (convert_node f2i) (tr_Nodes req) t), []))"

section \<open>Path parts\<close>

text \<open>\<open>url.QueryUnescape\<close>: a plus sign is a space, a percent sign needs two hexadecimal digits.\<close>

definition unhex :: "char \<Rightarrow> nat option" where
  "unhex c =
     (let n = of_char c :: nat
      in if 48 \<le> n \<and> n \<le> 57 then Some (n - 48)
         else if 97 \<le> n \<and> n \<le> 102 then Some (n - 87)
         else if 65 \<le> n \<and> n \<le> 70 then Some (n - 55)
         else None)"

fun queryUnescape :: "string \<Rightarrow> string option" where
  "queryUnescape [] = Some []"
| "queryUnescape (c # s) =
     (if c = CHR ''%'' then
        (case s of
           a # b # t \<Rightarrow>
             (case (unhex a, unhex b) of
                (Some x, Some y) \<Rightarrow> map_option (Cons (char_of (16 * x + y))) (queryUnescape t)
              | _ \<Rightarrow> None)
         | _ \<Rightarrow> None)
      else map_option (Cons (if c = CHR ''+'' then CHR '' '' else c)) (queryUnescape s))"

definition path_char :: "char \<Rightarrow> bool" where
  "path_char c \<longleftrightarrow>
     (let n = of_char c :: nat in 97 \<le> n \<and> n \<le> 122 \<or> 65 \<le> n \<and> n \<le> 90 \<or> 48 \<le> n \<and> n \<le> 57) \<or> c = CHR ''-'' \<or> c = CHR ''_''"

fun unescape_loop :: "nat \<Rightarrow> string \<Rightarrow> string option" where
  "unescape_loop 0 s = Some s"
| "unescape_loop (Suc n) s =
     (case queryUnescape s of None \<Rightarrow> None | Some s' \<Rightarrow> if s' = s then Some s else unescape_loop n s')"

definition validateTopologyPathPart :: "string \<Rightarrow> bool" where
  "validateTopologyPathPart part \<longleftrightarrow>
     part = trimSpace part \<and> part \<noteq> [] \<and> length part \<le> 128
     \<and> (case unescape_loop 2 part of
          None \<Rightarrow> False
        | Some decoded \<Rightarrow> decoded = trimSpace decoded \<and> decoded \<noteq> [] \<and> length decoded \<le> 128 \<and> list_all path_char decoded)"

definition validateTopologyPathParts :: "string \<Rightarrow> string \<Rightarrow> bool" where
  "validateTopologyPathParts projectID environment \<longleftrightarrow>
     validateTopologyPathPart projectID \<and> validateTopologyPathPart environment"

section \<open>The endpoints\<close>

datatype topology_response =
    TopoHttpError int string
  | TopoCompileFailed topology_error
  | TopoCompiled string string string

definition topology_Compile ::
  "('f \<Rightarrow> int) \<Rightarrow> (nat \<Rightarrow> nat \<Rightarrow> nat option) \<Rightarrow> (nat \<Rightarrow> bool) \<Rightarrow> bool \<Rightarrow> 'f TopologyDeployRequest option \<Rightarrow> topology_response" where
  "topology_Compile f2i rnd ip hasClaims body =
     (if \<not> hasClaims then TopoHttpError 401 ''unauthorized''
      else
        (case body of
           None \<Rightarrow> TopoHttpError 400 ''invalid request body''
         | Some req \<Rightarrow>
             if \<not> validateTopologyPathParts (tr_ProjectID req) (tr_Environment req)
             then TopoHttpError 400 ''invalid project ID or environment''
             else if tr_Nodes req = [] then TopoHttpError 400 ''no nodes to compile''
             else
               (case topo_Compile rnd (NewCompiler (fst (convertNodesToTopology f2i req)) (tr_ProjectID req) (tr_Environment req)) of
                  (Inl e, c) \<Rightarrow> TopoCompileFailed e
                | (Inr compose, c) \<Rightarrow> TopoCompiled (ToYAML ip compose) (GenerateCaddyfile c) (GenerateEnvFile c))))"

definition topology_Validate :: "('f \<Rightarrow> int) \<Rightarrow> bool \<Rightarrow> 'f TopologyDeployRequest option \<Rightarrow> (int \<times> string) + bool \<times> string list" where
  "topology_Validate f2i hasClaims body =
     (if \<not> hasClaims then Inl (401, ''unauthorized'')
      else
        (case body of
           None \<Rightarrow> Inl (400, ''invalid request body'')
         | Some req \<Rightarrow> let errors = snd (convertNodesToTopology f2i req) in Inr (errors = [], errors)))"

section \<open>What a drawing becomes\<close>

lemma convert_nodes_apps:
  "tp_Apps (fold (convert_node f2i) nodes t) = tp_Apps t @ map (convertToApp f2i) (filter (\<lambda>n. tn_Type n = ''app'') nodes)"
  "tp_Workers (fold (convert_node f2i) nodes t) = tp_Workers t @ map (convertToWorker f2i) (filter (\<lambda>n. tn_Type n = ''worker'') nodes)"
  by (induction nodes arbitrary: t) (simp_all add: convert_node_def)

lemma convert_edges_nodes:
  "tp_Apps (fold convert_edge es t) = tp_Apps t" "tp_Workers (fold convert_edge es t) = tp_Workers t"
  "tp_Databases (fold convert_edge es t) = tp_Databases t" "tp_Volumes (fold convert_edge es t) = tp_Volumes t"
  by (induction es arbitrary: t) (simp_all add: convert_edge_def Let_def)

lemma convert_apps:
  "tp_Apps (fst (convertNodesToTopology f2i req)) = map (convertToApp f2i) (filter (\<lambda>n. tn_Type n = ''app'') (tr_Nodes req))"
  by (simp add: convertNodesToTopology_def Let_def convert_nodes_apps convert_edges_nodes)

text \<open>No edge of a drawing, a mount edge included, gives an app or a worker a volume.\<close>

lemma drawn_services_mount_nothing:
  "app \<in> set (tp_Apps (fst (convertNodesToTopology f2i req))) \<Longrightarrow> sv_Volumes (generateAppService c app) = []"
  "w \<in> set (tp_Workers (fst (convertNodesToTopology f2i req))) \<Longrightarrow> sv_Volumes (generateWorkerService c w) = []"
  by (auto simp: convertNodesToTopology_def Let_def convert_nodes_apps convert_edges_nodes convertToApp_def convertToWorker_def
      generateAppService_def generateWorkerService_def)

text \<open>The validation endpoint answers that every drawing is valid.\<close>

lemma validate_endpoint_vacuous: "topology_Validate f2i True (Some req) = Inr (True, [])"
  by (simp add: topology_Validate_def convertNodesToTopology_def Let_def)

definition drawn_topology_ok :: "('f \<Rightarrow> int) \<Rightarrow> 'f TopologyDeployRequest \<Rightarrow> bool" where
  "drawn_topology_ok f2i req \<longleftrightarrow>
     (let t = fst (convertNodesToTopology f2i req) in well_formed t \<and> list_all (supported \<circ> db_Engine) (self_hosted t))"

lemma topology_Compile_compiled:
  assumes "topology_Compile f2i rnd ip claims (Some req) = TopoCompiled y cad env"
  obtains cf c where "topo_Compile rnd (NewCompiler (fst (convertNodesToTopology f2i req)) (tr_ProjectID req) (tr_Environment req)) = (Inr cf, c)"
    "y = ToYAML ip cf"
  using assms by (auto simp: topology_Compile_def split: if_splits prod.splits sum.splits)

text \<open>
  The compile endpoint answers every authenticated request with nodes and proper path parts, and it answers
  with files exactly when the drawing is a well-formed topology with supported engines; then every service name of
  the drawing, which is not restricted to any alphabet, stands verbatim in the generated file, so that a name with line
  breaks in it writes lines of its own.
\<close>

theorem topology_endpoint_verbatim_names:
  assumes "validateTopologyPathParts (tr_ProjectID req) (tr_Environment req)" "tr_Nodes req \<noteq> []"
  shows "case topology_Compile f2i rnd ip True (Some req) of
      TopoHttpError code msg \<Rightarrow> False
    | TopoCompileFailed e \<Rightarrow> \<not> drawn_topology_ok f2i req \<and> offence (fst (convertNodesToTopology f2i req)) e
    | TopoCompiled y cad env \<Rightarrow> drawn_topology_ok f2i req
        \<and> (\<forall>node\<in>set (tr_Nodes req). tn_Type node = ''app'' \<longrightarrow>
            (\<exists>pre post. y = pre @ ''  '' @ getStringFromMap (tn_Data node) ''name'' (tn_ID node) @ '':'' @ nl @ post))"
proof -
  let ?t = "fst (convertNodesToTopology f2i req)"
  obtain r c where run: "topo_Compile rnd (NewCompiler ?t (tr_ProjectID req) (tr_Environment req)) = (r, c)" by (meson surj_pair)
  note cases = topo_Compile_cases[OF run]
  show ?thesis
  proof (cases r)
    case (Inl e)
    then show ?thesis
      using assms cases run by (auto simp: topology_Compile_def drawn_topology_ok_def Let_def list_all_iff)
  next
    case (Inr cf)
    have resp: "topology_Compile f2i rnd ip True (Some req) = TopoCompiled (ToYAML ip cf) (GenerateCaddyfile c) (GenerateEnvFile c)"
      using assms run Inr by (simp add: topology_Compile_def)
    have ok: "drawn_topology_ok f2i req" and names: "fst ` set (cg_Services cf) = service_names ?t"
      using cases Inr by (simp_all add: drawn_topology_ok_def Let_def list_all_iff)
    have "\<exists>pre post. ToYAML ip cf = pre @ ''  '' @ getStringFromMap (tn_Data node) ''name'' (tn_ID node) @ '':'' @ nl @ post"
      if "node \<in> set (tr_Nodes req)" "tn_Type node = ''app''" for node
    proof (rule service_name_in_text)
      have "ap_Name (convertToApp f2i node) \<in> ap_Name ` set (tp_Apps ?t)" using that by (auto simp: convert_apps)
      then show "getStringFromMap (tn_Data node) ''name'' (tn_ID node) \<in> fst ` set (cg_Services cf)"
        unfolding names by (simp add: service_names_def convertToApp_def Let_def)
    qed
    then show ?thesis unfolding resp topology_response.case using ok by blast
  qed
qed

definition ex_drawing :: "int TopologyDeployRequest" where
  "ex_drawing = \<lparr>tr_Nodes = [\<lparr>tn_ID = ''a1'', tn_Type = ''app'',
       tn_Data = [(''name'', JString (''web:'' @ nl @ ''    privileged: true'' @ nl @ ''  x''))]\<rparr>],
     tr_Edges = [], tr_ProjectID = ''p'', tr_Environment = ''prod''\<rparr>"

theorem topology_endpoint_verbatim_names_witness:
  "\<exists>y cad env pre post. topology_Compile id (\<lambda>_ _. None) (\<lambda>_. True) True (Some ex_drawing) = TopoCompiled y cad env
     \<and> y = pre @ ''    privileged: true'' @ nl @ post"
proof -
  let ?name = "''web:'' @ nl @ ''    privileged: true'' @ nl @ ''  x''" and ?node = "hd (tr_Nodes ex_drawing)"
  have "validateTopologyPathParts ''p'' ''prod''" by code_simp
  then have parts: "validateTopologyPathParts (tr_ProjectID ex_drawing) (tr_Environment ex_drawing)" "tr_Nodes ex_drawing \<noteq> []"
    by (simp_all add: ex_drawing_def)
  have ok: "drawn_topology_ok id ex_drawing"
    by (simp add: drawn_topology_ok_def convertNodesToTopology_def convert_node_def ex_drawing_def well_formed_def self_hosted_def
        convertToApp_def Let_def)
  note ends = topology_endpoint_verbatim_names[OF parts, of id "\<lambda>_ _. None" "\<lambda>_. True"]
  obtain y cad env where resp: "topology_Compile id (\<lambda>_ _. None) (\<lambda>_. True) True (Some ex_drawing) = TopoCompiled y cad env"
    using ends ok by (auto split: topology_response.splits)
  have node: "?node \<in> set (tr_Nodes ex_drawing)" "tn_Type ?node = ''app''"
    and name: "getStringFromMap (tn_Data ?node) ''name'' (tn_ID ?node) = ?name"
    by (simp_all add: ex_drawing_def getStringFromMap_def)
  obtain pre post where "y = pre @ ''  '' @ ?name @ '':'' @ nl @ post"
    using ends node unfolding resp topology_response.case name[symmetric] by blast
  then have "y = (pre @ ''  web:'' @ nl) @ ''    privileged: true'' @ nl @ ''  x:'' @ nl @ post" by simp
  then show ?thesis using resp by blast
qed

end
