(* ===== verification/Discovery.thy ===== *)
theory Discovery
  imports Route_Table Stack_Deploy
begin

text \<open>
  Service discovery (\<open>internal/discovery/watcher.go\<close> and \<open>health.go\<close>): the watcher reconciles the ingress routing
  table with the running containers, and the health checker keeps a verdict per backend.

  A container's label map is an association list in the order in which Go iterates it. The list of containers that the
  runtime returns and the outcomes of the network probes are arguments.

  Shown here: what one reconciliation makes of the table, and that two which overlap can remove the route of a running
  app; that a stack deployed by \<open>Stack_Deploy\<close> is routed to its container by the table of \<open>Route_Table\<close>; after which
  histories of probes a backend is healthy; that the loop of a stopped watcher takes no step.
\<close>

section \<open>Routes from labels\<close>

record ContainerInfo =
  ci_ID :: string
  ci_State :: string
  ci_Labels :: "(string \<times> string) list"

definition ShortID :: "string \<Rightarrow> int \<Rightarrow> string" where
  "ShortID i mx = (if mx \<le> 0 \<or> int (length i) \<le> mx then i else take (nat mx) i)"

definition label_get :: "(string \<times> string) list \<Rightarrow> string \<Rightarrow> string" where
  "label_get labels k = (case map_of labels k of Some v \<Rightarrow> v | None \<Rightarrow> [])"

definition rule_part :: "string \<Rightarrow> string \<Rightarrow> string" where
  "rule_part opening rule =
     (case indexOf rule opening of
        None \<Rightarrow> []
      | Some idx \<Rightarrow>
          let rest = drop (idx + length opening) rule
          in (case indexOf rest ''`)'' of None \<Rightarrow> [] | Some e \<Rightarrow> take e rest))"

definition parseRule :: "string \<Rightarrow> string \<times> string" where
  "parseRule rule = (rule_part ''Host(`'' rule, rule_part ''PathPrefix(`'' rule)"

text \<open>A loop over the labels that takes the first key with the given prefix and suffix.\<close>

definition find_label :: "string \<Rightarrow> string \<Rightarrow> (string \<times> string) list \<Rightarrow> string option" where
  "find_label pre suf labels = map_option snd (find (\<lambda>(k, v). hasSuffix k suf \<and> hasPrefix k pre) labels)"

definition ParseLabelsToRoute :: "(string \<times> string) list \<Rightarrow> string \<Rightarrow> RouteEntry option" where
  "ParseLabelsToRoute labels containerID =
     (let (host, pathPrefix) =
            (case find_label ''monster.http.routers.'' ''.rule'' labels of Some val \<Rightarrow> parseRule val | None \<Rightarrow> ([], []))
      in if host = [] then None
         else
           let port = (case find_label ''monster.http.services.'' ''.server.port'' labels of Some val \<Rightarrow> val | None \<Rightarrow> ''80'');
               middlewares = (case find_label ''monster.http.routers.'' ''.middlewares'' labels of
                                Some val \<Rightarrow> map trimSpace (splitOn (CHR '','') val) | None \<Rightarrow> []);
               lbStrategy = (case find_label [] ''.strategy'' labels of Some val \<Rightarrow> val | None \<Rightarrow> ''round-robin'')
           in Some \<lparr>re_Host = host, re_PathPrefix = (if pathPrefix = [] then ''/'' else pathPrefix), re_Priority = 100,
                    re_ServiceName = label_get labels ''monster.app.name'',
                    re_Backends = [ShortID containerID 12 @ '':'' @ port], re_LBStrategy = lbStrategy, re_Middlewares = middlewares,
                    re_TLS = False, re_StripPrefix = False, re_HealthPath = [],
                    re_AppID = label_get labels ''monster.app.id''\<rparr>)"

section \<open>Reconciliation\<close>

definition sync_container :: "route_sorter \<Rightarrow> ContainerInfo \<Rightarrow> string set \<times> RouteTable \<Rightarrow> string set \<times> RouteTable" where
  "sync_container srt c s =
     (case s of
        (activeApps, rt) \<Rightarrow>
          if ci_State c \<noteq> ''running'' then (activeApps, rt)
          else
            let appID = label_get (ci_Labels c) ''monster.app.id''
            in if appID = [] then (activeApps, rt)
               else
                 (case ParseLabelsToRoute (ci_Labels c) (ci_ID c) of
                    None \<Rightarrow> (insert appID activeApps, rt)
                  | Some route \<Rightarrow> (insert appID activeApps, rt_Upsert srt route rt)))"

definition sync_stale :: "route_sorter \<Rightarrow> string set \<Rightarrow> RouteEntry \<Rightarrow> string set \<times> RouteTable \<Rightarrow> string set \<times> RouteTable" where
  "sync_stale srt activeApps r s =
     (case s of
        (seen, rt) \<Rightarrow>
          if re_AppID r = [] \<or> re_AppID r \<in> activeApps \<or> re_AppID r \<in> seen then (seen, rt)
          else (insert (re_AppID r) seen, rt_RemoveByAppID srt (re_AppID r) rt))"

text \<open>The two passes of a reconciliation take no common lock: the loop of the watcher and the handler of deployment events
  may run their passes in any interleaving.\<close>

definition sync_first :: "route_sorter \<Rightarrow> ContainerInfo list \<Rightarrow> RouteTable \<Rightarrow> string set \<times> RouteTable" where
  "sync_first srt containers rt = fold (sync_container srt) containers ({}, rt)"

definition sync_second :: "route_sorter \<Rightarrow> string set \<Rightarrow> RouteTable \<Rightarrow> RouteTable" where
  "sync_second srt activeApps rt = snd (fold (sync_stale srt activeApps) (rt_All rt) ({}, rt))"

definition syncRoutes :: "route_sorter \<Rightarrow> ContainerInfo list option \<Rightarrow> RouteTable \<Rightarrow> RouteTable" where
  "syncRoutes srt listed rt =
     (case listed of
        None \<Rightarrow> rt
      | Some containers \<Rightarrow> (case sync_first srt containers rt of (activeApps, rt1) \<Rightarrow> sync_second srt activeApps rt1))"

section \<open>Backend health\<close>

record HealthCheck_backend =
  hl_Backend :: string
  hl_Type :: string
  hl_Path :: string
  hl_Interval :: duration
  hl_Timeout :: duration
  hl_Healthy :: bool
  hl_LastChecked :: time
  hl_LastError :: string
  hl_Failures :: nat
  hl_Threshold :: nat

type_synonym checks = "string \<rightharpoonup> HealthCheck_backend"

definition hc_Register :: "string \<Rightarrow> string \<Rightarrow> string \<Rightarrow> checks \<Rightarrow> checks" where
  "hc_Register backend checkType path cs =
     cs(backend \<mapsto> \<lparr>hl_Backend = backend, hl_Type = checkType, hl_Path = path, hl_Interval = 10000000000, hl_Timeout = 5000000000, hl_Healthy = True,
                     hl_LastChecked = 0, hl_LastError = [], hl_Failures = 0, hl_Threshold = 3\<rparr>)"

definition hc_Deregister :: "string \<Rightarrow> checks \<Rightarrow> checks" where
  "hc_Deregister backend cs = cs(backend := None)"

definition hc_IsHealthy :: "string \<Rightarrow> checks \<Rightarrow> bool" where
  "hc_IsHealthy backend cs = (case cs backend of None \<Rightarrow> True | Some check \<Rightarrow> hl_Healthy check)"

record checkResult =
  cr_backend :: string
  cr_err :: "string option"
  cr_now :: time

definition commit_check :: "checkResult \<Rightarrow> HealthCheck_backend \<Rightarrow> HealthCheck_backend" where
  "commit_check res check =
     (let check1 = check\<lparr>hl_LastChecked := cr_now res\<rparr>
      in case cr_err res of
           Some e \<Rightarrow>
             let check2 = check1\<lparr>hl_Failures := hl_Failures check1 + 1, hl_LastError := e\<rparr>
             in if hl_Failures check2 \<ge> hl_Threshold check2 \<and> hl_Healthy check2 then check2\<lparr>hl_Healthy := False\<rparr> else check2
         | None \<Rightarrow> check1\<lparr>hl_Healthy := True, hl_Failures := 0, hl_LastError := []\<rparr>)"

definition commit_result :: "checkResult \<Rightarrow> checks \<Rightarrow> checks" where
  "commit_result res cs =
     (case cs (cr_backend res) of None \<Rightarrow> cs | Some check \<Rightarrow> cs(cr_backend res \<mapsto> commit_check res check))"

text \<open>The three phases: a snapshot of the checks in map order, one probe each without the lock, and the commit, before
  which other operations may have changed the checks.\<close>

definition hc_probes :: "string list \<Rightarrow> checks \<Rightarrow> HealthCheck_backend list" where
  "hc_probes order cs = List.map_filter cs order"

definition hc_probe ::
  "(string \<Rightarrow> string \<Rightarrow> duration \<Rightarrow> string option) \<Rightarrow> (string \<Rightarrow> duration \<Rightarrow> string option) \<Rightarrow> HealthCheck_backend \<Rightarrow> string option" where
  "hc_probe probeHTTP probeTCP p =
     (if hl_Type p = ''http'' then probeHTTP (hl_Backend p) (hl_Path p) (hl_Timeout p)
      else probeTCP (hl_Backend p) (hl_Timeout p))"

definition hc_results :: "(HealthCheck_backend \<Rightarrow> string option) \<Rightarrow> (HealthCheck_backend \<Rightarrow> time) \<Rightarrow> HealthCheck_backend list \<Rightarrow> checkResult list" where
  "hc_results probe now ps = map (\<lambda>p. \<lparr>cr_backend = hl_Backend p, cr_err = probe p, cr_now = now p\<rparr>) ps"

definition hc_commit :: "checkResult list \<Rightarrow> checks \<Rightarrow> checks" where
  "hc_commit results cs = fold commit_result results cs"

section \<open>The watcher's life\<close>

record Watcher =
  wa_started :: bool
  wa_stopped :: bool
  wa_wg :: nat
  wa_table :: RouteTable

definition NewWatcher :: "RouteTable \<Rightarrow> Watcher" where
  "NewWatcher rt = \<lparr>wa_started = False, wa_stopped = False, wa_wg = 0, wa_table = rt\<rparr>"

definition wa_Start :: "Watcher \<Rightarrow> Watcher" where
  "wa_Start w = (if wa_started w \<or> wa_stopped w then w else w\<lparr>wa_started := True, wa_wg := wa_wg w + 1\<rparr>)"

definition wa_Stop :: "Watcher \<Rightarrow> Watcher" where
  "wa_Stop w = w\<lparr>wa_stopped := True\<rparr>"

text \<open>Stop returns once the wait group is empty.\<close>

definition wa_Stop_returns :: "Watcher \<Rightarrow> bool" where
  "wa_Stop_returns w \<longleftrightarrow> wa_stopped w \<and> wa_wg w = 0"

text \<open>The handler of deployment events reconciles too, on a goroutine of the event bus.\<close>

datatype wa_actor = Loop | EventHandler | Lifecycle

inductive wa_step :: "route_sorter \<Rightarrow> wa_actor \<Rightarrow> Watcher \<Rightarrow> Watcher \<Rightarrow> bool" for srt where
  wa_start: "wa_step srt Lifecycle w (wa_Start w)"
| wa_sync: "0 < wa_wg w \<Longrightarrow> wa_step srt Loop w (w\<lparr>wa_table := syncRoutes srt listed (wa_table w)\<rparr>)"
| wa_deployed: "wa_step srt EventHandler w (w\<lparr>wa_table := syncRoutes srt listed (wa_table w)\<rparr>)"
| wa_exit: "0 < wa_wg w \<Longrightarrow> wa_step srt Loop w (w\<lparr>wa_wg := wa_wg w - 1\<rparr>)"
| wa_stop: "wa_step srt Lifecycle w (wa_Stop w)"

section \<open>What a reconciliation makes of the table\<close>

definition active_apps :: "ContainerInfo list \<Rightarrow> string set" where
  "active_apps cs = {a. a \<noteq> [] \<and> (\<exists>c\<in>set cs. ci_State c = ''running'' \<and> label_get (ci_Labels c) ''monster.app.id'' = a)}"

definition container_route :: "ContainerInfo \<Rightarrow> RouteEntry option" where
  "container_route c =
     (if ci_State c = ''running'' \<and> label_get (ci_Labels c) ''monster.app.id'' \<noteq> [] then ParseLabelsToRoute (ci_Labels c) (ci_ID c)
      else None)"

text \<open>The specification: every running container's route is written over what the table has, later containers over
  earlier ones; then the entries of apps without a running container go.\<close>

definition write_routes :: "ContainerInfo list \<Rightarrow> (route_key \<rightharpoonup> RouteEntry) \<Rightarrow> (route_key \<rightharpoonup> RouteEntry)" where
  "write_routes cs m = fold (\<lambda>c m. case container_route c of None \<Rightarrow> m | Some r \<Rightarrow> m(route_key r \<mapsto> r)) cs m"

definition keep_active :: "string set \<Rightarrow> (route_key \<rightharpoonup> RouteEntry) \<Rightarrow> (route_key \<rightharpoonup> RouteEntry)" where
  "keep_active act m k = (case m k of Some r \<Rightarrow> if re_AppID r = [] \<or> re_AppID r \<in> act then Some r else None | None \<Rightarrow> None)"

lemma keep_active_Some: "keep_active act m k = Some e \<longleftrightarrow> m k = Some e \<and> (re_AppID e = [] \<or> re_AppID e \<in> act)"
  by (auto simp: keep_active_def split: option.splits)

lemma ParseLabelsToRoute_prefix: "ParseLabelsToRoute labels i = Some r \<Longrightarrow> re_PathPrefix r \<noteq> []"
  by (auto simp: ParseLabelsToRoute_def Let_def split: option.splits prod.splits if_splits)

lemma container_route_normal: "container_route c = Some r \<Longrightarrow> normalize_entry r = r"
  by (auto simp: container_route_def dest!: ParseLabelsToRoute_prefix split: if_splits intro: normalize_entry_id)

lemma sync_containers:
  assumes "slice_sorter route_less srt" "routes_inv rt"
  shows "case fold (sync_container srt) cs (act, rt) of
    (act', rt') \<Rightarrow> act' = act \<union> active_apps cs \<and> routes_inv rt' \<and> route_map rt' = write_routes cs (route_map rt)"
  using assms(2)
proof (induction cs arbitrary: act rt)
  case Nil
  then show ?case by (simp add: active_apps_def write_routes_def)
next
  case (Cons c cs)
  define act1 where "act1 = (if ci_State c = ''running'' \<and> label_get (ci_Labels c) ''monster.app.id'' \<noteq> []
      then insert (label_get (ci_Labels c) ''monster.app.id'') act else act)"
  define rt1 where "rt1 = (case container_route c of None \<Rightarrow> rt | Some r \<Rightarrow> rt_Upsert srt r rt)"
  have step: "sync_container srt c (act, rt) = (act1, rt1)"
    by (auto simp: sync_container_def act1_def rt1_def container_route_def Let_def split: option.splits)
  have inv: "routes_inv rt1" using Cons.prems assms(1) by (auto simp: rt1_def Upsert_inv split: option.splits)
  have "route_map rt1 = (case container_route c of None \<Rightarrow> route_map rt | Some r \<Rightarrow> (route_map rt)(route_key r \<mapsto> r))"
    using Cons.prems assms(1) container_route_normal[of c] by (auto simp: rt1_def Upsert_map split: option.splits)
  then have "write_routes (c # cs) (route_map rt) = write_routes cs (route_map rt1)" by (simp add: write_routes_def)
  moreover have "act \<union> active_apps (c # cs) = act1 \<union> active_apps cs" by (auto simp: active_apps_def act1_def)
  ultimately show ?case using Cons.IH[OF inv, of act1] by (simp add: step)
qed

lemma RemoveByAppID_drops:
  assumes "slice_sorter route_less srt" "routes_inv rt"
  shows "route_map (rt_RemoveByAppID srt a rt) k = (case route_map rt k of Some r \<Rightarrow> if re_AppID r = a then None else Some r | None \<Rightarrow> None)"
  by (simp add: RemoveByAppID_map[OF assms])

lemma sync_stales:
  assumes "slice_sorter route_less srt" "routes_inv rt"
  shows "case fold (sync_stale srt act) rs (seen, rt) of
    (seen', rt') \<Rightarrow> routes_inv rt' \<and> (\<forall>k. route_map rt' k =
      (case route_map rt k of
         Some r \<Rightarrow> if re_AppID r \<in> re_AppID ` set rs - act - seen - {[]} then None else Some r | None \<Rightarrow> None))"
  using assms(2)
proof (induction rs arbitrary: seen rt)
  case Nil
  then show ?case by (auto split: option.splits)
next
  case (Cons r rs)
  show ?case
  proof (cases "re_AppID r = [] \<or> re_AppID r \<in> act \<or> re_AppID r \<in> seen")
    case True
    then have step: "sync_stale srt act r (seen, rt) = (seen, rt)" by (simp add: sync_stale_def)
    have "re_AppID ` set (r # rs) - act - seen - {[]} = re_AppID ` set rs - act - seen - {[]}" using True by auto
    then show ?thesis using Cons.IH[OF Cons.prems, of seen] by (simp only: fold_simps step comp_apply)
  next
    case False
    let ?a = "re_AppID r" and ?rt = "rt_RemoveByAppID srt (re_AppID r) rt"
    have step: "sync_stale srt act r (seen, rt) = (insert ?a seen, ?rt)" using False by (simp add: sync_stale_def)
    have inv: "routes_inv ?rt" by (rule RemoveByAppID_inv[OF assms(1) Cons.prems])
    show ?thesis
      using Cons.IH[OF inv, of "insert ?a seen"] False
      by (auto simp: step RemoveByAppID_drops[OF assms(1) Cons.prems] split: prod.splits option.splits)
  qed
qed

lemma sync_first_spec:
  assumes "slice_sorter route_less srt" "routes_inv rt"
  shows "fst (sync_first srt cs rt) = active_apps cs" "routes_inv (snd (sync_first srt cs rt))"
    "route_map (snd (sync_first srt cs rt)) = write_routes cs (route_map rt)"
  using sync_containers[OF assms, of "{}" cs] by (auto simp: sync_first_def split: prod.splits)

lemma sync_second_spec:
  assumes "slice_sorter route_less srt" "routes_inv rt"
  shows "routes_inv (sync_second srt act rt)" "route_map (sync_second srt act rt) = keep_active act (route_map rt)"
proof -
  obtain seen' rt2 where second: "fold (sync_stale srt act) (rt_All rt) ({}, rt) = (seen', rt2)" by fastforce
  then have two: "routes_inv rt2"
    "route_map rt2 k = (case route_map rt k of
       Some r \<Rightarrow> if re_AppID r \<in> re_AppID ` set (rt_All rt) - act - {} - {[]} then None else Some r | None \<Rightarrow> None)" for k
    using sync_stales[OF assms, where act = act and seen = "{}" and rs = "rt_All rt"] by (simp_all only: prod.case)
  show "routes_inv (sync_second srt act rt)" using two(1) by (simp add: sync_second_def second)
  have "route_map rt2 k = keep_active act (route_map rt) k" for k
  proof (cases "route_map rt k")
    case (Some r)
    then have "re_AppID r \<in> re_AppID ` set (rt_entries rt)" using route_map_iff[OF assms(2)] by blast
    then show ?thesis using Some by (simp add: two(2) keep_active_def rt_All_def)
  qed (simp add: two(2) keep_active_def)
  then show "route_map (sync_second srt act rt) = keep_active act (route_map rt)" by (simp add: sync_second_def second fun_eq_iff)
qed

lemma syncRoutes_spec:
  assumes "slice_sorter route_less srt" "routes_inv rt"
  shows "routes_inv (syncRoutes srt listed rt)
    \<and> route_map (syncRoutes srt listed rt) =
        (case listed of None \<Rightarrow> route_map rt | Some cs \<Rightarrow> keep_active (active_apps cs) (write_routes cs (route_map rt)))"
proof (cases listed)
  case (Some cs)
  note one = sync_first_spec[OF assms, of cs]
  show ?thesis using sync_second_spec[OF assms(1) one(2)] one by (simp add: Some syncRoutes_def case_prod_beta)
qed (use assms(2) in \<open>simp add: syncRoutes_def\<close>)

lemmas sync_inv = syncRoutes_spec[THEN conjunct1]

lemma sync_map:
  assumes "slice_sorter route_less srt" "routes_inv rt"
  shows "route_map (syncRoutes srt (Some cs) rt) = keep_active (active_apps cs) (write_routes cs (route_map rt))"
  using syncRoutes_spec[OF assms, of "Some cs"] by simp


text \<open>
  Two reconciliations that overlap can remove the route of an app that is running: when the loop lists the
  containers, the handler of a deployment event then runs a whole reconciliation on a newer list, and the loop goes on
  with its second pass, no route of an app that only the newer list has is left, whatever the table held.
\<close>

theorem overlapping_sync_drops_live_app:
  assumes "slice_sorter route_less srt" "routes_inv rt"
    and "a \<in> active_apps newer" "a \<notin> active_apps older"
    and "sync_first srt older rt = (act, rt1)"
  shows "\<forall>e\<in>set (rt_entries (sync_second srt act (syncRoutes srt (Some newer) rt1))). re_AppID e \<noteq> a"
proof -
  have one: "act = active_apps older" "routes_inv rt1" using sync_first_spec[OF assms(1,2), of older] by (simp_all add: assms(5))
  let ?rt2 = "syncRoutes srt (Some newer) rt1"
  let ?rt3 = "sync_second srt act ?rt2"
  have inv: "routes_inv ?rt2" using syncRoutes_spec[OF assms(1) one(2)] by blast
  note third = sync_second_spec[OF assms(1) inv, of act]
  have "a \<noteq> []" using assms(3) by (simp add: active_apps_def)
  moreover have "re_AppID e = [] \<or> re_AppID e \<in> active_apps older" if "e \<in> set (rt_entries ?rt3)" for e
  proof -
    have "route_map ?rt3 (route_key e) = Some e" using route_map_iff[OF third(1)] that by blast
    then show ?thesis by (simp add: third(2) keep_active_Some) (simp add: one(1))
  qed
  ultimately show ?thesis using assms(4) by blast
qed

section \<open>From a deployed stack to its route\<close>

definition route_active :: "string \<Rightarrow> HTTPRoute \<Rightarrow> bool" where
  "route_active svcName r \<longleftrightarrow> hr_ServiceName r = svcName \<and> hr_FQDN r \<noteq> [] \<and> 0 < hr_Port r"

definition rule_key :: "'v DeployOpts \<Rightarrow> string \<Rightarrow> string" where
  "rule_key opts svcName = ''monster.http.routers.'' @ labelName (do_StackName opts @ ''-'' @ svcName) @ ''.rule''"

definition port_key :: "'v DeployOpts \<Rightarrow> string \<Rightarrow> string" where
  "port_key opts svcName =
     ''monster.http.services.'' @ labelName (do_StackName opts @ ''-'' @ svcName) @ ''.loadbalancer.server.port''"

definition put_route :: "'v DeployOpts \<Rightarrow> string \<Rightarrow> HTTPRoute \<Rightarrow> (string \<times> string) list \<Rightarrow> (string \<times> string) list" where
  "put_route opts svcName r labels =
     put_env (port_key opts svcName) (itoa (hr_Port r)) (put_env (rule_key opts svcName) (''Host(`'' @ hr_FQDN r @ ''`)'') labels)"

text \<open>The entry that the deployed container is to have.\<close>

definition deployed_route :: "'v DeployOpts \<Rightarrow> HTTPRoute \<Rightarrow> string \<Rightarrow> RouteEntry" where
  "deployed_route opts r cid =
     \<lparr>re_Host = hr_FQDN r, re_PathPrefix = ''/'', re_Priority = 100, re_ServiceName = [],
      re_Backends = [ShortID cid 12 @ '':'' @ itoa (hr_Port r)], re_LBStrategy = ''round-robin'', re_Middlewares = [],
      re_TLS = False, re_StripPrefix = False, re_HealthPath = [], re_AppID = do_AppID opts\<rparr>"

lemma route_labels_fold:
  "route_labels opts svcName rs labels = fold (put_route opts svcName) (filter (route_active svcName) rs) labels"
  by (induction rs arbitrary: labels) (auto simp: Let_def route_active_def put_route_def rule_key_def port_key_def)

lemma set_put_env: "set (put_env k v e) = insert (k, v) {p \<in> set e. fst p \<noteq> k}"
  by (auto simp: put_env_def)

lemma keys_distinct: "rule_key opts svcName \<noteq> port_key opts svcName"
  by (simp add: rule_key_def port_key_def)

lemma set_put_route:
  "set (put_route opts svcName r labels) =
     {(rule_key opts svcName, ''Host(`'' @ hr_FQDN r @ ''`)''), (port_key opts svcName, itoa (hr_Port r))}
     \<union> {p \<in> set labels. fst p \<noteq> rule_key opts svcName \<and> fst p \<noteq> port_key opts svcName}"
  using keys_distinct[of opts svcName] by (auto simp: put_route_def set_put_env simp del: append_Cons)

lemma set_put_routes:
  "{p \<in> set (fold (put_route opts svcName) us labels). fst p \<noteq> rule_key opts svcName \<and> fst p \<noteq> port_key opts svcName}
   = {p \<in> set labels. fst p \<noteq> rule_key opts svcName \<and> fst p \<noteq> port_key opts svcName}"
  by (induction us arbitrary: labels) (auto simp: set_put_route)

lemma set_fold_put_env:
  "set (fold (\<lambda>(k, v). put_env k v) us e) \<subseteq> set us \<union> set e"
  "p \<in> set e \<Longrightarrow> fst p \<notin> fst ` set us \<Longrightarrow> p \<in> set (fold (\<lambda>(k, v). put_env k v) us e)"
  by (induction us arbitrary: e) (fastforce simp: set_put_env)+

definition plain_labels :: "(string \<times> string) list \<Rightarrow> bool" where
  "plain_labels ls \<longleftrightarrow> (\<forall>(k, v)\<in>set ls. \<not> hasPrefix k ''monster.'' \<and> \<not> hasSuffix k ''.strategy'')"

lemma find_label_unique:
  assumes "(k, x) \<in> set ls" "hasSuffix k suf" "hasPrefix k pre"
    and "\<forall>(k, v)\<in>set ls. hasSuffix k suf \<and> hasPrefix k pre \<longrightarrow> v = x"
  shows "find_label pre suf ls = Some x"
proof -
  let ?P = "\<lambda>(k, v). hasSuffix k suf \<and> hasPrefix k pre"
  obtain q where q: "find ?P ls = Some q" using assms(1-3) by (cases "find ?P ls") (auto simp: find_None_iff)
  then have "q \<in> set ls \<and> ?P q" by (auto dest: find_split)
  then show ?thesis using q assms(4) by (auto simp: find_label_def)
qed

lemma find_label_none:
  "(\<forall>(k, v)\<in>set ls. \<not> (hasSuffix k suf \<and> hasPrefix k pre)) \<Longrightarrow> find_label pre suf ls = None"
  by (auto simp: find_label_def find_None_iff)

subsection \<open>The rule of a host\<close>

lemma indexOf_first:
  "CHR ''`'' \<notin> set f \<Longrightarrow> indexOf (f @ ''`)'') ''`)'' = Some (length f)"
  by (induction f) (auto simp: hasPrefix_def)

lemma parseRule_host:
  assumes "CHR ''`'' \<notin> set f"
  shows "parseRule (''Host(`'' @ f @ ''`)'') = (f, [])"
proof -
  let ?rule = "''Host(`'' @ f @ ''`)''"
  have host: "rule_part ''Host(`'' ?rule = f"
  proof -
    have "indexOf ?rule ''Host(`'' = Some 0" by (simp add: hasPrefix_def)
    then show ?thesis using indexOf_first[OF assms] by (simp add: rule_part_def)
  qed
  have path: "rule_part ''PathPrefix(`'' ?rule = []"
  proof (cases "indexOf ?rule ''PathPrefix(`''")
    case (Some i)
    then obtain r where r: "drop i ?rule = ''PathPrefix('' @ CHR ''`'' # r" 
      using indexOf_take[of ?rule "''PathPrefix(`''" i] unfolding hasPrefix_iff by auto
    have "6 \<le> i"
    proof (rule ccontr)
      assume "\<not> 6 \<le> i"
      then have "i \<in> {0, 1, 2, 3, 4, 5}" by auto
      then show False using r by (auto simp: numeral_eq_Suc)
    qed
    then have j: "drop (i - 6) f @ drop (i - 6 - length f) ''`)'' = ''PathPrefix('' @ CHR ''`'' # r"
      using r by (simp only: drop_append[of i "''Host(`''"] drop_append[of _ f]) (simp add: numeral_eq_Suc)
    have "i - 6 - length f = 0"
    proof (rule ccontr)
      assume "i - 6 - length f \<noteq> 0"
      then show False using j by (cases "i - 6 - length f") (auto simp: drop_Cons split: nat.splits)
    qed
    then have eq: "drop (i - 6) f @ CHR ''`'' # '')'' = ''PathPrefix('' @ CHR ''`'' # r" using j by simp
    have nb: "CHR ''`'' \<notin> set (drop (i - 6) f)" using assms by (meson in_set_dropD)
    have "r = '')''" using eq by (subst (asm) append_Cons_eq_iff) (use nb in simp_all)
    then have "drop 12 (drop i ?rule) = '')''" by (simp only: r) simp
    moreover have len: "length ''PathPrefix(`'' = 12" by simp
    ultimately have "drop (i + length ''PathPrefix(`'') ?rule = '')''" by (simp only: len drop_drop add.commute[of i])
    then show ?thesis unfolding rule_part_def Some option.case Let_def by (simp add: hasPrefix_def)
  qed (simp add: rule_part_def)
  show ?thesis by (simp only: parseRule_def host path)
qed

subsection \<open>The labels of a service\<close>

definition own_labels :: "'v DeployOpts \<Rightarrow> string \<Rightarrow> (string \<times> string) list" where
  "own_labels opts svcName =
     [(''monster.enable'', ''true''), (''monster.app.id'', do_AppID opts), (''monster.stack'', do_StackName opts),
      (''monster.stack.service'', svcName), (''monster.tenant'', do_TenantID opts)]"

definition user_labelled :: "'v DeployOpts \<Rightarrow> string \<Rightarrow> 'v ServiceConfig \<Rightarrow> (string \<times> string) list" where
  "user_labelled opts svcName svc = fold (\<lambda>(k, v). put_env k v) (sc_Labels svc) (own_labels opts svcName)"

lemma set_service_labels:
  assumes "filter (route_active svcName) (do_HTTPRoutes opts) = us @ [r]"
  shows "set (service_labels opts svcName svc) =
    {(rule_key opts svcName, ''Host(`'' @ hr_FQDN r @ ''`)''), (port_key opts svcName, itoa (hr_Port r))}
    \<union> {p \<in> set (user_labelled opts svcName svc). fst p \<noteq> rule_key opts svcName \<and> fst p \<noteq> port_key opts svcName}"
  unfolding service_labels_def route_labels_fold assms fold_append fold_simps comp_apply id_apply set_put_route set_put_routes
    user_labelled_def own_labels_def ..

lemma user_labelled_cases:
  "(k, v) \<in> set (user_labelled opts svcName svc) \<Longrightarrow> (k, v) \<in> set (sc_Labels svc) \<or> (k, v) \<in> set (own_labels opts svcName)"
  unfolding user_labelled_def using set_fold_put_env(1)[of "sc_Labels svc" "own_labels opts svcName"] by blast

lemma own_label_kept:
  assumes "plain_labels (sc_Labels svc)" "(k, v) \<in> set (own_labels opts svcName)"
  shows "(k, v) \<in> set (user_labelled opts svcName svc)"
proof -
  have "hasPrefix k ''monster.''" using assms(2) by (auto simp: own_labels_def hasPrefix_def)
  then have "k \<notin> fst ` set (sc_Labels svc)" using assms(1) by (auto simp: plain_labels_def)
  then show ?thesis using set_fold_put_env(2)[of "(k, v)" _ "sc_Labels svc"] assms(2) by (simp add: user_labelled_def)
qed

lemma suffix_last: "hasSuffix s p \<Longrightarrow> p \<noteq> [] \<Longrightarrow> last s = last p"
  by (auto simp: hasSuffix_iff)

lemma user_labelled_plain:
  assumes "plain_labels (sc_Labels svc)" "(k, v) \<in> set (user_labelled opts svcName svc)"
  shows "\<not> hasPrefix k ''monster.http.''" "\<not> hasSuffix k ''.strategy''" "k \<noteq> ''monster.app.name''"
proof -
  have "\<not> hasPrefix k ''monster.''" if "(k, v) \<in> set (sc_Labels svc)" using that assms(1) by (auto simp: plain_labels_def)
  then have user: "\<not> hasPrefix k ''monster.http.''" "k \<noteq> ''monster.app.name''" if "(k, v) \<in> set (sc_Labels svc)"
    using that by (auto simp: hasPrefix_iff)
  have own: "\<not> hasPrefix k ''monster.http.''" "k \<noteq> ''monster.app.name''" "\<not> hasSuffix k ''.strategy''"
    if "(k, v) \<in> set (own_labels opts svcName)" using that by (auto simp: own_labels_def hasPrefix_def hasSuffix_def)
  note cases = user_labelled_cases[OF assms(2)]
  show "\<not> hasPrefix k ''monster.http.''" "k \<noteq> ''monster.app.name''" using cases user own by blast+
  show "\<not> hasSuffix k ''.strategy''" using cases own assms(1) by (auto simp: plain_labels_def)
qed

lemma rule_key_shape:
  "hasPrefix (rule_key opts svcName) ''monster.http.routers.''" "hasSuffix (rule_key opts svcName) ''.rule''"
  "\<not> hasPrefix (rule_key opts svcName) ''monster.http.services.''"
  "\<not> hasSuffix (rule_key opts svcName) ''.middlewares''" "\<not> hasSuffix (rule_key opts svcName) ''.strategy''"
  "rule_key opts svcName \<noteq> ''monster.app.id''" "rule_key opts svcName \<noteq> ''monster.app.name''"
  by (auto simp: rule_key_def hasPrefix_def hasSuffix_iff dest: arg_cong[where f = last] intro!: exI[of _ "''monster.http.routers.'' @ labelName (do_StackName opts @ ''-'' @ svcName)"])

lemma port_key_shape:
  "hasPrefix (port_key opts svcName) ''monster.http.services.''" "hasSuffix (port_key opts svcName) ''.server.port''"
  "\<not> hasPrefix (port_key opts svcName) ''monster.http.routers.''" "\<not> hasSuffix (port_key opts svcName) ''.strategy''"
  "port_key opts svcName \<noteq> ''monster.app.id''" "port_key opts svcName \<noteq> ''monster.app.name''"
  by (auto simp: port_key_def hasPrefix_def hasSuffix_iff dest: arg_cong[where f = last] intro!: exI[of _ "''monster.http.services.'' @ labelName (do_StackName opts @ ''-'' @ svcName) @ ''.loadbalancer''"])

lemma http_prefix: "hasPrefix k ''monster.http.routers.'' \<or> hasPrefix k ''monster.http.services.'' \<Longrightarrow> hasPrefix k ''monster.http.''"
  by (auto simp: hasPrefix_iff)

lemma label_get_unique: "distinct (map fst ls) \<Longrightarrow> (k, v) \<in> set ls \<Longrightarrow> label_get ls k = v"
  by (simp add: label_get_def)

lemma label_get_absent: "\<forall>v. (k, v) \<notin> set ls \<Longrightarrow> label_get ls k = []"
  by (auto simp: label_get_def split: option.splits dest: map_of_SomeD)

lemma deployed_labels_parse:
  assumes routes: "filter (route_active svcName) (do_HTTPRoutes opts) = us @ [r]"
    and plain: "plain_labels (sc_Labels svc)"
    and fqdn: "CHR ''`'' \<notin> set (hr_FQDN r)"
    and ls: "set ls = set (service_labels opts svcName svc)" "distinct (map fst ls)"
  shows "ParseLabelsToRoute ls cid = Some (deployed_route opts r cid)" "label_get ls ''monster.app.id'' = do_AppID opts"
proof -
  let ?rule = "''Host(`'' @ hr_FQDN r @ ''`)''" and ?port = "itoa (hr_Port r)"
  note shapes = rule_key_shape[of opts svcName] port_key_shape[of opts svcName]
  have entry: "k = rule_key opts svcName \<and> v = ?rule \<or> k = port_key opts svcName \<and> v = ?port
      \<or> (k, v) \<in> set (user_labelled opts svcName svc)" if "(k, v) \<in> set ls" for k v
    using that unfolding ls(1) set_service_labels[OF routes] by blast
  note plains = user_labelled_plain[OF plain, of _ _ opts svcName]
  have mem: "(rule_key opts svcName, ?rule) \<in> set ls" "(port_key opts svcName, ?port) \<in> set ls"
    unfolding ls(1) set_service_labels[OF routes] by blast+
  have rule: "find_label ''monster.http.routers.'' ''.rule'' ls = Some ?rule"
    by (rule find_label_unique[OF mem(1) shapes(2) shapes(1)]) (use entry plains http_prefix shapes in blast)
  have port: "find_label ''monster.http.services.'' ''.server.port'' ls = Some ?port"
    by (rule find_label_unique[OF mem(2) shapes(9) shapes(8)]) (use entry plains http_prefix shapes in blast)
  have mw: "find_label ''monster.http.routers.'' ''.middlewares'' ls = None"
    by (rule find_label_none) (use entry plains http_prefix shapes in blast)
  have lb: "find_label [] ''.strategy'' ls = None"
    by (rule find_label_none) (use entry plains shapes in blast)
  have "(''monster.app.id'', do_AppID opts) \<in> set (user_labelled opts svcName svc)"
    by (rule own_label_kept[OF plain]) (simp add: own_labels_def)
  then have "(''monster.app.id'', do_AppID opts) \<in> set ls"
    unfolding ls(1) set_service_labels[OF routes] using shapes by auto
  then show app: "label_get ls ''monster.app.id'' = do_AppID opts" using label_get_unique[OF ls(2)] by blast
  have name: "label_get ls ''monster.app.name'' = []"
    by (rule label_get_absent) (metis entry plains(3) shapes(7) shapes(13))
  have "r \<in> set (filter (route_active svcName) (do_HTTPRoutes opts))" unfolding routes by simp
  then have "hr_FQDN r \<noteq> []" by (simp add: route_active_def)
  then show "ParseLabelsToRoute ls cid = Some (deployed_route opts r cid)"
    unfolding ParseLabelsToRoute_def rule port mw lb option.case parseRule_host[OF fqdn] prod.case Let_def name app deployed_route_def
    by simp
qed

subsection \<open>The composition\<close>

lemma write_routes_last:
  assumes "container_route c = Some e" "\<forall>d\<in>set post. \<forall>e'. container_route d = Some e' \<longrightarrow> route_key e' \<noteq> route_key e"
  shows "write_routes (pre @ c # post) m (route_key e) = Some e"
proof -
  have "write_routes ds m' (route_key e) = m' (route_key e)"
    if "\<forall>d\<in>set ds. \<forall>e'. container_route d = Some e' \<longrightarrow> route_key e' \<noteq> route_key e" for ds m'
    using that by (induction ds arbitrary: m') (auto simp: write_routes_def split: option.splits)
  from this[OF assms(2)] show ?thesis by (simp add: write_routes_def assms(1))
qed


definition ex_routed_opts :: "string DeployOpts" where
  "ex_routed_opts = ex_stack_opts\<lparr>do_HTTPRoutes :=
     [\<lparr>hr_ServiceName = ''web'', hr_FQDN = ''a.io'', hr_Port = 80\<rparr>, \<lparr>hr_ServiceName = ''web'', hr_FQDN = ''b.io'', hr_Port = 81\<rparr>]\<rparr>"

definition ex_service :: "string ServiceConfig" where
  "ex_service = \<lparr>sc_Image = ''nginx'', sc_Build = False, sc_Environment = AnyList [], sc_DependsOn = AnyList [],
     sc_Labels = [(''team'', ''blue'')], sc_Restart = [], sc_Limits = None, sc_ResolvedEnv = []\<rparr>"

definition ex_container :: ContainerInfo where
  "ex_container = \<lparr>ci_ID = ''c0ffee'', ci_State = ''running'',
     ci_Labels = rev (co_Labels (service_opts (\<lambda>_. 0) (\<lambda>_. 0) ex_routed_opts ''web'' ex_service ''net''))\<rparr>"

lemma ex_container_labels:
  "ci_Labels ex_container =
    [(''monster.http.services.s-web.loadbalancer.server.port'', ''81''), (''monster.http.routers.s-web.rule'', ''Host(`b.io`)''),
     (''team'', ''blue''), (''monster.tenant'', ''t1''), (''monster.stack.service'', ''web''), (''monster.stack'', ''s''),
     (''monster.app.id'', ''app1''), (''monster.enable'', ''true'')]"
  by code_simp

lemma ex_container_routed: "map rt_entries [syncRoutes (insertionSort route_less) (Some [ex_container]) NewRouteTable]
    = [[deployed_route ex_routed_opts \<lparr>hr_ServiceName = ''web'', hr_FQDN = ''b.io'', hr_Port = 81\<rparr> ''c0ffee'']]"
  by code_simp



section \<open>Histories of probes\<close>

datatype health_op = OpRegister string string string | OpDeregister string | OpResult checkResult

fun health_step :: "health_op \<Rightarrow> checks \<Rightarrow> checks" where
  "health_step (OpRegister b t p) cs = hc_Register b t p cs"
| "health_step (OpDeregister b) cs = hc_Deregister b cs"
| "health_step (OpResult res) cs = commit_result res cs"

definition health_run :: "health_op list \<Rightarrow> checks" where
  "health_run ops = fold health_step ops Map.empty"

text \<open>The specification: the failures of a backend since its registration or its last good probe.\<close>

fun streak_step :: "string \<Rightarrow> health_op \<Rightarrow> nat option \<Rightarrow> nat option" where
  "streak_step b (OpRegister b' t p) st = (if b' = b then Some 0 else st)"
| "streak_step b (OpDeregister b') st = (if b' = b then None else st)"
| "streak_step b (OpResult res) st =
     (if cr_backend res = b then map_option (\<lambda>n. if cr_err res = None then 0 else n + 1) st else st)"

definition streak :: "string \<Rightarrow> health_op list \<Rightarrow> nat option" where
  "streak b ops = fold (streak_step b) ops None"

definition check_ok :: "HealthCheck_backend \<Rightarrow> bool" where
  "check_ok check \<longleftrightarrow> hl_Threshold check = 3 \<and> (hl_Healthy check \<longleftrightarrow> hl_Failures check < 3)"

lemma commit_check_ok: "check_ok check \<Longrightarrow> check_ok (commit_check res check)"
  by (auto simp: check_ok_def commit_check_def Let_def split: option.splits)

lemma commit_check_failures:
  "hl_Failures (commit_check res check) = (if cr_err res = None then 0 else hl_Failures check + 1)"
  by (auto simp: commit_check_def Let_def split: option.splits)

lemma health_simulation:
  assumes "\<forall>b check. cs b = Some check \<longrightarrow> check_ok check" "map_option hl_Failures (cs b) = st"
  shows "(\<forall>b check. health_step op cs b = Some check \<longrightarrow> check_ok check)
    \<and> map_option hl_Failures (health_step op cs b) = streak_step b op st"
proof (cases op)
  case (OpResult res)
  then show ?thesis
    using assms commit_check_ok[of _ res]
    by (auto simp: commit_result_def commit_check_failures split: option.splits)
qed (use assms in \<open>auto simp: hc_Register_def hc_Deregister_def check_ok_def\<close>)

lemma health_run_streak:
  "(\<forall>b check. health_run ops b = Some check \<longrightarrow> check_ok check) \<and> map_option hl_Failures (health_run ops b) = streak b ops"
proof (induction ops rule: rev_induct)
  case (snoc op ops)
  then show ?case using health_simulation[of "health_run ops" b "streak b ops" op] by (simp add: health_run_def streak_def)
qed (simp add: health_run_def streak_def)

text \<open>
  C27. Over every history of registrations, removals and committed probe results, in any interleaving, a backend is
  reported unhealthy exactly when it is registered and its last three or more results since then all failed; one good
  result makes it healthy at once, and an unknown backend is healthy.
\<close>

theorem backend_health_exact:
  "hc_IsHealthy b (health_run ops) \<longleftrightarrow> (case streak b ops of None \<Rightarrow> True | Some n \<Rightarrow> n < 3)"
proof -
  have "map_option hl_Failures (health_run ops b) = streak b ops" using health_run_streak by blast
  moreover have "check_ok check" if "health_run ops b = Some check" for check using health_run_streak that by blast
  ultimately show ?thesis by (auto simp: hc_IsHealthy_def check_ok_def split: option.splits)
qed

text \<open>A sweep commits one result for each backend that was registered at its snapshot.\<close>

lemma sweep_results:
  assumes "distinct order" "set order = dom cs" "\<forall>b check. cs b = Some check \<longrightarrow> hl_Backend check = b"
  shows "map cr_backend (hc_results probe now (hc_probes order cs)) = order"
proof -
  have "map (\<lambda>p. hl_Backend p) (hc_probes order cs) = order" if "set order \<subseteq> dom cs" for order
    using that assms(3) by (induction order) (auto simp: hc_probes_def List.map_filter_def)
  then show ?thesis using assms(2) by (simp add: hc_results_def comp_def)
qed

section \<open>A stopped watcher\<close>

inductive wa_reach :: "route_sorter \<Rightarrow> Watcher \<Rightarrow> Watcher \<Rightarrow> bool" for srt where
  wa_refl: "wa_reach srt w w"
| wa_trans: "wa_reach srt w w' \<Longrightarrow> wa_step srt who w' w'' \<Longrightarrow> wa_reach srt w w''"

lemma stopped_stays:
  assumes "wa_reach srt w w'" "wa_Stop_returns w"
  shows "wa_Stop_returns w'"
  using assms by induction (auto simp: wa_Stop_returns_def wa_Start_def wa_Stop_def elim: wa_step.cases)

lemma single_loop:
  "wa_reach srt (NewWatcher rt) w \<Longrightarrow> wa_wg w \<le> 1 \<and> (wa_wg w = 1 \<longrightarrow> wa_started w)"
  by (induction "NewWatcher rt" w rule: wa_reach.induct)
    (auto simp: NewWatcher_def wa_Start_def wa_Stop_def elim!: wa_step.cases split: if_splits)

lemma watcher_table_inv:
  assumes "slice_sorter route_less srt" "wa_reach srt (NewWatcher rt) w" "routes_inv rt"
  shows "routes_inv (wa_table w)"
  using assms(2,3)
  by (induction "NewWatcher rt" w rule: wa_reach.induct)
    (auto simp: NewWatcher_def wa_Start_def wa_Stop_def sync_inv[OF assms(1)] elim!: wa_step.cases split: if_splits)

text \<open>
  Whatever the interleaving of Start, Stop, the sync loop, its exit and the handler of deployment events, at most one
  loop runs and the routing table keeps its invariant; once Stop has returned the loop never takes a step again, not
  even after a later Start, and only the handler of deployment events still changes the table.
\<close>

theorem watcher_stop_final:
  assumes "slice_sorter route_less srt" "routes_inv rt" "wa_reach srt (NewWatcher rt) w"
  shows "wa_wg w \<le> 1 \<and> routes_inv (wa_table w)
    \<and> (wa_Stop_returns w \<longrightarrow> (\<forall>w' w'' who. wa_reach srt w w' \<longrightarrow> wa_step srt who w' w'' \<longrightarrow>
         who \<noteq> Loop \<and> (who \<noteq> EventHandler \<longrightarrow> wa_table w'' = wa_table w')))"
proof -
  have "who \<noteq> Loop \<and> (who \<noteq> EventHandler \<longrightarrow> wa_table w'' = wa_table w')"
    if "wa_Stop_returns w" "wa_reach srt w w'" "wa_step srt who w' w''" for w' w'' who
    using stopped_stays[OF that(2,1)] that(3)
    by (auto simp: wa_Stop_returns_def wa_Start_def wa_Stop_def elim: wa_step.cases)
  then show ?thesis using single_loop[OF assms(3)] watcher_table_inv[OF assms(1,3,2)] by blast
qed

theorem watcher_stop_final_witness:
  "\<exists>w. wa_reach (insertionSort route_less) (NewWatcher NewRouteTable) w \<and> wa_Stop_returns w \<and> wa_started w
     \<and> rt_entries (wa_table w) \<noteq> [] \<and> wa_wg w \<le> 1 \<and> \<not> wa_step (insertionSort route_less) Loop w w"
proof -
  let ?srt = "insertionSort route_less"
  let ?a = "wa_Start (NewWatcher NewRouteTable)"
  let ?b = "?a\<lparr>wa_table := syncRoutes ?srt (Some [ex_container]) (wa_table ?a)\<rparr>"
  let ?c = "wa_Stop ?b"
  let ?d = "?c\<lparr>wa_wg := wa_wg ?c - 1\<rparr>"
  have wg: "0 < wa_wg ?a" "0 < wa_wg ?c" by (simp_all add: wa_Start_def NewWatcher_def wa_Stop_def)
  have reach: "wa_reach ?srt (NewWatcher NewRouteTable) ?d"
    by (rule wa_trans[OF wa_trans[OF wa_trans[OF wa_trans[OF wa_refl wa_start] wa_sync[OF wg(1)]] wa_stop] wa_exit[OF wg(2)]])
  have state: "wa_table ?d = syncRoutes ?srt (Some [ex_container]) NewRouteTable" "wa_Stop_returns ?d" "wa_started ?d"
    by (simp_all add: wa_Start_def NewWatcher_def wa_Stop_def wa_Stop_returns_def)
  have "rt_entries (wa_table ?d) \<noteq> []" unfolding state(1) using ex_container_routed by auto
  then show ?thesis
    using reach state(2,3) watcher_stop_final[OF short_sort.slice_sorter_axioms NewRouteTable_inv reach] wa_refl by blast
qed

theorem overlapping_sync_drops_live_app_witness:
  "rt_entries (syncRoutes (insertionSort route_less) (Some [ex_container]) NewRouteTable) \<noteq> []
   \<and> ''app1'' \<notin> re_AppID ` set (rt_entries (sync_second (insertionSort route_less) {}
        (syncRoutes (insertionSort route_less) (Some [ex_container]) NewRouteTable)))"
proof -
  let ?srt = "insertionSort route_less"
  have hyps: "sync_first ?srt [] NewRouteTable = ({}, NewRouteTable)" "''app1'' \<notin> active_apps []"
    by (simp_all add: sync_first_def active_apps_def)
  have "label_get (ci_Labels ex_container) ''monster.app.id'' = ''app1''" by (simp add: ex_container_labels label_get_def)
  then have "''app1'' \<in> active_apps [ex_container]" by (simp add: active_apps_def) (simp add: ex_container_def)
  from overlapping_sync_drops_live_app[OF short_sort.slice_sorter_axioms NewRouteTable_inv this hyps(2,1)]
  show ?thesis using ex_container_routed by auto
qed

end
