(* ===== verification/Vault.thy ===== *)
theory Vault
  imports Prelude
begin

text \<open>
  The vault that encrypts secrets at rest, \<open>internal/secrets/vault.go\<close>, with the standard base64 encoding of Go's library.

  Byte slices are strings of bytes. AES-GCM, which the library provides, is the argument \<open>ae\<close>: sealing and opening
  under a key and a nonce. The key derivation of package argon2 with the parameters of the code is the argument
  \<open>kdf\<close>, and \<open>sha\<close> is SHA-256. Random reads are arguments; nothing is read when the source fails.

  Shown here: decoding inverts encoding, and a vault decrypts what it has encrypted.
\<close>

section \<open>Base64\<close>

text \<open>The alphabet: capital letters, small letters, digits, plus and slash.\<close>

definition b64char :: "nat \<Rightarrow> char" where
  "b64char n =
     (if n < 26 then char_of (n + 65) else if n < 52 then char_of (n - 26 + 97) else if n < 62 then char_of (n - 52 + 48)
      else if n = 62 then CHR ''+'' else CHR ''/'')"

definition b64val :: "char \<Rightarrow> nat option" where
  "b64val c =
     (let n = of_char c :: nat
      in if 65 \<le> n \<and> n \<le> 90 then Some (n - 65)
         else if 97 \<le> n \<and> n \<le> 122 then Some (n - 97 + 26)
         else if 48 \<le> n \<and> n \<le> 57 then Some (n - 48 + 52)
         else if c = CHR ''+'' then Some 62
         else if c = CHR ''/'' then Some 63
         else None)"

fun b64_encode :: "string \<Rightarrow> string" where
  "b64_encode [] = []"
| "b64_encode [a] =
     (let x = of_char a :: nat in [b64char (x div 4), b64char (x mod 4 * 16), CHR ''='', CHR ''=''])"
| "b64_encode [a, b] =
     (let x = of_char a :: nat; y = of_char b :: nat
      in [b64char (x div 4), b64char (x mod 4 * 16 + y div 16), b64char (y mod 16 * 4), CHR ''=''])"
| "b64_encode (a # b # c # s) =
     (let x = of_char a :: nat; y = of_char b :: nat; z = of_char c :: nat
      in b64char (x div 4) # b64char (x mod 4 * 16 + y div 16) # b64char (y mod 16 * 4 + z div 64) # b64char (z mod 64)
         # b64_encode s)"

text \<open>One quantum of four characters; padding is allowed in the last one only.\<close>

definition b64_quantum :: "bool \<Rightarrow> char \<Rightarrow> char \<Rightarrow> char \<Rightarrow> char \<Rightarrow> string option" where
  "b64_quantum lastq a b c d =
     (case (b64val a, b64val b) of
        (Some w, Some x) \<Rightarrow>
          if lastq \<and> d = CHR ''='' \<and> c = CHR ''='' then Some [char_of (w * 4 + x div 16)]
          else (case b64val c of
                  None \<Rightarrow> None
                | Some y \<Rightarrow>
                    if lastq \<and> d = CHR ''='' then Some [char_of (w * 4 + x div 16), char_of (x mod 16 * 16 + y div 4)]
                    else (case b64val d of
                            None \<Rightarrow> None
                          | Some z \<Rightarrow>
                              Some [char_of (w * 4 + x div 16), char_of (x mod 16 * 16 + y div 4), char_of (y mod 4 * 64 + z)]))
      | _ \<Rightarrow> None)"

fun b64_quanta :: "string \<Rightarrow> string option" where
  "b64_quanta [] = Some []"
| "b64_quanta (a # b # c # d # s) =
     (case b64_quantum (s = []) a b c d of
        None \<Rightarrow> None
      | Some bs \<Rightarrow> (case b64_quanta s of None \<Rightarrow> None | Some r \<Rightarrow> Some (bs @ r)))"
| "b64_quanta _ = None"

definition b64_decode :: "string \<Rightarrow> string option" where
  "b64_decode s = b64_quanta (filter (\<lambda>c. of_char c \<noteq> (10 :: nat) \<and> of_char c \<noteq> (13 :: nat)) s)"

subsection \<open>Decoding inverts encoding\<close>

lemma byte_of [simp]: "n < 256 \<Longrightarrow> (of_char (char_of n :: char) :: nat) = n"
  by simp

lemma b64char_code:
  "n < 64 \<Longrightarrow> (of_char (b64char n) :: nat) =
     (if n < 26 then n + 65 else if n < 52 then n + 71 else if n < 62 then n - 4 else if n = 62 then 43 else 47)"
  by (auto simp: b64char_def)

lemma b64val_char: "n < 64 \<Longrightarrow> b64val (b64char n) = Some n"
  unfolding b64val_def Let_def b64char_code by (auto simp: b64char_def)

lemma b64char_plain:
  assumes "n < 64"
  shows "b64char n \<noteq> CHR ''='' \<and> of_char (b64char n) \<noteq> (10 :: nat) \<and> of_char (b64char n) \<noteq> (13 :: nat)"
proof -
  have "b64val CHR ''='' = None" by code_simp
  then show ?thesis using b64val_char[OF assms] b64char_code[OF assms] assms by auto
qed

lemma pack: "(b :: nat) < m \<Longrightarrow> (a * m + b) div m = a" "(b :: nat) < m \<Longrightarrow> (a * m + b) mod m = b"
  by simp_all

lemma sextets:
  assumes "(x :: nat) < 256" "(y :: nat) < 256" "(z :: nat) < 256"
  shows "x div 4 < 64" "x mod 4 * 16 + y div 16 < 64" "y mod 16 * 4 + z div 64 < 64" "z mod 64 < 64" "x mod 4 * 16 < 64" "y mod 16 * 4 < 64"
    "x div 4 * 4 + (x mod 4 * 16 + y div 16) div 16 = x" "x div 4 * 4 + (x mod 4 * 16) div 16 = x"
    "(x mod 4 * 16 + y div 16) mod 16 * 16 + (y mod 16 * 4 + z div 64) div 4 = y"
    "(x mod 4 * 16 + y div 16) mod 16 * 16 + (y mod 16 * 4) div 4 = y"
    "(y mod 16 * 4 + z div 64) mod 4 * 64 + z mod 64 = z"
proof -
  have y: "y div 16 < 16" and z: "z div 64 < 4" using assms by auto
  show "x div 4 < 64" "z mod 64 < 64" using assms by auto
  have "x mod 4 < 4" "y mod 16 < 16" by simp_all
  then show "x mod 4 * 16 + y div 16 < 64" "y mod 16 * 4 + z div 64 < 64" "x mod 4 * 16 < 64" "y mod 16 * 4 < 64" using y z by linarith+
  show "x div 4 * 4 + (x mod 4 * 16 + y div 16) div 16 = x" "x div 4 * 4 + (x mod 4 * 16) div 16 = x" by (simp_all only: pack[OF y]) simp_all
  show "(x mod 4 * 16 + y div 16) mod 16 * 16 + (y mod 16 * 4 + z div 64) div 4 = y"
    "(x mod 4 * 16 + y div 16) mod 16 * 16 + (y mod 16 * 4) div 4 = y"
    "(y mod 16 * 4 + z div 64) mod 4 * 64 + z mod 64 = z"
    by (simp_all only: pack[OF y] pack[OF z]) simp_all
qed

lemmas sextets_of = sextets[OF nat_of_char_less_256 nat_of_char_less_256 nat_of_char_less_256]

lemma b64_encode_plain: "c \<in> set (b64_encode s) \<Longrightarrow> of_char c \<noteq> (10 :: nat) \<and> of_char c \<noteq> (13 :: nat)"
  by (induction s rule: b64_encode.induct)
    (auto simp: Let_def b64char_plain sextets_of)

lemma high_bits: "(of_char c :: nat) div 16 < 16" "(of_char c :: nat) div 64 < 4"
  using nat_of_char_less_256[of c] by linarith+

lemma b64_quanta_encode: "b64_quanta (b64_encode s) = Some s"
  by (induction s rule: b64_encode.induct) (simp_all add: Let_def b64_quantum_def b64val_char b64char_plain sextets_of high_bits)

lemma b64_roundtrip: "b64_decode (b64_encode s) = Some s"
proof -
  have "filter (\<lambda>c. of_char c \<noteq> (10 :: nat) \<and> of_char c \<noteq> (13 :: nat)) (b64_encode s) = b64_encode s"
    using b64_encode_plain by (simp add: filter_id_conv)
  then show ?thesis by (simp add: b64_decode_def b64_quanta_encode)
qed

section \<open>Encryption\<close>

record aead =
  ae_Seal :: "string \<Rightarrow> string \<Rightarrow> string \<Rightarrow> string"
  ae_Open :: "string \<Rightarrow> string \<Rightarrow> string \<Rightarrow> string option"

definition NonceSize :: nat where
  "NonceSize = 12"

text \<open>What package cipher documents: opening returns what was sealed under the same key and nonce; under another key it
  fails, because the message is not authentic.\<close>

definition aead_opens :: "aead \<Rightarrow> bool" where
  "aead_opens ae \<longleftrightarrow> (\<forall>k n p. length n = NonceSize \<longrightarrow> ae_Open ae k n (ae_Seal ae k n p) = Some p)"

definition aead_authentic :: "aead \<Rightarrow> bool" where
  "aead_authentic ae \<longleftrightarrow> (\<forall>k k' n p. k \<noteq> k' \<longrightarrow> ae_Open ae k' n (ae_Seal ae k n p) = None)"

definition VaultSaltLen :: nat where
  "VaultSaltLen = 32"

definition LegacyVaultSalt :: "(string \<Rightarrow> string) \<Rightarrow> string" where
  "LegacyVaultSalt sha = take 16 (sha ''deploymonster-vault-salt-v1'')"

record Vault =
  va_key :: string

definition NewVaultWithSalt :: "(string \<Rightarrow> string) \<Rightarrow> (string \<Rightarrow> string \<Rightarrow> string) \<Rightarrow> string \<Rightarrow> string \<Rightarrow> Vault" where
  "NewVaultWithSalt sha kdf masterSecret salt =
     \<lparr>va_key = kdf masterSecret (if salt = [] then LegacyVaultSalt sha else salt)\<rparr>"

definition newLegacyVault :: "(string \<Rightarrow> string) \<Rightarrow> (string \<Rightarrow> string \<Rightarrow> string) \<Rightarrow> string \<Rightarrow> Vault" where
  "newLegacyVault sha kdf masterSecret = NewVaultWithSalt sha kdf masterSecret (LegacyVaultSalt sha)"

datatype vault_error = BadBase64 | BadKeySize | NoRandom | TooShort | NotAuthentic

definition aes_key_ok :: "string \<Rightarrow> bool" where
  "aes_key_ok k \<longleftrightarrow> length k \<in> {16, 24, 32}"

definition va_Encrypt :: "aead \<Rightarrow> string option \<Rightarrow> Vault \<Rightarrow> string \<Rightarrow> vault_error + string" where
  "va_Encrypt ae nonce v plaintext =
     (if \<not> aes_key_ok (va_key v) then Inl BadKeySize
      else (case nonce of
              None \<Rightarrow> Inl NoRandom
            | Some n \<Rightarrow> Inr (b64_encode (n @ ae_Seal ae (va_key v) n plaintext))))"

definition va_Decrypt :: "aead \<Rightarrow> Vault \<Rightarrow> string \<Rightarrow> vault_error + string" where
  "va_Decrypt ae v encoded =
     (case b64_decode encoded of
        None \<Rightarrow> Inl BadBase64
      | Some data \<Rightarrow>
          if \<not> aes_key_ok (va_key v) then Inl BadKeySize
          else if length data < NonceSize then Inl TooShort
          else (case ae_Open ae (va_key v) (take NonceSize data) (drop NonceSize data) of
                  None \<Rightarrow> Inl NotAuthentic
                | Some plaintext \<Rightarrow> Inr plaintext))"

lemma decrypt_encrypt:
  assumes "va_Encrypt ae (Some n) v p = Inr c" "length n = NonceSize"
  shows "va_Decrypt ae v' c =
    (if \<not> aes_key_ok (va_key v') then Inl BadKeySize
     else case ae_Open ae (va_key v') n (ae_Seal ae (va_key v) n p) of None \<Rightarrow> Inl NotAuthentic | Some q \<Rightarrow> Inr q)"
  using assms by (auto simp: va_Encrypt_def va_Decrypt_def b64_roundtrip split: if_splits)

lemma decrypt_own:
  assumes "aead_opens ae" "va_Encrypt ae (Some n) v p = Inr c" "length n = NonceSize"
  shows "va_Decrypt ae v c = Inr p"
  using assms by (simp add: decrypt_encrypt aead_opens_def) (simp add: va_Encrypt_def split: if_splits)

lemma decrypt_foreign:
  assumes "aead_authentic ae" "va_Encrypt ae (Some n) v p = Inr c" "length n = NonceSize" "va_key v' \<noteq> va_key v"
  shows "\<exists>e. va_Decrypt ae v' c = Inl e"
  using assms by (simp add: decrypt_encrypt aead_authentic_def)

lemma encrypt_some: "aes_key_ok (va_key v) \<Longrightarrow> \<exists>c. va_Encrypt ae (Some n) v p = Inr c"
  by (simp add: va_Encrypt_def)

text \<open>
  A vault returns what it encrypted: with a key of a length that AES takes and a fresh nonce every plaintext is
  encrypted, the base64 text decrypts to it again, and no vault with another key decrypts it to anything.
\<close>

theorem vault_roundtrip:
  assumes "aead_opens ae" "aead_authentic ae" "aes_key_ok (va_key v)" "length n = NonceSize"
  shows "\<exists>c. va_Encrypt ae (Some n) v p = Inr c \<and> va_Decrypt ae v c = Inr p
    \<and> (\<forall>v'. va_key v' \<noteq> va_key v \<longrightarrow> (\<exists>e. va_Decrypt ae v' c = Inl e))"
proof -
  obtain c where c: "va_Encrypt ae (Some n) v p = Inr c" using encrypt_some[OF assms(3)] by blast
  show ?thesis using c decrypt_own[OF assms(1) c assms(4)] decrypt_foreign[OF assms(2) c assms(4)] by blast
qed

section \<open>An instance\<close>

text \<open>An authenticated encryption in the clear: the sealed text names its key, in which every character is marked.\<close>

definition mark_key :: "string \<Rightarrow> string" where
  "mark_key k = concat (map (\<lambda>c. [CHR ''k'', c]) k) @ ''e''"

definition ex_aead :: aead where
  "ex_aead = \<lparr>ae_Seal = (\<lambda>k n p. mark_key k @ p),
     ae_Open = (\<lambda>k n c. if hasPrefix c (mark_key k) then Some (drop (length (mark_key k)) c) else None)\<rparr>"

lemma mark_key_prefix: "hasPrefix (mark_key k @ p) (mark_key k') \<Longrightarrow> k' = k"
proof (induction k arbitrary: k')
  case Nil
  then show ?case by (cases k') (auto simp: mark_key_def hasPrefix_iff)
next
  case (Cons c k)
  then show ?case by (cases k') (auto simp: mark_key_def hasPrefix_iff)
qed

lemma ex_aead_opens: "aead_opens ex_aead"
  by (simp add: aead_opens_def ex_aead_def)

lemma ex_aead_authentic: "aead_authentic ex_aead"
  by (auto simp: aead_authentic_def ex_aead_def dest: mark_key_prefix)

theorem vault_roundtrip_witness:
  "\<exists>c. va_Encrypt ex_aead (Some (replicate 12 (CHR ''n''))) \<lparr>va_key = replicate 32 (CHR ''k'')\<rparr> ''hello'' = Inr c
     \<and> va_Decrypt ex_aead \<lparr>va_key = replicate 32 (CHR ''k'')\<rparr> c = Inr ''hello''"
proof -
  have "aes_key_ok (va_key \<lparr>va_key = replicate 32 (CHR ''k'')\<rparr>)" "length (replicate 12 (CHR ''n'')) = NonceSize"
    by (simp_all add: aes_key_ok_def NonceSize_def)
  from vault_roundtrip[OF ex_aead_opens ex_aead_authentic this] show ?thesis by blast
qed

end
