(* ===== verification/Secrets.thy ===== *)
theory Secrets
  imports Vault KV_Store "HOL-Library.List_Lexorder" "HOL-Library.Char_ord" "HOL-Library.Product_Lexorder"
begin

text \<open>
  The secret module (\<open>internal/secrets/module.go\<close>), the tables behind it (\<open>internal/db/secrets.go\<close>) and the endpoint
  that creates secrets (\<open>internal/api/handlers/secrets.go\<close>).

  What survives a restart is the world: the key-value store with the vault's salt, and the two tables of secrets. Every
  call takes as arguments whether the databases answer, the random bytes it draws and the clock.

  Shown here: what the endpoint stores. \<open>Key_Rotation\<close> is about rotation and migration, \<open>Secret_Resolution\<close> about the
  resolution of names and references.
\<close>

section \<open>Tables\<close>

record Secret =
  se_ID :: string
  se_TenantID :: string
  se_ProjectID :: string
  se_AppID :: string
  se_Name :: string
  se_Scope :: string
  se_CurrentVersion :: int

record SecretVersion =
  sv_ID :: string
  sv_SecretID :: string
  sv_Version :: int
  sv_ValueEnc :: string

record SecretDB =
  sd_secrets :: "Secret list"
  sd_versions :: "SecretVersion list"

datatype db_error = DBFailed | SecretNotFound string string | NoVersionsFound string | ScopeCheckFailed

text \<open>The table's CHECK constraint admits four scopes.\<close>

definition scope_check :: "string \<Rightarrow> bool" where
  "scope_check s \<longleftrightarrow> s \<in> {''global'', ''tenant'', ''project'', ''app''}"

definition CreateSecret :: "bool \<Rightarrow> Secret \<Rightarrow> SecretDB \<Rightarrow> SecretDB \<times> db_error option" where
  "CreateSecret io s db =
     (if \<not> io then (db, Some DBFailed)
      else if \<not> scope_check (se_Scope s) then (db, Some ScopeCheckFailed)
      else (db\<lparr>sd_secrets := sd_secrets db @ [s]\<rparr>, None))"

definition CreateSecretVersion :: "bool \<Rightarrow> SecretVersion \<Rightarrow> SecretDB \<Rightarrow> SecretDB \<times> db_error option" where
  "CreateSecretVersion io v db =
     (if \<not> io then (db, Some DBFailed) else (db\<lparr>sd_versions := sd_versions db @ [v]\<rparr>, None))"

definition DeleteSecret :: "bool \<Rightarrow> string \<Rightarrow> string \<Rightarrow> SecretDB \<Rightarrow> SecretDB \<times> db_error option" where
  "DeleteSecret io tenantID secretID db =
     (if \<not> io then (db, Some DBFailed)
      else
        let doomed = (\<lambda>s. se_ID s = secretID \<and> se_TenantID s = tenantID)
        in if \<exists>s\<in>set (sd_secrets db). doomed s
           then (db\<lparr>sd_secrets := filter (\<lambda>s. \<not> doomed s) (sd_secrets db),
                    sd_versions := filter (\<lambda>v. sv_SecretID v \<noteq> secretID) (sd_versions db)\<rparr>, None)
           else (db, Some (SecretNotFound tenantID secretID)))"

definition GetSecretByScopeAndName :: "bool \<Rightarrow> string \<Rightarrow> string \<Rightarrow> SecretDB \<Rightarrow> db_error + Secret" where
  "GetSecretByScopeAndName io scope name db =
     (if \<not> io then Inl DBFailed
      else (case find (\<lambda>s. se_Scope s = scope \<and> se_Name s = name) (sd_secrets db) of
              None \<Rightarrow> Inl (SecretNotFound scope name)
            | Some s \<Rightarrow> Inr s))"

definition ListAllSecretVersions :: "bool \<Rightarrow> SecretDB \<Rightarrow> db_error + SecretVersion list" where
  "ListAllSecretVersions io db =
     (if \<not> io then Inl DBFailed else Inr (take 10000 (sort_key (\<lambda>v. (sv_SecretID v, sv_Version v)) (sd_versions db))))"

definition UpdateSecretVersionValue :: "string \<Rightarrow> string \<Rightarrow> SecretDB \<Rightarrow> SecretDB" where
  "UpdateSecretVersionValue vid valueEnc db =
     db\<lparr>sd_versions := map (\<lambda>v. if sv_ID v = vid then v\<lparr>sv_ValueEnc := valueEnc\<rparr> else v) (sd_versions db)\<rparr>"

definition GetLatestSecretVersion :: "bool \<Rightarrow> string \<Rightarrow> SecretDB \<Rightarrow> db_error + SecretVersion" where
  "GetLatestSecretVersion io secretID db =
     (if \<not> io then Inl DBFailed
      else (case rev (sort_key sv_Version (filter (\<lambda>v. sv_SecretID v = secretID) (sd_versions db))) of
              [] \<Rightarrow> Inl (NoVersionsFound secretID)
            | v # vs \<Rightarrow> Inr v))"

section \<open>The module\<close>

record 'j vault_env =
  ve_ae :: aead
  ve_sha :: "string \<Rightarrow> string"
  ve_kdf :: "string \<Rightarrow> string \<Rightarrow> string"
  ve_enc :: "string \<Rightarrow> 'j option"
  ve_dec :: "'j \<Rightarrow> string option"

record 'j secret_world =
  sw_kv :: "'j KVStore option"
  sw_db :: "SecretDB option"

record SecretModule =
  sm_vault :: Vault
  sm_masterSecret :: string

datatype secret_error =
    NoStore | NilStorePanic | SaltFailed | SaltUndecodable | SaltTooShort | PersistFailed kv_error | ListFailed db_error
  | DecryptFailed string vault_error | EncryptFailed string vault_error | UpdateFailed string

definition newVault :: "'j vault_env \<Rightarrow> string \<Rightarrow> string \<Rightarrow> Vault" where
  "newVault env masterSecret salt = NewVaultWithSalt (ve_sha env) (ve_kdf env) masterSecret salt"

definition legacyVault :: "'j vault_env \<Rightarrow> string \<Rightarrow> Vault" where
  "legacyVault env masterSecret = newLegacyVault (ve_sha env) (ve_kdf env) masterSecret"

definition stored_salt :: "'j vault_env \<Rightarrow> bool \<Rightarrow> time \<Rightarrow> 'j KVStore \<Rightarrow> string option" where
  "stored_salt env io now kv =
     (case kv_Get (ve_dec env) io now ''vault'' ''salt'' kv of Inr stored \<Rightarrow> if stored = [] then None else Some stored | Inl e \<Rightarrow> None)"

definition persistSalt :: "'j vault_env \<Rightarrow> bool \<Rightarrow> time \<Rightarrow> string \<Rightarrow> 'j secret_world \<Rightarrow> 'j secret_world \<times> secret_error option" where
  "persistSalt env io now salt w =
     (case sw_kv w of
        None \<Rightarrow> (w, None)
      | Some kv \<Rightarrow>
          (case kv_Set (ve_enc env) io now ''vault'' ''salt'' (b64_encode salt) 0 kv of
             (kv', err) \<Rightarrow> (w\<lparr>sw_kv := Some kv'\<rparr>, map_option PersistFailed err)))"

definition resolveVaultSalt ::
  "'j vault_env \<Rightarrow> bool \<Rightarrow> bool \<Rightarrow> time \<Rightarrow> string option \<Rightarrow> 'j secret_world \<Rightarrow> 'j secret_world \<times> (secret_error + string \<times> bool)" where
  "resolveVaultSalt env kvio dbio now generated w =
     (case sw_kv w of
        None \<Rightarrow> (w, Inr (LegacyVaultSalt (ve_sha env), False))
      | Some kv \<Rightarrow>
          (case stored_salt env kvio now kv of
             Some stored \<Rightarrow>
               (case b64_decode stored of
                  None \<Rightarrow> (w, Inl SaltUndecodable)
                | Some decoded \<Rightarrow> if length decoded < 16 then (w, Inl SaltTooShort) else (w, Inr (decoded, False)))
           | None \<Rightarrow>
               let hasLegacySecrets =
                     (case sw_db w of
                        None \<Rightarrow> False
                      | Some db \<Rightarrow> (case ListAllSecretVersions dbio db of Inl e \<Rightarrow> False | Inr versions \<Rightarrow> versions \<noteq> []))
               in (case generated of
                     None \<Rightarrow> (w, Inl SaltFailed)
                   | Some newSalt \<Rightarrow>
                       if hasLegacySecrets then (w, Inr (newSalt, True))
                       else (case persistSalt env kvio now newSalt w of
                               (w', Some e) \<Rightarrow> (w', Inl e)
                             | (w', None) \<Rightarrow> (w', Inr (newSalt, False))))))"

definition sm_Init ::
  "'j vault_env \<Rightarrow> bool \<Rightarrow> bool \<Rightarrow> time \<Rightarrow> string option \<Rightarrow> string \<Rightarrow> string \<Rightarrow> 'j secret_world \<Rightarrow>
   'j secret_world \<times> (secret_error + SecretModule)" where
  "sm_Init env kvio dbio now generated secretKey encryptionKey w =
     (let secret = (if encryptionKey \<noteq> [] then encryptionKey else secretKey)
      in case resolveVaultSalt env kvio dbio now generated w of
           (w', Inl e) \<Rightarrow> (w', Inl e)
         | (w', Inr (salt, usedLegacy)) \<Rightarrow>
             (w', Inr \<lparr>sm_vault = (if usedLegacy then legacyVault env secret else newVault env secret salt), sm_masterSecret = secret\<rparr>))"

text \<open>The loop of the migration and of the rotation: decrypt with one vault, encrypt with the other, update the row.\<close>

fun reencrypt_loop ::
  "aead \<Rightarrow> Vault \<Rightarrow> Vault \<Rightarrow> (nat \<Rightarrow> string option) \<Rightarrow> (string \<Rightarrow> bool) \<Rightarrow> SecretVersion list \<Rightarrow> nat \<Rightarrow> SecretDB \<Rightarrow>
   SecretDB \<times> nat \<times> secret_error option" where
  "reencrypt_loop ae old new nonces updOK [] rotated db = (db, rotated, None)"
| "reencrypt_loop ae old new nonces updOK (v # vs) rotated db =
     (case va_Decrypt ae old (sv_ValueEnc v) of
        Inl e \<Rightarrow> (db, rotated, Some (DecryptFailed (sv_ID v) e))
      | Inr plaintext \<Rightarrow>
          (case va_Encrypt ae (nonces rotated) new plaintext of
             Inl e \<Rightarrow> (db, rotated, Some (EncryptFailed (sv_ID v) e))
           | Inr newEnc \<Rightarrow>
               if \<not> updOK (sv_ID v) then (db, rotated, Some (UpdateFailed (sv_ID v)))
               else reencrypt_loop ae old new nonces updOK vs (Suc rotated) (UpdateSecretVersionValue (sv_ID v) newEnc db)))"

definition reencrypt ::
  "'j vault_env \<Rightarrow> bool \<Rightarrow> bool \<Rightarrow> time \<Rightarrow> Vault \<Rightarrow> Vault \<Rightarrow> string \<Rightarrow> (nat \<Rightarrow> string option) \<Rightarrow> (string \<Rightarrow> bool) \<Rightarrow> SecretDB \<Rightarrow>
   'j secret_world \<Rightarrow> 'j secret_world \<times> nat \<times> secret_error option" where
  "reencrypt env kvio dbio now old new newSalt nonces updOK db w =
     (case ListAllSecretVersions dbio db of
        Inl e \<Rightarrow> (w, 0, Some (ListFailed e))
      | Inr versions \<Rightarrow>
          (case reencrypt_loop (ve_ae env) old new nonces updOK versions 0 db of
             (db', rotated, Some e) \<Rightarrow> (w\<lparr>sw_db := Some db'\<rparr>, rotated, Some e)
           | (db', rotated, None) \<Rightarrow>
               (case persistSalt env kvio now newSalt (w\<lparr>sw_db := Some db'\<rparr>) of (w', err) \<Rightarrow> (w', rotated, err))))"

definition migrateLegacyVault ::
  "'j vault_env \<Rightarrow> bool \<Rightarrow> bool \<Rightarrow> time \<Rightarrow> string option \<Rightarrow> (nat \<Rightarrow> string option) \<Rightarrow> (string \<Rightarrow> bool) \<Rightarrow> SecretModule \<Rightarrow>
   'j secret_world \<Rightarrow> SecretModule \<times> 'j secret_world \<times> secret_error option" where
  "migrateLegacyVault env kvio dbio now generated nonces updOK m w =
     (case (generated, sw_db w) of
        (None, _) \<Rightarrow> (m, w, Some SaltFailed)
      | (Some newSalt, None) \<Rightarrow> (m, w, Some NilStorePanic)
      | (Some newSalt, Some db) \<Rightarrow>
          let new = newVault env (sm_masterSecret m) newSalt
          in (case reencrypt env kvio dbio now (legacyVault env (sm_masterSecret m)) new newSalt nonces updOK db w of
                (w', rotated, Some e) \<Rightarrow> (m, w', Some e)
              | (w', rotated, None) \<Rightarrow> (m\<lparr>sm_vault := new\<rparr>, w', None)))"

definition sm_Start ::
  "'j vault_env \<Rightarrow> bool \<Rightarrow> bool \<Rightarrow> time \<Rightarrow> string option \<Rightarrow> (nat \<Rightarrow> string option) \<Rightarrow> (string \<Rightarrow> bool) \<Rightarrow> SecretModule \<Rightarrow>
   'j secret_world \<Rightarrow> SecretModule \<times> 'j secret_world \<times> secret_error option" where
  "sm_Start env kvio dbio now generated nonces updOK m w =
     (case sw_kv w of
        None \<Rightarrow> (m, w, None)
      | Some kv \<Rightarrow>
          (case stored_salt env kvio now kv of
             Some stored \<Rightarrow> (m, w, None)
           | None \<Rightarrow> migrateLegacyVault env kvio dbio now generated nonces updOK m w))"

definition RotateEncryptionKey ::
  "'j vault_env \<Rightarrow> bool \<Rightarrow> bool \<Rightarrow> time \<Rightarrow> string option \<Rightarrow> (nat \<Rightarrow> string option) \<Rightarrow> (string \<Rightarrow> bool) \<Rightarrow> string \<Rightarrow> SecretModule \<Rightarrow>
   'j secret_world \<Rightarrow> SecretModule \<times> 'j secret_world \<times> nat \<times> secret_error option" where
  "RotateEncryptionKey env kvio dbio now generated nonces updOK newMasterSecret m w =
     (case sw_db w of
        None \<Rightarrow> (m, w, 0, Some NoStore)
      | Some db \<Rightarrow>
          (case generated of
             None \<Rightarrow> (m, w, 0, Some SaltFailed)
           | Some newSalt \<Rightarrow>
               let new = newVault env newMasterSecret newSalt
               in (case reencrypt env kvio dbio now (sm_vault m) new newSalt nonces updOK db w of
                     (w', rotated, Some e) \<Rightarrow> (m, w', rotated, Some e)
                   | (w', rotated, None) \<Rightarrow> (m\<lparr>sm_vault := new, sm_masterSecret := newMasterSecret\<rparr>, w', rotated, None))))"

subsection \<open>Resolution\<close>

definition buildScopeHierarchy :: "string \<Rightarrow> string list" where
  "buildScopeHierarchy scope =
     (let scopeType = hd (splitOn (CHR ''/'') scope)
      in if scopeType = ''global'' then [''global'']
         else if scopeType \<in> {''tenant'', ''project'', ''app''} then [scope, ''global'']
         else [scope])"

datatype resolve_error = ResolveNoStore | ResolveLookup db_error | ResolveNowhere | ResolveDecrypt vault_error

text \<open>No error of the lookup wraps the not-found errors that the loop looks for, so each becomes the last error.\<close>

fun resolve_loop :: "aead \<Rightarrow> bool \<Rightarrow> Vault \<Rightarrow> SecretDB \<Rightarrow> string \<Rightarrow> db_error option \<Rightarrow> string list \<Rightarrow> resolve_error + string" where
  "resolve_loop ae io v db name lastErr [] =
     (case lastErr of Some e \<Rightarrow> Inl (ResolveLookup e) | None \<Rightarrow> Inl ResolveNowhere)"
| "resolve_loop ae io v db name lastErr (tryScope # scopes) =
     (case GetSecretByScopeAndName io tryScope name db of
        Inl e \<Rightarrow> resolve_loop ae io v db name (Some e) scopes
      | Inr secret \<Rightarrow>
          (case GetLatestSecretVersion io (se_ID secret) db of
             Inl e \<Rightarrow> resolve_loop ae io v db name (Some e) scopes
           | Inr version \<Rightarrow>
               (case va_Decrypt ae v (sv_ValueEnc version) of
                  Inl e \<Rightarrow> Inl (ResolveDecrypt e)
                | Inr value \<Rightarrow> Inr value)))"

definition sm_Resolve :: "'j vault_env \<Rightarrow> bool \<Rightarrow> SecretModule \<Rightarrow> 'j secret_world \<Rightarrow> string \<Rightarrow> string \<Rightarrow> resolve_error + string" where
  "sm_Resolve env io m w scope name =
     (case sw_db w of
        None \<Rightarrow> Inl ResolveNoStore
      | Some db \<Rightarrow> resolve_loop (ve_ae env) io (sm_vault m) db name None (buildScopeHierarchy scope))"

text \<open>One turn of the loop that expands references: the text before, the name and the text after the first one.\<close>

definition first_ref :: "string \<Rightarrow> (string \<times> string \<times> string) option" where
  "first_ref t =
     (case indexOf t ''${SECRET:'' of
        None \<Rightarrow> None
      | Some idx \<Rightarrow>
          (case indexOf (drop idx t) ''}'' of
             None \<Rightarrow> None
           | Some e \<Rightarrow> Some (take idx t, take (e - 9) (drop (idx + 9) t), drop (idx + e + 1) t)))"

text \<open>The loop need not end, so it is the least solution of its equation; None means that it runs forever.\<close>

partial_function (option) resolve_refs :: "(string \<Rightarrow> 'e + string) \<Rightarrow> string \<Rightarrow> (string \<times> 'e + string) option" where
  "resolve_refs resolve t =
     (case first_ref t of
        None \<Rightarrow> Some (Inr t)
      | Some (before, ref, after) \<Rightarrow>
          (case resolve ref of
             Inl e \<Rightarrow> Some (Inl (ref, e))
           | Inr val \<Rightarrow> resolve_refs resolve (before @ val @ after)))"

definition ResolveAll ::
  "'j vault_env \<Rightarrow> bool \<Rightarrow> SecretModule \<Rightarrow> 'j secret_world \<Rightarrow> string \<Rightarrow> string \<Rightarrow> (string \<times> resolve_error + string) option" where
  "ResolveAll env io m w scope template = resolve_refs (sm_Resolve env io m w scope) template"

section \<open>The endpoint that creates secrets\<close>

record createSecretRequest =
  cq_Name :: string
  cq_Value :: string
  cq_Scope :: string
  cq_ProjectID :: string
  cq_AppID :: string

datatype create_reply = Created string string | CreateRefused nat

text \<open>The tenants of apps and projects are looked up; a failing lookup gives none.\<close>

definition owner_check :: "(string \<Rightarrow> string option) \<Rightarrow> string \<Rightarrow> string \<Rightarrow> nat option" where
  "owner_check tenantOf tenant oid =
     (if oid = [] then None
      else (case tenantOf oid of None \<Rightarrow> Some 404 | Some t \<Rightarrow> if t \<noteq> tenant then Some 403 else None))"

definition create_check ::
  "(string \<Rightarrow> string option) \<Rightarrow> (string \<Rightarrow> string option) \<Rightarrow> string \<Rightarrow> createSecretRequest \<Rightarrow> nat option" where
  "create_check appTenant projectTenant tenant req =
     (let scope = (if cq_Scope req = [] then ''tenant'' else cq_Scope req)
      in if cq_Name req = [] \<or> cq_Value req = [] then Some 400
         else if \<not> scope_check scope then Some 400
         else if scope = ''app'' \<and> cq_AppID req = [] then Some 400
         else (case owner_check appTenant tenant (cq_AppID req) of
                 Some code \<Rightarrow> Some code
               | None \<Rightarrow>
                   if scope = ''project'' \<and> cq_ProjectID req = [] then Some 400
                   else owner_check projectTenant tenant (cq_ProjectID req)))"

definition secret_Create ::
  "aead \<Rightarrow> string option \<Rightarrow> Vault option \<Rightarrow> (string \<Rightarrow> string option) \<Rightarrow> (string \<Rightarrow> string option) \<Rightarrow> bool \<Rightarrow> bool \<Rightarrow> string \<Rightarrow> string \<Rightarrow>
   string \<Rightarrow> createSecretRequest \<Rightarrow> SecretDB \<Rightarrow> SecretDB \<times> create_reply" where
  "secret_Create ae nonce vault appTenant projectTenant io1 io2 secretID versionID tenant req db =
     (case create_check appTenant projectTenant tenant req of
        Some code \<Rightarrow> (db, CreateRefused code)
      | None \<Rightarrow>
          let scope = (if cq_Scope req = [] then ''tenant'' else cq_Scope req);
              sealed = (case vault of None \<Rightarrow> Inr (cq_Value req) | Some v \<Rightarrow> va_Encrypt ae nonce v (cq_Value req))
          in (case sealed of
                Inl e \<Rightarrow> (db, CreateRefused 500)
              | Inr encrypted \<Rightarrow>
                  (case CreateSecret io1 \<lparr>se_ID = secretID, se_TenantID = tenant, se_ProjectID = cq_ProjectID req, se_AppID = cq_AppID req,
                                     se_Name = cq_Name req, se_Scope = scope, se_CurrentVersion = 1\<rparr> db of
                     (db1, Some e) \<Rightarrow> (db1, CreateRefused 500)
                   | (db1, None) \<Rightarrow>
                       (case CreateSecretVersion io2 \<lparr>sv_ID = versionID, sv_SecretID = secretID, sv_Version = 1, sv_ValueEnc = encrypted\<rparr> db1 of
                          (db2, Some e) \<Rightarrow> (db2, CreateRefused 500)
                        | (db2, None) \<Rightarrow> (db2, Created (cq_Name req) scope)))))"

definition secret_Delete :: "bool \<Rightarrow> string \<Rightarrow> string \<Rightarrow> SecretDB \<Rightarrow> SecretDB \<times> nat" where
  "secret_Delete io tenant i db =
     (if i = [] then (db, 400)
      else (case DeleteSecret io tenant i db of
              (db', None) \<Rightarrow> (db', 204)
            | (db', Some e) \<Rightarrow> (db', case e of SecretNotFound a b \<Rightarrow> 404 | _ \<Rightarrow> 500)))"

text \<open>The router asks the secret module for its vault by a type assertion. An assertion succeeds when the method set has
  every method of the interface with the same signature; a method's result is its type's name here.\<close>

definition go_implements :: "(string \<times> string) list \<Rightarrow> (string \<times> string) list \<Rightarrow> bool" where
  "go_implements methods required \<longleftrightarrow> (\<forall>r\<in>set required. r \<in> set methods)"

definition secret_module_methods :: "(string \<times> string) list" where
  "secret_module_methods = [(''Vault'', ''*secrets.Vault'')]"

definition vaultProvider :: "(string \<times> string) list" where
  "vaultProvider = [(''Vault'', ''interface{Encrypt(string) (string, error); Decrypt(string) (string, error)}'')]"

definition router_vault :: "SecretModule option \<Rightarrow> Vault option" where
  "router_vault secretsMod =
     (case secretsMod of
        None \<Rightarrow> None
      | Some m \<Rightarrow> if go_implements secret_module_methods vaultProvider then Some (sm_vault m) else None)"

section \<open>What the endpoint stores\<close>

text \<open>
  C28. Secrets created through the API are stored in the clear: the router's type assertion asks for a method whose
  result is an interface, the module's method returns a pointer, so the handler has no vault; every request that is
  answered with success adds a version whose stored value is the submitted value itself.
\<close>

theorem created_secret_stored_in_clear:
  assumes "secret_Create ae nonce (router_vault secretsMod) appTenant projectTenant io1 io2 secretID versionID tenant req db
      = (db', Created name scope)"
  shows "sd_versions db' = sd_versions db @ [\<lparr>sv_ID = versionID, sv_SecretID = secretID, sv_Version = 1, sv_ValueEnc = cq_Value req\<rparr>]"
proof -
  have none: "router_vault secretsMod = None"
    by (simp add: router_vault_def go_implements_def secret_module_methods_def vaultProvider_def split: option.splits)
  show ?thesis
    using assms unfolding none
    by (auto simp: secret_Create_def CreateSecret_def CreateSecretVersion_def Let_def split: option.splits if_splits)
qed

theorem created_secret_stored_in_clear_witness:
  "sd_versions (fst (secret_Create \<lparr>ae_Seal = (\<lambda>k n p. p), ae_Open = (\<lambda>k n c. Some c)\<rparr> None
       (router_vault (Some \<lparr>sm_vault = \<lparr>va_key = ''k''\<rparr>, sm_masterSecret = ''s''\<rparr>)) (\<lambda>_. None) (\<lambda>_. None) True True ''s1'' ''v1'' ''t1''
       \<lparr>cq_Name = ''API_KEY'', cq_Value = ''hunter2'', cq_Scope = [], cq_ProjectID = [], cq_AppID = []\<rparr> \<lparr>sd_secrets = [], sd_versions = []\<rparr>))
   = [\<lparr>sv_ID = ''v1'', sv_SecretID = ''s1'', sv_Version = 1, sv_ValueEnc = ''hunter2''\<rparr>]"
proof -
  let ?run = "secret_Create \<lparr>ae_Seal = (\<lambda>k n p. p), ae_Open = (\<lambda>k n c. Some c)\<rparr> None
       (router_vault (Some \<lparr>sm_vault = \<lparr>va_key = ''k''\<rparr>, sm_masterSecret = ''s''\<rparr>)) (\<lambda>_. None) (\<lambda>_. None) True True ''s1'' ''v1'' ''t1''
       \<lparr>cq_Name = ''API_KEY'', cq_Value = ''hunter2'', cq_Scope = [], cq_ProjectID = [], cq_AppID = []\<rparr> \<lparr>sd_secrets = [], sd_versions = []\<rparr>"
  have "snd ?run = Created ''API_KEY'' ''tenant''" by code_simp
  then have "?run = (fst ?run, Created ''API_KEY'' ''tenant'')" by (metis prod.collapse)
  from created_secret_stored_in_clear[OF this] show ?thesis by simp
qed

text \<open>A tenant deletes only its own secrets.\<close>

lemma delete_other_tenant:
  assumes "\<forall>s\<in>set (sd_secrets db). se_ID s = i \<longrightarrow> se_TenantID s \<noteq> tenant"
  shows "fst (secret_Delete io tenant i db) = db"
  using assms by (auto simp: secret_Delete_def DeleteSecret_def Let_def split: db_error.splits)

end
