(* ===== verification/Key_Rotation.thy ===== *)
theory Key_Rotation
  imports Secrets
begin

text \<open>
  Re-encryption of the stored secrets: the rotation of the key and the migration from the legacy salt, over the
  definitions of \<open>Secrets\<close>.

  Shown here: a run that completes keeps every secret and the next boot reads them; a rotation that stops half way
  destroys what it had rotated; a migration that stops half way makes every later boot fail; versions beyond the
  limit of the listing are lost. The instance at the end satisfies what the theorems assume of the cryptography.
\<close>

section \<open>Re-encryption\<close>

text \<open>A ciphertext that the vault made of a plaintext, and the rows after those with some identifiers were rewritten.\<close>

definition sealed_by :: "aead \<Rightarrow> Vault \<Rightarrow> string \<Rightarrow> string \<Rightarrow> bool" where
  "sealed_by ae v p c \<longleftrightarrow> (\<exists>n. length n = NonceSize \<and> va_Encrypt ae (Some n) v p = Inr c)"

definition rekey :: "string set \<Rightarrow> (string \<Rightarrow> string) \<Rightarrow> SecretVersion \<Rightarrow> SecretVersion" where
  "rekey ids c u = (if sv_ID u \<in> ids then u\<lparr>sv_ValueEnc := c (sv_ID u)\<rparr> else u)"

definition listed :: "SecretDB \<Rightarrow> SecretVersion list" where
  "listed db = take 10000 (sort_key (\<lambda>v. (sv_SecretID v, sv_Version v)) (sd_versions db))"

definition nonces_ok :: "(nat \<Rightarrow> string option) \<Rightarrow> bool" where
  "nonces_ok nonces \<longleftrightarrow> (\<forall>i. case nonces i of None \<Rightarrow> True | Some n \<Rightarrow> length n = NonceSize)"

lemma nonce_length: "nonces_ok nonces \<Longrightarrow> nonces i = Some n \<Longrightarrow> length n = NonceSize"
  by (auto simp: nonces_ok_def dest: spec[of _ i])

lemma rekey_fields [simp]:
  "sv_ID (rekey ids c u) = sv_ID u" "sv_SecretID (rekey ids c u) = sv_SecretID u" "sv_Version (rekey ids c u) = sv_Version u"
  "sv_ValueEnc (rekey ids c u) = (if sv_ID u \<in> ids then c (sv_ID u) else sv_ValueEnc u)"
  by (simp_all add: rekey_def)

lemma rekey_none [simp]: "rekey {} c = id"
  by (simp add: rekey_def fun_eq_iff)

lemma sealed_opens: "aead_opens ae \<Longrightarrow> sealed_by ae v p c \<Longrightarrow> va_Decrypt ae v c = Inr p"
  by (auto simp: sealed_by_def decrypt_own)

lemma sealed_foreign: "aead_authentic ae \<Longrightarrow> sealed_by ae v p c \<Longrightarrow> va_key v' \<noteq> va_key v \<Longrightarrow> \<exists>e. va_Decrypt ae v' c = Inl e"
  unfolding sealed_by_def using decrypt_foreign by blast

lemma listed_rekey:
  "sd_versions db' = map (rekey ids c) (sd_versions db) \<Longrightarrow> listed db' = map (rekey ids c) (listed db)"
  by (simp add: listed_def sort_key_map take_map)

lemma listed_subset: "set (listed db) \<subseteq> set (sd_versions db)"
  unfolding listed_def by (metis set_sort set_take_subset)

lemma listed_all: "length (sd_versions db) \<le> 10000 \<Longrightarrow> set (listed db) = set (sd_versions db)"
  by (simp add: listed_def)

lemma length_listed: "length (listed db) = min (length (sd_versions db)) 10000"
  by (simp add: listed_def)

lemma update_rekey: "sd_versions (UpdateSecretVersionValue i e db) = map (rekey {i} (\<lambda>_. e)) (sd_versions db)"
  by (simp add: UpdateSecretVersionValue_def rekey_def)

text \<open>Every run of the loop re-encrypts a prefix of its versions, all of them exactly when it reports no error.\<close>

lemma reencrypt_prefix:
  assumes "reencrypt_loop ae old new nonces updOK vs r db = (db', r', err)"
    and "\<forall>v\<in>set vs. va_Decrypt ae old (sv_ValueEnc v) = Inr (pt (sv_ID v))" and nonces: "nonces_ok nonces"
  shows "\<exists>us ws c. vs = us @ ws \<and> r' = r + length us \<and> (err = None \<longleftrightarrow> ws = [])
    \<and> sd_secrets db' = sd_secrets db \<and> sd_versions db' = map (rekey (sv_ID ` set us) c) (sd_versions db)
    \<and> (\<forall>i\<in>sv_ID ` set us. sealed_by ae new (pt i) (c i))"
  using assms(1,2)
proof (induction vs arbitrary: r db)
  case Nil
  then show ?case by (auto intro!: exI[of _ "[]"])
next
  case (Cons v vs)
  have dec: "va_Decrypt ae old (sv_ValueEnc v) = Inr (pt (sv_ID v))" using Cons.prems(2) by simp
  have stop: ?case if "db' = db" "r' = r" "err \<noteq> None"
    using that by (intro exI[of _ "[]"] exI[of _ "v # vs"]) simp
  show ?case
  proof (cases "va_Encrypt ae (nonces r) new (pt (sv_ID v))")
    case (Inl e)
    then show ?thesis using Cons.prems(1) dec by (intro stop) auto
  next
    case (Inr e)
    show ?thesis
    proof (cases "updOK (sv_ID v)")
      case False
      then show ?thesis using Cons.prems(1) dec Inr by (intro stop) auto
    next
      case True
      let ?db = "UpdateSecretVersionValue (sv_ID v) e db"
      obtain n where n: "nonces r = Some n" using Inr by (auto simp: va_Encrypt_def split: option.splits if_splits)
      then have sealed: "sealed_by ae new (pt (sv_ID v)) e" using Inr nonce_length[OF nonces] by (auto simp: sealed_by_def)
      have "reencrypt_loop ae old new nonces updOK vs (Suc r) ?db = (db', r', err)" using Cons.prems(1) dec Inr True by simp
      from Cons.IH[OF this] Cons.prems(2) obtain us ws c where ih:
        "vs = us @ ws" "r' = Suc r + length us" "err = None \<longleftrightarrow> ws = []" "sd_secrets db' = sd_secrets ?db"
        "sd_versions db' = map (rekey (sv_ID ` set us) c) (sd_versions ?db)" "\<forall>i\<in>sv_ID ` set us. sealed_by ae new (pt i) (c i)"
        by fastforce
      let ?c = "\<lambda>i. if i \<in> sv_ID ` set us then c i else e"
      have "sd_versions db' = map (rekey (sv_ID ` set (v # us)) ?c) (sd_versions db)"
        unfolding ih(5) update_rekey by (auto simp: rekey_def)
      moreover have "\<forall>i\<in>sv_ID ` set (v # us). sealed_by ae new (pt i) (?c i)" using ih(6) sealed by auto
      moreover have "sd_secrets db' = sd_secrets db" using ih(4) by (simp add: UpdateSecretVersionValue_def)
      ultimately show ?thesis using ih(1-3) by (intro exI[of _ "v # us"] exI[of _ ws] exI[of _ ?c]) simp
    qed
  qed
qed

lemma reencrypt_progress: "reencrypt_loop ae old new nonces updOK vs r db = (db', r', err) \<Longrightarrow> r \<le> r'"
proof (induction vs arbitrary: r db)
  case (Cons v vs)
  then show ?case by (auto split: sum.splits if_splits dest!: Cons.IH)
qed simp

text \<open>When every nonce and every update succeeds and the key has a length AES takes, there is no error.\<close>

lemma reencrypt_complete:
  assumes "\<And>v. v \<in> set vs \<Longrightarrow> \<exists>p. va_Decrypt ae old (sv_ValueEnc v) = Inr p"
    and "\<And>i. nonces i \<noteq> None" "\<And>v. v \<in> set vs \<Longrightarrow> updOK (sv_ID v)" "aes_key_ok (va_key new)"
  shows "\<exists>db' r'. reencrypt_loop ae old new nonces updOK vs r db = (db', r', None)"
  using assms
proof (induction vs arbitrary: r db)
  case (Cons v vs)
  obtain p where "va_Decrypt ae old (sv_ValueEnc v) = Inr p" using Cons.prems(1) by fastforce
  moreover obtain n where "nonces r = Some n" using Cons.prems(2) by fastforce
  moreover have "updOK (sv_ID v)" using Cons.prems(3) by simp
  ultimately show ?case using Cons.IH Cons.prems by (simp add: va_Encrypt_def)
qed simp

subsection \<open>Key rotation\<close>

definition env_ok :: "'j vault_env \<Rightarrow> bool" where
  "env_ok env \<longleftrightarrow> aead_opens (ve_ae env) \<and> (\<forall>s t. length (ve_kdf env s t) = 32) \<and> codec_ok (ve_enc env) (ve_dec env)"

lemma env_ok_key: "env_ok env \<Longrightarrow> aes_key_ok (va_key (newVault env s t))"
  by (simp add: env_ok_def aes_key_ok_def newVault_def NewVaultWithSalt_def)

lemma reencrypt_world:
  assumes "reencrypt env kvio True now old new salt nonces updOK db w = (w', rotated, err)" "nonces_ok nonces"
    and "\<forall>v\<in>set (listed db). va_Decrypt (ve_ae env) old (sv_ValueEnc v) = Inr (pt (sv_ID v))"
  shows "\<exists>db' c. sw_db w' = Some db' \<and> sd_secrets db' = sd_secrets db
    \<and> sd_versions db' = map (rekey (sv_ID ` set (take rotated (listed db))) c) (sd_versions db)
    \<and> (\<forall>i\<in>sv_ID ` set (take rotated (listed db)). sealed_by (ve_ae env) new (pt i) (c i))
    \<and> rotated \<le> length (listed db) \<and> (err = None \<longrightarrow> rotated = length (listed db)) \<and> (err \<noteq> None \<longrightarrow> sw_kv w' = sw_kv w)"
proof -
  obtain db' r e where loop: "reencrypt_loop (ve_ae env) old new nonces updOK (listed db) 0 db = (db', r, e)"
    using prod_cases3 by blast
  from reencrypt_prefix[OF loop assms(3,2)] obtain us ws c where p:
    "listed db = us @ ws" "r = length us" "e = None \<longleftrightarrow> ws = []" "sd_secrets db' = sd_secrets db"
    "sd_versions db' = map (rekey (sv_ID ` set us) c) (sd_versions db)" "\<forall>i\<in>sv_ID ` set us. sealed_by (ve_ae env) new (pt i) (c i)"
    by auto
  have us: "take r (listed db) = us" by (simp add: p(1,2))
  have kv: "sw_kv w' = sw_kv w" if "err \<noteq> None" and "e = None"
    using assms(1) that loop
    by (auto simp: reencrypt_def ListAllSecretVersions_def listed_def persistSalt_def kv_Set_def split: option.splits if_splits)
  have "rotated = r \<and> sw_db w' = Some db' \<and> (err = None \<longrightarrow> e = None) \<and> (e \<noteq> None \<longrightarrow> sw_kv w' = sw_kv w)"
    using assms(1) loop
    by (auto simp: reencrypt_def ListAllSecretVersions_def listed_def persistSalt_def split: option.splits prod.splits)
  then show ?thesis using p us kv by (intro exI[of _ db'] exI[of _ c]) auto
qed

lemma b64_encode_empty: "b64_encode s = [] \<longleftrightarrow> s = []"
  by (cases s rule: b64_encode.cases) (simp_all add: Let_def)

lemma salt_persisted:
  assumes "env_ok env" "0 \<le> now" "salt \<noteq> []" "sw_kv w = Some kv"
  shows "\<exists>kv'. persistSalt env True now salt w = (w\<lparr>sw_kv := Some kv'\<rparr>, None)
    \<and> (\<forall>now'. stored_salt env True now' kv' = Some (b64_encode salt))"
proof -
  obtain j where j: "ve_enc env (b64_encode salt) = Some j" "ve_dec env j = Some (b64_encode salt)"
    using assms(1) unfolding env_ok_def codec_ok_def by blast
  have "stored_salt env True now' (kv_put ''vault'' ''salt'' j (expiry now 0) kv) = Some (b64_encode salt)" for now'
    using assms(3) by (simp add: stored_salt_def kv_Get_put[OF assms(2)] j b64_encode_empty)
  then show ?thesis
    using assms(4) j by (intro exI[of _ "kv_put ''vault'' ''salt'' j (expiry now 0) kv"]) (simp add: persistSalt_def kv_Set_def)
qed

lemma init_with_salt:
  assumes "sw_kv w = Some kv" "stored_salt env True now kv = Some (b64_encode salt)" "16 \<le> length salt"
  shows "sm_Init env True dbio now generated secretKey key w =
    (w, Inr \<lparr>sm_vault = newVault env (if key \<noteq> [] then key else secretKey) salt, sm_masterSecret = (if key \<noteq> [] then key else secretKey)\<rparr>)"
  using assms by (simp add: sm_Init_def resolveVaultSalt_def b64_roundtrip Let_def)


text \<open>
  C30. A key rotation that stops half way destroys what it had rotated: when it returns an error after some versions, the
  module and the stored salt are as before, but no vault other than the one whose salt was only in memory decrypts
  any of the rotated versions, although the comment promises that the previous ciphertexts stay intact.
\<close>

theorem interrupted_rotation_loses_secrets:
  assumes auth: "aead_authentic (ve_ae env)" and nonces: "nonces_ok nonces" and db: "sw_db w = Some db"
    and readable: "\<forall>u\<in>set (sd_versions db). va_Decrypt (ve_ae env) (sm_vault m) (sv_ValueEnc u) = Inr (pt (sv_ID u))"
    and run: "RotateEncryptionKey env kvio True now (Some salt) nonces updOK newKey m w = (m', w', rotated, Some e)"
  shows "m' = m \<and> sw_kv w' = sw_kv w
    \<and> (\<exists>db'. sw_db w' = Some db' \<and> map sv_ID (sd_versions db') = map sv_ID (sd_versions db)
         \<and> (\<forall>u\<in>set (sd_versions db'). sv_ID u \<in> sv_ID ` set (take rotated (listed db)) \<longrightarrow>
              (\<forall>v. va_key v \<noteq> va_key (newVault env newKey salt) \<longrightarrow> (\<exists>x. va_Decrypt (ve_ae env) v (sv_ValueEnc u) = Inl x))))"
proof -
  let ?new = "newVault env newKey salt"
  have m: "m' = m" and re: "reencrypt env kvio True now (sm_vault m) ?new salt nonces updOK db w = (w', rotated, Some e)"
    using run db by (auto simp: RotateEncryptionKey_def Let_def split: prod.splits option.splits)
  have dec: "\<forall>v\<in>set (listed db). va_Decrypt (ve_ae env) (sm_vault m) (sv_ValueEnc v) = Inr (pt (sv_ID v))"
    using readable listed_subset by blast
  from reencrypt_world[OF re nonces dec] obtain db' c where p: "sw_db w' = Some db'"
    "sd_versions db' = map (rekey (sv_ID ` set (take rotated (listed db))) c) (sd_versions db)"
    "\<forall>i\<in>sv_ID ` set (take rotated (listed db)). sealed_by (ve_ae env) ?new (pt i) (c i)" "sw_kv w' = sw_kv w"
    by blast
  have "\<exists>x. va_Decrypt (ve_ae env) v (sv_ValueEnc u) = Inl x"
    if "u \<in> set (sd_versions db')" "sv_ID u \<in> sv_ID ` set (take rotated (listed db))" "va_key v \<noteq> va_key ?new" for u v
  proof -
    have "sv_ValueEnc u = c (sv_ID u)" using that(1,2) by (auto simp: p(2))
    then show ?thesis using p(3) that(2,3) sealed_foreign[OF auth] by metis
  qed
  then show ?thesis using m p(1,4) by (auto simp: p(2))
qed

text \<open>
  A completed key rotation loses every version beyond the ten thousandth: the listing is cut off there, the
  remaining versions keep their old ciphertexts, and the vault the module goes on with does not decrypt them.
\<close>

theorem rotation_skips_beyond_limit:
  assumes auth: "aead_authentic (ve_ae env)" and nonces: "nonces_ok nonces" and db: "sw_db w = Some db"
    and many: "10000 < length (sd_versions db)" and ids: "distinct (map sv_ID (sd_versions db))"
    and sealed: "\<forall>u\<in>set (sd_versions db). sealed_by (ve_ae env) (sm_vault m) (pt (sv_ID u)) (sv_ValueEnc u)" "aead_opens (ve_ae env)"
    and fresh: "va_key (newVault env newKey salt) \<noteq> va_key (sm_vault m)"
    and run: "RotateEncryptionKey env kvio True now (Some salt) nonces updOK newKey m w = (m', w', rotated, None)"
  shows "rotated = 10000
    \<and> (\<exists>db' u. sw_db w' = Some db' \<and> u \<in> set (sd_versions db') \<and> (\<exists>x. va_Decrypt (ve_ae env) (sm_vault m') (sv_ValueEnc u) = Inl x))"
proof -
  let ?new = "newVault env newKey salt"
  have m: "sm_vault m' = ?new" and re: "reencrypt env kvio True now (sm_vault m) ?new salt nonces updOK db w = (w', rotated, None)"
    using run db by (auto simp: RotateEncryptionKey_def Let_def split: prod.splits option.splits)
  have dec: "\<forall>v\<in>set (listed db). va_Decrypt (ve_ae env) (sm_vault m) (sv_ValueEnc v) = Inr (pt (sv_ID v))"
    using sealed sealed_opens listed_subset by blast
  from reencrypt_world[OF re nonces dec] obtain db' c where p: "sw_db w' = Some db'"
    "sd_versions db' = map (rekey (sv_ID ` set (take rotated (listed db))) c) (sd_versions db)" "rotated = length (listed db)"
    by blast
  have r: "rotated = 10000" using p(3) many by (simp add: length_listed)
  have "card (sv_ID ` set (listed db)) \<le> 10000"
    using card_image_le[of "set (listed db)" sv_ID] card_length[of "listed db"] p(3) r by simp
  moreover have "card (sv_ID ` set (sd_versions db)) = length (sd_versions db)" using distinct_card[OF ids] by simp
  ultimately have "\<not> sv_ID ` set (sd_versions db) \<subseteq> sv_ID ` set (listed db)"
    using many card_mono[of "sv_ID ` set (listed db)" "sv_ID ` set (sd_versions db)"] by auto
  then obtain u where u: "u \<in> set (sd_versions db)" "sv_ID u \<notin> sv_ID ` set (listed db)" by blast
  then have "u \<in> set (sd_versions db')" using p(2,3) by (auto simp: rekey_def image_iff intro!: bexI[of _ u])
  moreover have "\<exists>x. va_Decrypt (ve_ae env) (sm_vault m') (sv_ValueEnc u) = Inl x"
    using sealed_foreign[OF auth] sealed(1) u(1) fresh m by metis
  ultimately show ?thesis using r p(1) by blast
qed

subsection \<open>Migration from the legacy salt\<close>

text \<open>A boot: Init, then Start.\<close>

definition sm_boot ::
  "'j vault_env \<Rightarrow> bool \<Rightarrow> time \<Rightarrow> string option \<Rightarrow> string option \<Rightarrow> (nat \<Rightarrow> string option) \<Rightarrow> (string \<Rightarrow> bool) \<Rightarrow> string \<Rightarrow>
   'j secret_world \<Rightarrow> 'j secret_world \<times> (secret_error + SecretModule)" where
  "sm_boot env kvio now generated1 generated2 nonces updOK secret w =
     (case sm_Init env kvio True now generated1 secret [] w of
        (w1, Inl e) \<Rightarrow> (w1, Inl e)
      | (w1, Inr m) \<Rightarrow>
          (case sm_Start env kvio True now generated2 nonces updOK m w1 of
             (m', w2, Some e) \<Rightarrow> (w2, Inl e)
           | (m', w2, None) \<Rightarrow> (w2, Inr m')))"

text \<open>The salt is missing and the first listed version is not one of the legacy vault's.\<close>

definition wedged :: "'j vault_env \<Rightarrow> string \<Rightarrow> 'j secret_world \<Rightarrow> bool" where
  "wedged env secret w \<longleftrightarrow>
     (\<exists>kv db v vs e. sw_kv w = Some kv \<and> sw_db w = Some db \<and> (\<forall>io now. stored_salt env io now kv = None)
        \<and> listed db = v # vs \<and> va_Decrypt (ve_ae env) (legacyVault env secret) (sv_ValueEnc v) = Inl e)"

lemma wedged_boot:
  assumes "wedged env secret w"
  shows "\<exists>e. sm_boot env kvio now generated1 generated2 nonces updOK secret w = (w, Inl e)"
proof -
  obtain kv db v vs e where w: "sw_kv w = Some kv" "sw_db w = Some db" "\<And>io now. stored_salt env io now kv = None"
    "listed db = v # vs" "va_Decrypt (ve_ae env) (legacyVault env secret) (sv_ValueEnc v) = Inl e"
    using assms unfolding wedged_def by blast
  have list: "ListAllSecretVersions True db = Inr (v # vs)" using w(4) by (simp add: ListAllSecretVersions_def listed_def)
  show ?thesis
  proof (cases generated1)
    case None
    then show ?thesis using w by (simp add: sm_boot_def sm_Init_def resolveVaultSalt_def Let_def)
  next
    case (Some s)
    have init: "sm_Init env kvio True now generated1 secret [] w = (w, Inr \<lparr>sm_vault = legacyVault env secret, sm_masterSecret = secret\<rparr>)"
      using w list Some by (simp add: sm_Init_def resolveVaultSalt_def Let_def)
    show ?thesis
    proof (cases generated2)
      case None
      then show ?thesis using w by (simp add: sm_boot_def init sm_Start_def migrateLegacyVault_def)
    next
      case (Some s')
      have "w\<lparr>sw_db := Some db\<rparr> = w" using w(2) by simp
      then show ?thesis
        using w(1-3,5) Some by (simp add: sm_boot_def init sm_Start_def migrateLegacyVault_def Let_def reencrypt_def list)
    qed
  qed
qed

type_synonym boot_args = "bool \<times> time \<times> string option \<times> string option \<times> (nat \<Rightarrow> string option) \<times> (string \<Rightarrow> bool)"

fun sm_boots :: "'j vault_env \<Rightarrow> string \<Rightarrow> boot_args list \<Rightarrow> 'j secret_world \<Rightarrow> 'j secret_world \<times> (secret_error + SecretModule) list" where
  "sm_boots env secret [] w = (w, [])"
| "sm_boots env secret ((kvio, now, generated1, generated2, nonces, updOK) # bs) w =
     (case sm_boot env kvio now generated1 generated2 nonces updOK secret w of
        (w', r) \<Rightarrow> (case sm_boots env secret bs w' of (w'', rs) \<Rightarrow> (w'', r # rs)))"

lemma wedged_forever:
  assumes "wedged env secret w"
  shows "\<exists>es. sm_boots env secret boots w = (w, map Inl es)"
proof (induction boots)
  case (Cons b boots)
  obtain kvio now g1 g2 nonces updOK where b: "b = (kvio, now, g1, g2, nonces, updOK)" by (metis prod_cases6)
  obtain e where "sm_boot env kvio now g1 g2 nonces updOK secret w = (w, Inl e)" using wedged_boot[OF assms] by blast
  moreover obtain es where "sm_boots env secret boots w = (w, map Inl es)" using Cons by blast
  ultimately show ?case by (intro exI[of _ "e # es"]) (simp add: b)
qed simp

text \<open>
  A migration from the legacy salt that fails after its first update can never be completed: although the comment
  says that the next boot retries, every later boot, however often and with whatever databases and random bytes, ends
  with an error, because the legacy vault no longer decrypts the first version, and nothing in the store changes.
\<close>

theorem interrupted_migration_wedges_boot:
  assumes auth: "aead_authentic (ve_ae env)" "aead_opens (ve_ae env)" and nonces: "nonces_ok nonces"
    and world: "sw_kv w = Some kv" "sw_db w = Some db" "\<forall>io now. stored_salt env io now kv = None"
    and legacy: "\<forall>u\<in>set (sd_versions db). sealed_by (ve_ae env) (legacyVault env secret) (pt (sv_ID u)) (sv_ValueEnc u)"
    and first: "listed db = v # vs" "updOK (sv_ID v)" "nonces 0 \<noteq> None" and key: "aes_key_ok (va_key (newVault env secret salt))"
    and fresh: "va_key (newVault env secret salt) \<noteq> va_key (legacyVault env secret)"
    and run: "sm_boot env kvio now generated (Some salt) nonces updOK secret w = (w', Inl e)" "generated \<noteq> None"
  shows "\<exists>es. sm_boots env secret boots w' = (w', map Inl es)"
proof -
  let ?old = "legacyVault env secret" and ?new = "newVault env secret salt"
  have list: "ListAllSecretVersions True db = Inr (v # vs)" using first(1) by (simp add: ListAllSecretVersions_def listed_def)
  have init: "sm_Init env kvio True now generated secret [] w = (w, Inr \<lparr>sm_vault = ?old, sm_masterSecret = secret\<rparr>)"
    using world list run(2) by (auto simp: sm_Init_def resolveVaultSalt_def Let_def)
  obtain rotated where re: "reencrypt env kvio True now ?old ?new salt nonces updOK db w = (w', rotated, Some e)"
    using run(1) world by (auto simp: sm_boot_def init sm_Start_def migrateLegacyVault_def Let_def split: prod.splits option.splits)
  have dec: "\<forall>v\<in>set (listed db). va_Decrypt (ve_ae env) ?old (sv_ValueEnc v) = Inr (pt (sv_ID v))"
    using legacy sealed_opens[OF auth(2)] listed_subset by blast
  from reencrypt_world[OF re nonces dec] obtain db' c where p: "sw_db w' = Some db'" "rotated \<le> length (listed db)"
    "sd_versions db' = map (rekey (sv_ID ` set (take rotated (listed db))) c) (sd_versions db)"
    "\<forall>i\<in>sv_ID ` set (take rotated (listed db)). sealed_by (ve_ae env) ?new (pt i) (c i)" "sw_kv w' = sw_kv w"
    by blast
  have "0 < rotated"
  proof -
    obtain db1 r err where loop: "reencrypt_loop (ve_ae env) ?old ?new nonces updOK (v # vs) 0 db = (db1, r, err)"
      using prod_cases3 by blast
    obtain n where n: "nonces 0 = Some n" using first(3) by auto
    obtain d where d: "va_Encrypt (ve_ae env) (Some n) ?new (pt (sv_ID v)) = Inr d" using encrypt_some[OF key] by blast
    have "va_Decrypt (ve_ae env) ?old (sv_ValueEnc v) = Inr (pt (sv_ID v))" using dec first(1) by simp
    then have "reencrypt_loop (ve_ae env) ?old ?new nonces updOK vs 1 (UpdateSecretVersionValue (sv_ID v) d db) = (db1, r, err)"
      using loop n d first(2) by simp
    then have "1 \<le> r" by (rule reencrypt_progress)
    moreover have "rotated = r" using re loop by (auto simp: reencrypt_def list split: option.splits prod.splits)
    ultimately show ?thesis by simp
  qed
  then have v: "sv_ID v \<in> sv_ID ` set (take rotated (listed db))" using first(1) by (cases rotated) auto
  have "listed db' = map (rekey (sv_ID ` set (take rotated (listed db))) c) (v # vs)" using listed_rekey[OF p(3)] first(1) by simp
  moreover have "\<exists>x. va_Decrypt (ve_ae env) ?old (c (sv_ID v)) = Inl x" using p(4) v sealed_foreign[OF auth(1)] fresh by metis
  ultimately have "wedged env secret w'" using v p(1,5) world(1,3) by (auto simp: wedged_def)
  then show ?thesis by (rule wedged_forever)
qed

section \<open>An instance\<close>

definition ex_env :: "string vault_env" where
  "ex_env = \<lparr>ve_ae = ex_aead, ve_sha = (\<lambda>_. replicate 32 (CHR ''h'')), ve_kdf = (\<lambda>s t. take 32 (s @ t @ replicate 32 (CHR ''x''))),
     ve_enc = Some, ve_dec = Some\<rparr>"

lemma ex_kdf_length: "length (ve_kdf ex_env s t) = 32"
  unfolding ex_env_def vault_env.simps length_take by simp

lemma ex_env_ok: "env_ok ex_env"
  by (simp add: env_ok_def ex_kdf_length) (simp add: ex_env_def ex_aead_opens codec_ok_def)

definition ex_salt :: string where
  "ex_salt = replicate 32 (CHR ''s'')"

definition ex_nonces :: "nat \<Rightarrow> string option" where
  "ex_nonces i = Some (replicate 12 (CHR ''n''))"

lemma ex_nonces_ok: "nonces_ok ex_nonces" "\<forall>i. ex_nonces i \<noteq> None"
  by (simp_all add: nonces_ok_def ex_nonces_def NonceSize_def)

text \<open>Two versions under the legacy vault of the secret old.\<close>

definition ex_version :: "string \<Rightarrow> string \<Rightarrow> SecretVersion" where
  "ex_version i p = \<lparr>sv_ID = i, sv_SecretID = i, sv_Version = 1,
     sv_ValueEnc = b64_encode (replicate 12 (CHR ''n'') @ ae_Seal ex_aead (va_key (legacyVault ex_env ''old'')) (replicate 12 (CHR ''n'')) p)\<rparr>"

lemma ex_legacy_key: "aes_key_ok (va_key (legacyVault ex_env s))" "aes_key_ok (va_key (newVault ex_env s t))"
  by (simp_all add: aes_key_ok_def legacyVault_def newLegacyVault_def NewVaultWithSalt_def newVault_def ex_kdf_length)

lemma ex_version_sealed: "sealed_by ex_aead (legacyVault ex_env ''old'') p (sv_ValueEnc (ex_version i p))"
  using ex_legacy_key(1)[of "''old''"]
  by (auto simp: sealed_by_def ex_version_def va_Encrypt_def NonceSize_def intro!: exI[of _ "replicate 12 (CHR ''n'')"])

lemma ex_new_key: "va_key (newVault ex_env ''new'' ex_salt) \<noteq> va_key (legacyVault ex_env ''old'')"
  "va_key (newVault ex_env ''old'' ex_salt) \<noteq> va_key (legacyVault ex_env ''old'')"
  by code_simp+

definition ex_db :: SecretDB where
  "ex_db = \<lparr>sd_secrets = [], sd_versions = [ex_version ''a'' ''one'', ex_version ''b'' ''two'']\<rparr>"

definition ex_pt :: "string \<Rightarrow> string" where
  "ex_pt i = (if i = ''a'' then ''one'' else ''two'')"

lemma ex_db_sealed:
  "\<forall>u\<in>set (sd_versions ex_db). sealed_by (ve_ae ex_env) (legacyVault ex_env ''old'') (ex_pt (sv_ID u)) (sv_ValueEnc u)"
proof -
  have "sv_ID (ex_version i p) = i" "ve_ae ex_env = ex_aead" for i p by (simp_all add: ex_version_def ex_env_def)
  then show ?thesis using ex_version_sealed by (simp add: ex_db_def ex_pt_def)
qed

lemma ex_db_readable:
  "\<forall>u\<in>set (sd_versions ex_db). va_Decrypt (ve_ae ex_env) (legacyVault ex_env ''old'') (sv_ValueEnc u) = Inr (ex_pt (sv_ID u))"
  using ex_db_sealed sealed_opens ex_env_ok unfolding env_ok_def by blast

definition ex_world :: "string secret_world" where
  "ex_world = \<lparr>sw_kv = Some NewKVStore, sw_db = Some ex_db\<rparr>"

definition ex_module :: SecretModule where
  "ex_module = \<lparr>sm_vault = legacyVault ex_env ''old'', sm_masterSecret = ''old''\<rparr>"


lemma ex_listed: "listed ex_db = [ex_version ''a'' ''one'', ex_version ''b'' ''two'']"
proof -
  have "(''a'', 1 :: int) \<le> (''b'', 1)" by (simp add: less_eq_prod_def list_less_def lexord_def) 
  then show ?thesis by (simp add: listed_def ex_db_def ex_version_def)
qed

lemma ex_loop_fails:
  assumes "aes_key_ok (va_key new)"
  shows "\<exists>db'. reencrypt_loop (ve_ae ex_env) (legacyVault ex_env ''old'') new ex_nonces (\<lambda>i. i = ''a'') (listed ex_db) 0 ex_db
    = (db', 1, Some (UpdateFailed ''b''))"
proof -
  have rows: "va_Decrypt (ve_ae ex_env) (legacyVault ex_env ''old'') (sv_ValueEnc (ex_version ''a'' ''one'')) = Inr ''one''"
    "va_Decrypt (ve_ae ex_env) (legacyVault ex_env ''old'') (sv_ValueEnc (ex_version ''b'' ''two'')) = Inr ''two''"
    using ex_db_readable by (simp_all add: ex_db_def ex_pt_def) (simp_all add: ex_version_def)
  have ids: "sv_ID (ex_version ''a'' ''one'') = ''a''" "sv_ID (ex_version ''b'' ''two'') = ''b''" by (simp_all add: ex_version_def)
  have enc: "\<exists>c. va_Encrypt (ve_ae ex_env) (ex_nonces i) new p = Inr c" for i p
    unfolding ex_nonces_def by (rule encrypt_some[OF assms])
  obtain c where c: "va_Encrypt (ve_ae ex_env) (ex_nonces 0) new ''one'' = Inr c" using enc by blast
  obtain d where d: "va_Encrypt (ve_ae ex_env) (ex_nonces 1) new ''two'' = Inr d" using enc by blast
  show ?thesis using c d by (simp add: ex_listed rows ids)
qed

lemma ex_rotation_fails:
  "\<exists>m' w'. RotateEncryptionKey ex_env True True 5 (Some ex_salt) ex_nonces (\<lambda>i. i = ''a'') ''new'' ex_module ex_world
     = (m', w', 1, Some (UpdateFailed ''b''))"
  using ex_loop_fails[OF ex_legacy_key(2)[of "''new''" ex_salt]]
  by (auto simp: RotateEncryptionKey_def ex_world_def ex_module_def Let_def reencrypt_def ListAllSecretVersions_def simp flip: listed_def)

theorem interrupted_rotation_loses_secrets_witness:
  "\<exists>m' w' db'. RotateEncryptionKey ex_env True True 5 (Some ex_salt) ex_nonces (\<lambda>i. i = ''a'') ''new'' ex_module ex_world
       = (m', w', 1, Some (UpdateFailed ''b''))
     \<and> sw_kv w' = sw_kv ex_world \<and> sw_db w' = Some db' \<and> sv_ID (hd (sd_versions db')) = ''a''
     \<and> (\<exists>x. va_Decrypt (ve_ae ex_env) (legacyVault ex_env ''old'') (sv_ValueEnc (hd (sd_versions db'))) = Inl x)"
proof -
  obtain m' w' where run: "RotateEncryptionKey ex_env True True 5 (Some ex_salt) ex_nonces (\<lambda>i. i = ''a'') ''new'' ex_module ex_world
     = (m', w', 1, Some (UpdateFailed ''b''))" using ex_rotation_fails by blast
  have hyps: "aead_authentic (ve_ae ex_env)" "sw_db ex_world = Some ex_db"
    "\<forall>u\<in>set (sd_versions ex_db). va_Decrypt (ve_ae ex_env) (sm_vault ex_module) (sv_ValueEnc u) = Inr (ex_pt (sv_ID u))"
    using ex_aead_authentic ex_db_readable by (simp_all add: ex_env_def ex_world_def ex_module_def)
  obtain db' where lost: "sw_kv w' = sw_kv ex_world" "sw_db w' = Some db'" "map sv_ID (sd_versions db') = map sv_ID (sd_versions ex_db)"
    "\<forall>u\<in>set (sd_versions db'). sv_ID u \<in> sv_ID ` set (take 1 (listed ex_db)) \<longrightarrow>
       (\<forall>v. va_key v \<noteq> va_key (newVault ex_env ''new'' ex_salt) \<longrightarrow> (\<exists>x. va_Decrypt (ve_ae ex_env) v (sv_ValueEnc u) = Inl x))"
    using interrupted_rotation_loses_secrets[OF hyps(1) ex_nonces_ok(1) hyps(2,3) run] by blast
  have "map sv_ID (sd_versions db') = [''a'', ''b'']" using lost(3) by (simp add: ex_db_def ex_version_def)
  then obtain u us where u: "sd_versions db' = u # us" "sv_ID u = ''a''" by (cases "sd_versions db'") auto
  have "sv_ID u \<in> sv_ID ` set (take 1 (listed ex_db))" using u(2) by (simp add: ex_listed ex_version_def)
  then have "\<exists>x. va_Decrypt (ve_ae ex_env) (legacyVault ex_env ''old'') (sv_ValueEnc u) = Inl x"
    using lost(4) u(1) ex_new_key(1) by (metis list.set_intros(1))
  then show ?thesis using run lost(1,2) u by auto
qed

lemma ex_world_saltless: "\<forall>io now. stored_salt ex_env io now NewKVStore = None"
  by (simp add: stored_salt_def NewKVStore_def initSchema_def kv_Get_def sql_select_def)

theorem interrupted_migration_wedges_boot_witness:
  "\<exists>w' e es. sm_boot ex_env True 5 (Some ex_salt) (Some ex_salt) ex_nonces (\<lambda>i. i = ''a'') ''old'' ex_world = (w', Inl e)
     \<and> sm_boots ex_env ''old'' (replicate 100 (True, 9, Some ex_salt, Some ex_salt, ex_nonces, (\<lambda>_. True))) w' = (w', map Inl es)"
proof -
  have list: "ListAllSecretVersions True ex_db = Inr (listed ex_db)" "listed ex_db \<noteq> []"
    by (simp add: ListAllSecretVersions_def listed_def) (simp add: ex_listed)
  have init: "sm_Init ex_env True True 5 (Some ex_salt) ''old'' [] ex_world = (ex_world, Inr ex_module)"
    using ex_world_saltless list by (simp add: sm_Init_def resolveVaultSalt_def ex_world_def ex_module_def Let_def)
  have world: "sw_kv ex_world = Some NewKVStore" "sw_db ex_world = Some ex_db" by (simp_all add: ex_world_def)
  have "\<exists>w' e. sm_boot ex_env True 5 (Some ex_salt) (Some ex_salt) ex_nonces (\<lambda>i. i = ''a'') ''old'' ex_world = (w', Inl e)"
    using ex_loop_fails[OF ex_legacy_key(2)[of "''old''" ex_salt]] ex_world_saltless
    by (auto simp: sm_boot_def init sm_Start_def migrateLegacyVault_def world Let_def reencrypt_def list ex_module_def)
  then obtain w' e where run: "sm_boot ex_env True 5 (Some ex_salt) (Some ex_salt) ex_nonces (\<lambda>i. i = ''a'') ''old'' ex_world = (w', Inl e)"
    by blast
  have hyps: "aead_authentic (ve_ae ex_env)" "aead_opens (ve_ae ex_env)" "sv_ID (ex_version ''a'' ''one'') = ''a''" "ex_nonces 0 \<noteq> None"
    using ex_aead_authentic ex_aead_opens by (simp_all add: ex_env_def ex_version_def ex_nonces_def)
  show ?thesis
    using interrupted_migration_wedges_boot[OF hyps(1,2) ex_nonces_ok(1) world ex_world_saltless ex_db_sealed ex_listed _ hyps(4)
        ex_legacy_key(2) ex_new_key(2) run] run hyps(3) by blast
qed

theorem rotation_skips_beyond_limit_witness:
  "\<exists>w m' w'. RotateEncryptionKey ex_env True True 5 (Some ex_salt) ex_nonces (\<lambda>_. True) ''new'' ex_module w = (m', w', 10000, None)
     \<and> (\<exists>db' u. sw_db w' = Some db' \<and> u \<in> set (sd_versions db') \<and> (\<exists>x. va_Decrypt ex_aead (sm_vault m') (sv_ValueEnc u) = Inl x))"
proof -
  define db where "db = \<lparr>sd_secrets = [], sd_versions = map (\<lambda>i. ex_version (replicate i (CHR ''a'')) ''v'') [0..<10001]\<rparr>"
  define w where "w = \<lparr>sw_kv = Some (NewKVStore :: string KVStore), sw_db = Some db\<rparr>"
  have rows: "sv_ID (ex_version i p) = i" "ve_ae ex_env = ex_aead" "sm_vault ex_module = legacyVault ex_env ''old''" for i p
    by (simp_all add: ex_version_def ex_env_def ex_module_def)
  have len: "10000 < length (sd_versions db)" by (simp add: db_def)
  have ids: "distinct (map sv_ID (sd_versions db))"
    by (auto simp: db_def rows comp_def distinct_map inj_on_def)
  have sealed: "\<forall>u\<in>set (sd_versions db). sealed_by (ve_ae ex_env) (sm_vault ex_module) ''v'' (sv_ValueEnc u)"
    using ex_version_sealed by (auto simp: db_def rows)
  have opens: "aead_opens (ve_ae ex_env)" and auth: "aead_authentic (ve_ae ex_env)" using ex_aead_opens ex_aead_authentic by (simp_all add: rows)
  have readable: "\<exists>p. va_Decrypt (ve_ae ex_env) (sm_vault ex_module) (sv_ValueEnc v) = Inr p" if "v \<in> set (listed db)" for v
    using that sealed sealed_opens[OF opens] listed_subset by blast
  obtain db1 r where loop: "reencrypt_loop (ve_ae ex_env) (sm_vault ex_module) (newVault ex_env ''new'' ex_salt) ex_nonces (\<lambda>_. True) (listed db) 0 db = (db1, r, None)"
    using reencrypt_complete[of "listed db" "ve_ae ex_env" "sm_vault ex_module" ex_nonces "\<lambda>_. True"] readable ex_nonces_ok(2) ex_legacy_key(2) by blast
  have "\<exists>kv'. persistSalt ex_env True 5 ex_salt (w\<lparr>sw_db := Some db1\<rparr>) = (w\<lparr>sw_db := Some db1, sw_kv := Some kv'\<rparr>, None)"
    using salt_persisted[OF ex_env_ok, of 5 ex_salt "w\<lparr>sw_db := Some db1\<rparr>" NewKVStore] by (auto simp: w_def ex_salt_def)
  then obtain m' w' where run: "RotateEncryptionKey ex_env True True 5 (Some ex_salt) ex_nonces (\<lambda>_. True) ''new'' ex_module w = (m', w', r, None)"
    using loop by (auto simp: RotateEncryptionKey_def w_def Let_def reencrypt_def ListAllSecretVersions_def simp flip: listed_def)
  have db: "sw_db w = Some db" by (simp add: w_def)
  have fresh: "va_key (newVault ex_env ''new'' ex_salt) \<noteq> va_key (sm_vault ex_module)" using ex_new_key(1) by (simp add: rows)
  have "r = 10000 \<and> (\<exists>db' u. sw_db w' = Some db' \<and> u \<in> set (sd_versions db') \<and> (\<exists>x. va_Decrypt ex_aead (sm_vault m') (sv_ValueEnc u) = Inl x))"
    using rotation_skips_beyond_limit[OF auth ex_nonces_ok(1) db len ids sealed opens fresh run] by (simp only: rows)
  then show ?thesis using run by blast
qed

end
