(* ===== verification/Secret_Resolution.thy ===== *)
theory Secret_Resolution
  imports Key_Rotation
begin

text \<open>
  Resolution of secrets by scope and name, and the expansion of references in templates, over \<open>Secrets\<close>.

  Shown here: scopes with an identifier resolve as the global scope does; the expansion ends when no value contains a
  dollar sign, and runs forever on a secret that refers to itself.
\<close>

section \<open>Scopes\<close>

lemma scoped_lookup_fails:
  assumes "\<forall>s\<in>set (sd_secrets db). scope_check (se_Scope s)" "CHR ''/'' \<in> set scope"
  shows "\<exists>e. GetSecretByScopeAndName io scope name db = Inl e"
proof -
  have "\<not> scope_check scope" using assms(2) by (auto simp: scope_check_def)
  then have "find (\<lambda>s. se_Scope s = scope \<and> se_Name s = name) (sd_secrets db) = None" using assms(1) by (auto simp: find_None_iff)
  then show ?thesis by (simp add: GetSecretByScopeAndName_def)
qed

lemma splitOn_hd: "hd (splitOn (CHR ''/'') (t @ CHR ''/'' # r)) = t" if "CHR ''/'' \<notin> set t"
proof -
  have "\<exists>ws. splitOn (CHR ''/'') (t @ CHR ''/'' # r) = t # ws" using that by (induction t) auto
  then show ?thesis by auto
qed

text \<open>
  The scope that a caller names below its type is never honoured: rows can only carry the four bare scope words,
  so resolving a name in the scope of one tenant, project or app, written as the type, a slash and an identifier, gives
  exactly what resolving it in the global scope gives, the errors included.
\<close>

theorem scoped_resolution_is_global:
  assumes "\<forall>db. sw_db w = Some db \<longrightarrow> (\<forall>s\<in>set (sd_secrets db). scope_check (se_Scope s))"
    and "t \<in> {''tenant'', ''project'', ''app''}"
  shows "sm_Resolve env io m w (t @ ''/'' @ i) name = sm_Resolve env io m w ''global'' name"
proof (cases "sw_db w")
  case None
  then show ?thesis by (simp add: sm_Resolve_def)
next
  case (Some db)
  have "CHR ''/'' \<notin> set t" using assms(2) by auto
  then have "hd (splitOn (CHR ''/'') (t @ ''/'' @ i)) = t" using splitOn_hd by simp
  then have h: "buildScopeHierarchy (t @ ''/'' @ i) = [t @ ''/'' @ i, ''global'']"
    using assms(2) unfolding buildScopeHierarchy_def Let_def by auto
  have g: "buildScopeHierarchy ''global'' = [''global'']" by code_simp
  obtain e where "GetSecretByScopeAndName io (t @ ''/'' @ i) name db = Inl e"
    using scoped_lookup_fails[of db "t @ ''/'' @ i"] assms(1) Some by fastforce
  then have "sm_Resolve env io m w (t @ ''/'' @ i) name = resolve_loop (ve_ae env) io (sm_vault m) db name (Some e) [''global'']"
    unfolding sm_Resolve_def Some option.case h by simp
  also have "\<dots> = sm_Resolve env io m w ''global'' name"
    unfolding sm_Resolve_def Some option.case g by (auto split: sum.splits)
  finally show ?thesis .
qed

section \<open>References\<close>

lemma indexOf_skip: "c \<notin> set p \<Longrightarrow> indexOf (p @ r) [c] = map_option (\<lambda>i. length p + i) (indexOf r [c])"
proof (induction p)
  case (Cons x p)
  then show ?case by (auto simp: hasPrefix_def option.map_comp comp_def)
qed (cases "indexOf r [c]", simp_all)

lemma indexOf_split: "indexOf r [c] = Some e \<Longrightarrow> r = take e r @ c # drop (Suc e) r"
  using indexOf_take[of r "[c]" e] by (metis Cons_eq_appendI append_Nil append_take_drop_id drop_Suc hasPrefix_iff list.sel(3) tl_drop)

lemma first_ref_text:
  assumes "first_ref t = Some (before, ref, after)"
  shows "t = before @ ''${SECRET:'' @ ref @ ''}'' @ after"
proof -
  let ?p = "''${SECRET:''"
  obtain idx e where idx: "indexOf t ?p = Some idx" and e: "indexOf (drop idx t) ''}'' = Some e"
    and parts: "before = take idx t" "ref = take (e - 9) (drop (idx + 9) t)" "after = drop (idx + e + 1) t"
    using assms by (auto simp: first_ref_def split: option.splits)
  obtain r where r: "drop idx t = ?p @ r" using indexOf_take[OF idx] by (auto simp only: hasPrefix_iff)
  have "indexOf (?p @ r) ''}'' = map_option (\<lambda>i. length ?p + i) (indexOf r ''}'')" by (rule indexOf_skip) simp
  then obtain e' where e': "indexOf r ''}'' = Some e'" "e = 9 + e'" using e unfolding r by (cases "indexOf r ''}''") simp_all
  have rest: "drop (idx + 9) t = r"
  proof -
    have "drop (idx + 9) t = drop 9 (drop idx t)" by (simp add: add.commute)
    then show ?thesis unfolding r by simp
  qed
  have "after = drop (Suc e') (drop (idx + 9) t)" unfolding parts(3) e'(2) by (simp add: algebra_simps)
  then have "after = drop (Suc e') r" unfolding rest .
  moreover have "ref = take e' r" unfolding parts(2) rest e'(2) by simp
  ultimately have "r = ref @ ''}'' @ after" using indexOf_split[OF e'(1)] by simp
  then have "drop idx t = ?p @ ref @ ''}'' @ after" using r by simp
  then show ?thesis unfolding parts(1) by (metis append_take_drop_id)
qed

definition dollars :: "string \<Rightarrow> nat" where
  "dollars s = count_list s (CHR ''$'')"

text \<open>
  The expansion of references in a template ends when no secret's value contains a dollar sign: it then returns
  the text without complete references, or the error of the first reference that does not resolve.
\<close>

theorem resolve_all_terminates:
  assumes "\<forall>name val. sm_Resolve env io m w scope name = Inr val \<longrightarrow> CHR ''$'' \<notin> set val"
  shows "\<exists>r. ResolveAll env io m w scope template = Some r
    \<and> (case r of Inr text \<Rightarrow> first_ref text = None | Inl (ref, e) \<Rightarrow> sm_Resolve env io m w scope ref = Inl e)"
proof -
  let ?res = "sm_Resolve env io m w scope"
  have "\<exists>r. resolve_refs ?res t = Some r
      \<and> (case r of Inr text \<Rightarrow> first_ref text = None | Inl (ref, e) \<Rightarrow> ?res ref = Inl e)" for t
  proof (induction "dollars t" arbitrary: t rule: less_induct)
    case less
    show ?case
    proof (cases "first_ref t")
      case None
      then show ?thesis by (subst resolve_refs.simps) simp
    next
      case (Some q)
      obtain before ref after where q: "q = (before, ref, after)" by (cases q)
      show ?thesis
      proof (cases "?res ref")
        case (Inl e)
        then show ?thesis using Some q by (subst resolve_refs.simps) simp
      next
        case (Inr val)
        have "dollars t = dollars before + (1 + dollars ref) + dollars after"
          by (subst first_ref_text[OF Some[unfolded q]]) (simp add: dollars_def)
        moreover have "dollars val = 0" using assms Inr by (simp add: dollars_def count_list_0_iff)
        ultimately have "dollars (before @ val @ after) < dollars t" by (simp add: dollars_def)
        from less[OF this] show ?thesis using Some q Inr by (subst resolve_refs.simps) simp
      qed
    qed
  qed
  then show ?thesis by (simp add: ResolveAll_def)
qed

text \<open>
  C31. The expansion of a template never returns when its first reference names a secret whose value is the reference
  to itself: the loop puts the same text back for ever.
\<close>

theorem self_reference_diverges:
  assumes "first_ref template = Some (before, name, after)"
    and "sm_Resolve env io m w scope name = Inr (''${SECRET:'' @ name @ ''}'')"
  shows "ResolveAll env io m w scope template = None"
proof -
  let ?res = "sm_Resolve env io m w scope"
  have loops: "\<not> (res = ?res \<and> t = template)" if "resolve_refs res t = Some r" for res t r
  proof (rule resolve_refs.raw_induct[where P = "\<lambda>res t r. \<not> (res = ?res \<and> t = template)", OF _ that])
    fix f :: "(string \<Rightarrow> resolve_error + string) \<Rightarrow> string \<Rightarrow> (string \<times> resolve_error + string) option" and res t r
    assume ih: "\<And>res t r. f res t = Some r \<Longrightarrow> \<not> (res = ?res \<and> t = template)"
      and step: "(case first_ref t of
          None \<Rightarrow> Some (Inr t)
        | Some (before, ref, after) \<Rightarrow>
            (case res ref of Inl e \<Rightarrow> Some (Inl (ref, e)) | Inr val \<Rightarrow> f res (before @ val @ after))) = Some r"
    show "\<not> (res = ?res \<and> t = template)"
    proof
      assume eq: "res = ?res \<and> t = template"
      have "before @ (''${SECRET:'' @ name @ ''}'') @ after = template" using first_ref_text[OF assms(1)] by simp
      then have "f ?res template = Some r" using step assms eq by simp
      then show False using ih by blast
    qed
  qed
  show ?thesis
  proof (cases "resolve_refs ?res template")
    case (Some r)
    then show ?thesis using loops by blast
  qed (simp add: ResolveAll_def)
qed

section \<open>An instance\<close>

text \<open>A world with one global secret.\<close>

definition ex_secret_world :: "string \<Rightarrow> string secret_world" where
  "ex_secret_world p = \<lparr>sw_kv = None, sw_db = Some
     \<lparr>sd_secrets = [\<lparr>se_ID = ''a'', se_TenantID = ''t1'', se_ProjectID = [], se_AppID = [], se_Name = ''A'', se_Scope = ''global'', se_CurrentVersion = 1\<rparr>],
      sd_versions = [ex_version ''a'' p]\<rparr>\<rparr>"

lemma ex_resolve:
  "sm_Resolve ex_env True ex_module (ex_secret_world p) ''global'' name =
     (if name = ''A'' then Inr p else Inl (ResolveLookup (SecretNotFound ''global'' name)))"
proof -
  have g: "buildScopeHierarchy ''global'' = [''global'']" by code_simp
  have "va_Decrypt (ve_ae ex_env) (sm_vault ex_module) (sv_ValueEnc (ex_version ''a'' p)) = Inr p"
    using sealed_opens[OF ex_aead_opens ex_version_sealed] by (simp add: ex_env_def ex_module_def)
  moreover have "sv_SecretID (ex_version ''a'' p) = ''a''" by (simp add: ex_version_def)
  ultimately show ?thesis
    by (auto simp: sm_Resolve_def ex_secret_world_def g GetSecretByScopeAndName_def GetLatestSecretVersion_def)
qed

theorem scoped_resolution_is_global_witness:
  "sm_Resolve ex_env True ex_module (ex_secret_world ''v'') (''tenant'' @ ''/'' @ ''t2'') ''A'' = Inr ''v''"
proof -
  have "\<forall>db. sw_db (ex_secret_world ''v'') = Some db \<longrightarrow> (\<forall>s\<in>set (sd_secrets db). scope_check (se_Scope s))"
    by (simp add: ex_secret_world_def scope_check_def)
  then have "sm_Resolve ex_env True ex_module (ex_secret_world ''v'') (''tenant'' @ ''/'' @ ''t2'') ''A''
      = sm_Resolve ex_env True ex_module (ex_secret_world ''v'') ''global'' ''A''"
    by (rule scoped_resolution_is_global) simp
  then show ?thesis unfolding ex_resolve by simp
qed

theorem resolve_all_terminates_witness:
  "\<exists>r. ResolveAll ex_env True ex_module (ex_secret_world ''v'') ''global'' ''x=${SECRET:A};'' = Some r"
proof -
  have "\<forall>name val. sm_Resolve ex_env True ex_module (ex_secret_world ''v'') ''global'' name = Inr val \<longrightarrow> CHR ''$'' \<notin> set val"
    by (simp add: ex_resolve)
  from resolve_all_terminates[OF this] show ?thesis by blast
qed

theorem self_reference_diverges_witness:
  "ResolveAll ex_env True ex_module (ex_secret_world ''${SECRET:A}'') ''global'' ''x=${SECRET:A};'' = None"
proof -
  have "first_ref ''x=${SECRET:A};'' = Some (''x='', ''A'', '';'')" by code_simp
  moreover have "sm_Resolve ex_env True ex_module (ex_secret_world ''${SECRET:A}'') ''global'' ''A'' = Inr (''${SECRET:'' @ ''A'' @ ''}'')"
    by (simp add: ex_resolve)
  ultimately show ?thesis by (rule self_reference_diverges)
qed

end
