(* ===== verification/Scheduler.thy ===== *)
theory Scheduler
  imports Build_Queue
begin

text \<open>
  The job scheduler of \<open>internal/core/scheduler.go\<close>.

  Jobs are shared by pointer: the scheduler's map and the goroutines of running handlers refer to the same \<open>CronJob\<close>, so
  the state has a heap of jobs. Every goroutine is an element of a multiset; the step relation interleaves the calls of
  the scheduler's methods, the ticks of its loop, the end of handlers and \<open>wg.Done\<close>. A handler may return, fail or
  panic at any time, which is the same step. \<open>time.ParseDuration\<close>, whose fractions go through floating point, is the
  argument \<open>parseDuration\<close>; \<open>date now h m\<close> is \<open>time.Date\<close> on the local day of \<open>now\<close>. Times are nanoseconds.

  Shown here: when the next run is; that no job object has two handlers at once; that after Stop nothing runs; that
  a scheduler that is stopped drains; what a tick starts.
\<close>

section \<open>Schedules\<close>

definition schedulerTickInterval :: duration where
  "schedulerTickInterval = 30 * 1000000000"

definition defaultJobTimeout :: duration where
  "defaultJobTimeout = 30 * 60 * 1000000000"

definition hour :: duration where
  "hour = 3600 * 1000000000"

datatype hhmm_error = MissingColon | BadHour | BadMinute | HourRange | MinuteRange

definition parseHHMM :: "string \<Rightarrow> hhmm_error + int" where
  "parseHHMM s =
     (case indexOf s '':'' of
        None \<Rightarrow> Inl MissingColon
      | Some idx \<Rightarrow>
          (case atoi (trimSpace (take idx s)) of
             None \<Rightarrow> Inl BadHour
           | Some h \<Rightarrow>
               (case atoi (trimSpace (drop (idx + 1) s)) of
                  None \<Rightarrow> Inl BadMinute
                | Some m \<Rightarrow>
                    if h < 0 \<or> h > 23 then Inl HourRange
                    else if m < 0 \<or> m > 59 then Inl MinuteRange
                    else Inr (h * 60 + m))))"

record clockwork =
  cw_parseDuration :: "string \<Rightarrow> duration option"
  cw_date :: "time \<Rightarrow> int \<Rightarrow> int \<Rightarrow> time"

definition calcNextRun :: "clockwork \<Rightarrow> time \<Rightarrow> string \<Rightarrow> time" where
  "calcNextRun cw now schedule =
     (if hasPrefix schedule ''@every '' then
        (case cw_parseDuration cw (trimSpace (drop 7 schedule)) of Some dur \<Rightarrow> now + dur | None \<Rightarrow> now + hour)
      else if contains schedule '':'' then
        (case parseHHMM schedule of
           Inl e \<Rightarrow> now + hour
         | Inr mins \<Rightarrow>
             let next = cw_date cw now (mins div 60) (mins mod 60)
             in if \<not> next > now then next + 24 * hour else next)
      else now + hour)"

section \<open>The scheduler\<close>

record CronJob =
  cj_ID :: string
  cj_Name :: string
  cj_Schedule :: string
  cj_Timeout :: duration
  cj_LastRun :: time
  cj_NextRun :: time
  cj_Running :: bool
  cj_Enabled :: bool

type_synonym job_ptr = nat

datatype sc_thread =
    ScLoop \<comment> \<open>the loop, waiting for a tick or the stop channel\<close>
  | ScRun job_ptr \<comment> \<open>runJob, in the handler\<close>
  | ScFinished job_ptr \<comment> \<open>runJob, about to call wg.Done\<close>

record Scheduler =
  sc_heap :: "job_ptr \<rightharpoonup> CronJob"
  sc_jobs :: "string \<rightharpoonup> job_ptr"
  sc_started :: bool
  sc_stopped :: bool
  sc_wg :: nat
  sc_threads :: "sc_thread multiset"

definition NewScheduler :: Scheduler where
  "NewScheduler = \<lparr>sc_heap = Map.empty, sc_jobs = Map.empty, sc_started = False, sc_stopped = False, sc_wg = 0, sc_threads = {#}\<rparr>"

definition sc_Add :: "clockwork \<Rightarrow> time \<Rightarrow> string \<Rightarrow> job_ptr \<Rightarrow> Scheduler \<Rightarrow> Scheduler" where
  "sc_Add cw now fresh p s =
     (case sc_heap s p of
        None \<Rightarrow> s
      | Some job \<Rightarrow>
          let i = (if cj_ID job = [] then fresh else cj_ID job)
          in s\<lparr>sc_heap := (sc_heap s)(p \<mapsto> job\<lparr>cj_ID := i, cj_Enabled := True, cj_NextRun := calcNextRun cw now (cj_Schedule job)\<rparr>),
               sc_jobs := (sc_jobs s)(i \<mapsto> p)\<rparr>)"

definition sc_Remove :: "string \<Rightarrow> Scheduler \<Rightarrow> Scheduler" where
  "sc_Remove i s = s\<lparr>sc_jobs := (sc_jobs s)(i := None)\<rparr>"

definition sc_Start :: "Scheduler \<Rightarrow> Scheduler" where
  "sc_Start s =
     (if sc_started s \<or> sc_stopped s then s
      else s\<lparr>sc_started := True, sc_wg := sc_wg s + 1, sc_threads := add_mset ScLoop (sc_threads s)\<rparr>)"

definition sc_Stop :: "Scheduler \<Rightarrow> Scheduler" where
  "sc_Stop s = s\<lparr>sc_stopped := True\<rparr>"

text \<open>Stop returns when the wait group is at zero.\<close>

definition sc_Stop_returns :: "Scheduler \<Rightarrow> bool" where
  "sc_Stop_returns s \<longleftrightarrow> sc_stopped s \<and> sc_wg s = 0"

definition sc_Jobs :: "Scheduler \<Rightarrow> string list \<Rightarrow> CronJob list" where
  "sc_Jobs s order = List.map_filter (\<lambda>i. Option.bind (sc_jobs s i) (sc_heap s)) order"

definition job_due :: "time \<Rightarrow> CronJob \<Rightarrow> bool" where
  "job_due now job \<longleftrightarrow> \<not> (\<not> cj_Enabled job \<or> cj_Running job \<or> now < cj_NextRun job)"

definition sc_dispatch :: "time \<Rightarrow> string \<Rightarrow> Scheduler \<Rightarrow> Scheduler" where
  "sc_dispatch now i s =
     (case sc_jobs s i of
        None \<Rightarrow> s
      | Some p \<Rightarrow>
          (case sc_heap s p of
             None \<Rightarrow> s
           | Some job \<Rightarrow>
               if job_due now job
               then s\<lparr>sc_heap := (sc_heap s)(p \<mapsto> job\<lparr>cj_Running := True\<rparr>), sc_wg := sc_wg s + 1,
                      sc_threads := add_mset (ScRun p) (sc_threads s)\<rparr>
               else s))"

text \<open>A tick visits the jobs in the order of the map.\<close>

definition sc_tick :: "time \<Rightarrow> string list \<Rightarrow> Scheduler \<Rightarrow> Scheduler" where
  "sc_tick now order s = (if sc_stopped s then s else fold (sc_dispatch now) order s)"

definition job_timeout :: "CronJob \<Rightarrow> duration" where
  "job_timeout j = (if cj_Timeout j \<le> 0 then defaultJobTimeout else cj_Timeout j)"

text \<open>The deferred section of runJob, after the handler.\<close>

definition sc_finish :: "clockwork \<Rightarrow> time \<Rightarrow> job_ptr \<Rightarrow> Scheduler \<Rightarrow> Scheduler" where
  "sc_finish cw now p s =
     (case sc_heap s p of
        None \<Rightarrow> s
      | Some j \<Rightarrow>
          s\<lparr>sc_heap := (sc_heap s)(p \<mapsto> j\<lparr>cj_Running := False, cj_LastRun := now, cj_NextRun := calcNextRun cw now (cj_Schedule j)\<rparr>),
            sc_threads := add_mset (ScFinished p) (sc_threads s - {#ScRun p#})\<rparr>)"

inductive sc_work :: "clockwork \<Rightarrow> Scheduler \<Rightarrow> Scheduler \<Rightarrow> bool" for cw where
  sc_exit: "sc_stopped s \<Longrightarrow> ScLoop \<in># sc_threads s \<Longrightarrow>
    sc_work cw s (s\<lparr>sc_threads := sc_threads s - {#ScLoop#}, sc_wg := sc_wg s - 1\<rparr>)"
| sc_return: "ScRun p \<in># sc_threads s \<Longrightarrow> sc_work cw s (sc_finish cw now p s)"
| sc_done: "ScFinished p \<in># sc_threads s \<Longrightarrow>
    sc_work cw s (s\<lparr>sc_threads := sc_threads s - {#ScFinished p#}, sc_wg := sc_wg s - 1\<rparr>)"

text \<open>The loop ticks, its goroutines work, and it may be told to stop.\<close>

inductive sc_run :: "clockwork \<Rightarrow> Scheduler \<Rightarrow> Scheduler \<Rightarrow> bool" for cw where
  sc_working: "sc_work cw s s' \<Longrightarrow> sc_run cw s s'"
| sc_ticking: "ScLoop \<in># sc_threads s \<Longrightarrow> sc_run cw s (sc_tick now order s)"
| sc_stopping: "sc_run cw s (sc_Stop s)"

text \<open>A caller allocates a job and registers it; a new job is not running.\<close>

inductive sc_step :: "clockwork \<Rightarrow> Scheduler \<Rightarrow> Scheduler \<Rightarrow> bool" for cw where
  sc_running: "sc_run cw s s' \<Longrightarrow> sc_step cw s s'"
| sc_new: "sc_heap s p = None \<Longrightarrow> \<not> cj_Running job \<Longrightarrow> sc_step cw s (s\<lparr>sc_heap := (sc_heap s)(p \<mapsto> job)\<rparr>)"
| sc_add: "sc_step cw s (sc_Add cw now fresh p s)"
| sc_remove: "sc_step cw s (sc_Remove i s)"
| sc_start: "sc_step cw s (sc_Start s)"

section \<open>The invariant\<close>

definition sc_inv :: "Scheduler \<Rightarrow> bool" where
  "sc_inv s \<longleftrightarrow>
     sc_wg s = size (sc_threads s)
     \<and> count (sc_threads s) ScLoop \<le> 1 \<and> (ScLoop \<in># sc_threads s \<longrightarrow> sc_started s)
     \<and> (\<forall>p. count (sc_threads s) (ScRun p) = (case sc_heap s p of Some job \<Rightarrow> if cj_Running job then 1 else 0 | None \<Rightarrow> 0))
     \<and> ran (sc_jobs s) \<subseteq> dom (sc_heap s)"

lemma sc_inv_init: "sc_inv NewScheduler"
  by (simp add: sc_inv_def NewScheduler_def)

lemma sc_inv_dispatch: "sc_inv s \<Longrightarrow> sc_inv (sc_dispatch now i s)"
  by (auto simp: sc_inv_def sc_dispatch_def job_due_def split: option.splits)

lemma dispatch_frame [simp]:
  "sc_stopped (sc_dispatch now i s) = sc_stopped s" "sc_jobs (sc_dispatch now i s) = sc_jobs s" "sc_started (sc_dispatch now i s) = sc_started s"
  by (simp_all add: sc_dispatch_def split: option.splits)

lemma sc_inv_tick: "sc_inv s \<Longrightarrow> sc_inv (sc_tick now order s)"
proof -
  have "sc_inv s \<Longrightarrow> sc_inv (fold (sc_dispatch now) order s)" by (induction order arbitrary: s) (auto simp: sc_inv_dispatch)
  then show "sc_inv s \<Longrightarrow> sc_inv (sc_tick now order s)" by (simp add: sc_tick_def)
qed

lemma running_job:
  assumes "sc_inv s" "sc_threads s = add_mset (ScRun p) M"
  shows "\<exists>j. sc_heap s p = Some j \<and> cj_Running j \<and> count M (ScRun p) = 0"
proof -
  have "count (sc_threads s) (ScRun p) = (case sc_heap s p of Some job \<Rightarrow> if cj_Running job then 1 else 0 | None \<Rightarrow> 0)"
    using assms(1) unfolding sc_inv_def by blast
  then show ?thesis using assms(2) by (cases "sc_heap s p") (simp_all split: if_splits)
qed

lemma sc_inv_work: "sc_work cw s s' \<Longrightarrow> sc_inv s \<Longrightarrow> sc_inv s'"
proof (induction rule: sc_work.induct)
  case (sc_exit s)
  then obtain M where "sc_threads s = add_mset ScLoop M" using multi_member_split by metis
  then show ?case using sc_exit by (auto simp: sc_inv_def split: option.splits)
next
  case (sc_return p s now)
  then obtain M where M: "sc_threads s = add_mset (ScRun p) M" using multi_member_split by metis
  obtain j where "sc_heap s p = Some j" "cj_Running j" "count M (ScRun p) = 0" using running_job[OF sc_return(2) M] by blast
  moreover have "count M (ScRun q) = (case sc_heap s q of Some job \<Rightarrow> if cj_Running job then 1 else 0 | None \<Rightarrow> 0)" if "q \<noteq> p" for q
    using sc_return(2) that unfolding sc_inv_def M by (metis count_add_mset sc_thread.inject(1))
  ultimately show ?case using sc_return M by (simp add: sc_inv_def sc_finish_def dom_def) blast
next
  case (sc_done p s)
  then obtain M where "sc_threads s = add_mset (ScFinished p) M" using multi_member_split by metis
  then show ?case using sc_done by (auto simp: sc_inv_def)
qed

lemma sc_inv_run: "sc_run cw s s' \<Longrightarrow> sc_inv s \<Longrightarrow> sc_inv s'"
  by (induction rule: sc_run.induct) (auto simp: sc_inv_work sc_inv_tick, simp add: sc_inv_def sc_Stop_def)

lemma sc_inv_step: "sc_step cw s s' \<Longrightarrow> sc_inv s \<Longrightarrow> sc_inv s'"
proof (induction rule: sc_step.induct)
  case (sc_running s s')
  then show ?case by (rule sc_inv_run)
next
  case (sc_new s p job)
  then show ?case by (auto simp: sc_inv_def)
next
  case (sc_add s now fresh p)
  then show ?case by (auto simp: sc_inv_def sc_Add_def Let_def ran_def split: option.splits)
next
  case (sc_start s)
  then show ?case by (auto simp: sc_inv_def sc_Start_def not_in_iff split: option.splits)
qed (auto simp: sc_inv_def sc_Remove_def ran_def)

lemma sc_inv_reach: "(sc_step cw)\<^sup>*\<^sup>* NewScheduler s \<Longrightarrow> sc_inv s"
  by (induction rule: rtranclp_induct) (auto simp: sc_inv_init sc_inv_step)

section \<open>Stopping\<close>

lemma stopped_step: "sc_step cw s s' \<Longrightarrow> sc_stopped s \<Longrightarrow> sc_stopped s'"
  by (auto simp: sc_tick_def sc_Stop_def sc_Add_def sc_Remove_def sc_Start_def sc_finish_def Let_def
      elim!: sc_step.cases sc_run.cases sc_work.cases split: option.splits)

text \<open>No thread and a stopped scheduler: nothing starts any more.\<close>

lemma quiet_step:
  assumes "sc_step cw s s'" "sc_stopped s" "sc_threads s = {#}" "sc_wg s = 0"
  shows "sc_threads s' = {#} \<and> sc_wg s' = 0"
  using assms
  by (auto simp: sc_tick_def sc_Stop_def sc_Add_def sc_Remove_def sc_Start_def Let_def
      elim!: sc_step.cases sc_run.cases sc_work.cases split: option.splits)

lemma quiet_steps:
  assumes "(sc_step cw)\<^sup>*\<^sup>* s s'" "sc_stopped s" "sc_threads s = {#}" "sc_wg s = 0"
  shows "sc_stopped s' \<and> sc_threads s' = {#} \<and> sc_wg s' = 0"
  using assms by (induction rule: rtranclp_induct) (auto dest: stopped_step quiet_step)

text \<open>
  C32. In every interleaving of registrations, removals, ticks, handlers and Stop: no job object has more than one
  handler at a time, exactly the ones marked as running have one, there is at most one loop, the wait group counts the
  goroutines, and once Stop has returned no handler and no loop exists in any later state, a later Start included.
\<close>

theorem scheduler_exclusive:
  assumes "(sc_step cw)\<^sup>*\<^sup>* NewScheduler s"
  shows "count (sc_threads s) (ScRun p) \<le> 1
    \<and> (ScRun p \<in># sc_threads s \<longleftrightarrow> (\<exists>job. sc_heap s p = Some job \<and> cj_Running job))
    \<and> count (sc_threads s) ScLoop \<le> 1 \<and> sc_wg s = size (sc_threads s)
    \<and> (sc_Stop_returns s \<longrightarrow> (\<forall>s'. (sc_step cw)\<^sup>*\<^sup>* s s' \<longrightarrow> sc_threads s' = {#}))"
proof -
  have inv: "sc_inv s" using assms by (rule sc_inv_reach)
  then have c: "count (sc_threads s) (ScRun p) = (case sc_heap s p of Some job \<Rightarrow> if cj_Running job then 1 else 0 | None \<Rightarrow> 0)"
    unfolding sc_inv_def by blast
  then have "ScRun p \<in># sc_threads s \<longleftrightarrow> (\<exists>job. sc_heap s p = Some job \<and> cj_Running job)"
    by (auto simp flip: count_greater_zero_iff split: option.splits)
  moreover have "sc_threads s' = {#}" if "sc_Stop_returns s" "(sc_step cw)\<^sup>*\<^sup>* s s'" for s'
    using quiet_steps[OF that(2)] that(1) inv by (auto simp: sc_Stop_returns_def sc_inv_def)
  ultimately show ?thesis using c inv by (auto simp: sc_inv_def split: option.splits)
qed

subsection \<open>Draining\<close>

definition sc_load :: "Scheduler \<Rightarrow> nat" where
  "sc_load s = (\<Sum>t\<in>#sc_threads s. case t of ScRun p \<Rightarrow> 2 | _ \<Rightarrow> 1)"

lemma sc_load_work:
  assumes "sc_work cw s s'" "sc_inv s"
  shows "sc_load s' < sc_load s"
  using assms
proof (induction rule: sc_work.induct)
  case (sc_exit s)
  then obtain M where "sc_threads s = add_mset ScLoop M" using multi_member_split by metis
  then show ?case by (simp add: sc_load_def)
next
  case (sc_return p s now)
  then obtain M where M: "sc_threads s = add_mset (ScRun p) M" using multi_member_split by metis
  then obtain j where "sc_heap s p = Some j" using running_job[OF sc_return(2) M] by blast
  then show ?case using M by (simp add: sc_load_def sc_finish_def)
next
  case (sc_done p s)
  then obtain M where "sc_threads s = add_mset (ScFinished p) M" using multi_member_split by metis
  then show ?case by (simp add: sc_load_def)
qed

lemma sc_progress:
  assumes "sc_inv s" "0 < sc_wg s"
  shows "\<exists>s'. sc_run cw s s' \<and> s' \<noteq> s"
proof (cases "sc_stopped s")
  case False
  then have "sc_Stop s \<noteq> s" by (metis Scheduler.select_convs(4) Scheduler.surjective Scheduler.update_convs(4) sc_Stop_def)
  then show ?thesis using sc_stopping by blast
next
  case True
  have "sc_threads s \<noteq> {#}" using assms by (auto simp: sc_inv_def)
  then obtain t where "t \<in># sc_threads s" by blast
  then obtain s' where "sc_work cw s s'" using True by (cases t) (auto intro: sc_work.intros)
  then show ?thesis using sc_load_work[OF _ assms(1)] sc_working by (metis less_irrefl)
qed

interpretation scheduler: drain_system "sc_run cw" sc_inv sc_stopped sc_wg sc_load for cw
proof
  fix s s' assume "sc_inv s" "sc_stopped s" "sc_run cw s s'" "s' \<noteq> s"
  then show "sc_load s' < sc_load s"
    using sc_load_work by (auto simp: sc_tick_def sc_Stop_def elim!: sc_run.cases)
next
  fix s s' show "sc_stopped s \<Longrightarrow> sc_run cw s s' \<Longrightarrow> sc_stopped s'" using stopped_step sc_running by blast
qed (auto intro: sc_inv_run sc_progress)

text \<open>
  Stop does not wait forever as long as handlers return: from every reachable state in which the scheduler is
  stopped the goroutines can run to the state in which Stop returns, and however they are interleaved they reach rest within
  a number of steps that their present number bounds.
\<close>

theorem scheduler_stop_drains:
  assumes "(sc_step cw)\<^sup>*\<^sup>* NewScheduler s" "sc_stopped s"
  shows "(\<exists>s'. (sc_run cw)\<^sup>*\<^sup>* s s' \<and> sc_Stop_returns s')
    \<and> (\<forall>f n. f 0 = s \<and> (\<forall>i<n. sc_run cw (f i) (f (Suc i)) \<and> f (Suc i) \<noteq> f i) \<longrightarrow> n \<le> sc_load s)"
proof -
  have inv: "sc_inv s" using assms(1) by (rule sc_inv_reach)
  obtain s' where s': "(sc_run cw)\<^sup>*\<^sup>* s s'" "sc_wg s' = 0" using scheduler.drains[OF inv assms(2)] by blast
  have "sc_stopped s'" using s'(1) assms(2)
    by (induction rule: rtranclp_induct) (auto intro: stopped_step sc_running)
  then show ?thesis using s' scheduler.drain_bounded inv assms(2) by (auto simp: sc_Stop_returns_def)
qed

section \<open>Ticks\<close>

definition due_ptrs :: "time \<Rightarrow> string list \<Rightarrow> Scheduler \<Rightarrow> job_ptr set" where
  "due_ptrs now order s = {p. \<exists>i\<in>set order. sc_jobs s i = Some p \<and> (\<exists>job. sc_heap s p = Some job \<and> job_due now job)}"

definition mark_running :: "job_ptr set \<Rightarrow> Scheduler \<Rightarrow> Scheduler" where
  "mark_running D s =
     s\<lparr>sc_heap := (\<lambda>p. if p \<in> D then map_option (\<lambda>job. job\<lparr>cj_Running := True\<rparr>) (sc_heap s p) else sc_heap s p),
       sc_wg := sc_wg s + card D, sc_threads := sc_threads s + image_mset ScRun (mset_set D)\<rparr>"

lemma finite_due: "finite (due_ptrs now order s)"
proof -
  have "due_ptrs now order s \<subseteq> (\<lambda>i. the (sc_jobs s i)) ` set order" by (force simp: due_ptrs_def)
  then show ?thesis using finite_surj by blast
qed

lemma dispatch_due:
  "fold (sc_dispatch now) order s = mark_running (due_ptrs now order s) s"
proof (induction order rule: rev_induct)
  case Nil
  then show ?case by (simp add: due_ptrs_def mark_running_def)
next
  case (snoc i order)
  let ?D = "due_ptrs now order s"
  show ?case
  proof (cases "\<exists>p job. sc_jobs s i = Some p \<and> sc_heap s p = Some job \<and> job_due now job \<and> p \<notin> ?D")
    case True
    then obtain p job where p: "sc_jobs s i = Some p" "sc_heap s p = Some job" "job_due now job" "p \<notin> ?D" by blast
    then have D: "due_ptrs now (order @ [i]) s = insert p ?D" by (auto simp: due_ptrs_def)
    have "sc_dispatch now i (mark_running ?D s) = mark_running (insert p ?D) s"
      using p finite_due[of now order s] by (auto simp: sc_dispatch_def mark_running_def fun_eq_iff)
    then show ?thesis using snoc D by simp
  next
    case False
    then have D: "due_ptrs now (order @ [i]) s = ?D" by (fastforce simp: due_ptrs_def)
    have "sc_dispatch now i (mark_running ?D s) = mark_running ?D s"
      using False by (auto simp: sc_dispatch_def mark_running_def job_due_def split: option.splits)
    then show ?thesis using snoc D by simp
  qed
qed

text \<open>
  C33. A tick of a running scheduler starts exactly the jobs that are due: for every registered job that is enabled, idle
  and not before its time it starts one handler and marks it, in whatever order the map is visited; everything else
  stays as it was, and a stopped scheduler starts nothing.
\<close>

theorem tick_starts_due_jobs:
  assumes "dom (sc_jobs s) = set order"
  shows "sc_tick now order s =
    (if sc_stopped s then s
     else mark_running {p \<in> ran (sc_jobs s). \<exists>job. sc_heap s p = Some job \<and> cj_Enabled job \<and> \<not> cj_Running job \<and> cj_NextRun job \<le> now} s)"
proof -
  have "due_ptrs now order s = {p \<in> ran (sc_jobs s). \<exists>job. sc_heap s p = Some job \<and> cj_Enabled job \<and> \<not> cj_Running job \<and> cj_NextRun job \<le> now}"
    using assms by (auto simp: due_ptrs_def job_due_def ran_def)
  then show ?thesis by (simp add: sc_tick_def dispatch_due)
qed

section \<open>The next run\<close>

definition day_ok :: "clockwork \<Rightarrow> bool" where
  "day_ok cw \<longleftrightarrow> (\<forall>now h m. 0 \<le> h \<and> h < 24 \<and> 0 \<le> m \<and> m < 60 \<longrightarrow> now - 24 * hour < cw_date cw now h m \<and> cw_date cw now h m < now + 24 * hour)"

lemma parseHHMM_range: "parseHHMM s = Inr mins \<Longrightarrow> 0 \<le> mins \<and> mins < 24 * 60"
  by (auto simp: parseHHMM_def split: option.splits if_splits)

text \<open>
  The next run is always in the future on days of twenty-four hours: a well-formed daily time gives the next moment
  with that wall-clock time, within a day, a positive interval gives exactly that interval, and everything else an hour.
\<close>

theorem next_run_in_future:
  assumes "day_ok cw" "\<forall>d. cw_parseDuration cw (trimSpace (drop 7 schedule)) = Some d \<longrightarrow> 0 < d"
  shows "now < calcNextRun cw now schedule
    \<and> (hasPrefix schedule ''@every '' \<longrightarrow>
        calcNextRun cw now schedule = now + (case cw_parseDuration cw (trimSpace (drop 7 schedule)) of Some d \<Rightarrow> d | None \<Rightarrow> hour))
    \<and> (\<not> hasPrefix schedule ''@every '' \<longrightarrow> calcNextRun cw now schedule \<le> now + 24 * hour
        \<and> (\<forall>mins. parseHHMM schedule = Inr mins \<longrightarrow>
             (\<exists>k\<in>{0, 1}. calcNextRun cw now schedule = cw_date cw now (mins div 60) (mins mod 60) + k * (24 * hour))))"
proof -
  have hr: "0 < hour" by (simp add: hour_def)
  have colon: "contains schedule '':''" if "parseHHMM schedule = Inr mins" for mins
    using that by (auto simp: parseHHMM_def contains_def split: option.splits)
  have day: "now - 24 * hour < cw_date cw now (mins div 60) (mins mod 60) \<and> cw_date cw now (mins div 60) (mins mod 60) < now + 24 * hour"
    if "parseHHMM schedule = Inr mins" for mins
  proof -
    have "0 \<le> mins div 60" "mins div 60 < 24" "0 \<le> mins mod 60" "mins mod 60 < 60" using parseHHMM_range[OF that] by auto
    then show ?thesis using assms(1) unfolding day_ok_def by blast
  qed
  show ?thesis
    using assms(2) hr day colon
    by (cases "parseHHMM schedule") (auto simp: calcNextRun_def Let_def split: option.splits)
qed

section \<open>An instance\<close>

definition ex_clock :: clockwork where
  "ex_clock = \<lparr>cw_parseDuration = (\<lambda>d. if d = ''5m'' then Some (300 * 1000000000) else None),
     cw_date = (\<lambda>now h m. now div (24 * hour) * (24 * hour) + (h * 60 + m) * (60 * 1000000000))\<rparr>"

lemma ex_clock_day: "day_ok ex_clock"
proof -
  have h: "24 * hour = 86400000000000" by (simp add: hour_def)
  have "now - 24 * hour < cw_date ex_clock now h m \<and> cw_date ex_clock now h m < now + 24 * hour"
    if "0 \<le> h" "h < 24" "0 \<le> m" "m < 60" for now h m
  proof -
    have "now div 86400000000000 * 86400000000000 \<le> now" "now < now div 86400000000000 * 86400000000000 + 86400000000000"
      using div_mult_mod_eq[of now 86400000000000] pos_mod_bound[of 86400000000000 now] pos_mod_sign[of 86400000000000 now] by linarith+
    then show ?thesis using that by (simp add: ex_clock_def h)
  qed
  then show ?thesis by (simp add: day_ok_def)
qed

definition ex_job :: CronJob where
  "ex_job = \<lparr>cj_ID = ''j'', cj_Name = ''j'', cj_Schedule = ''@every 5m'', cj_Timeout = 0, cj_LastRun = 0, cj_NextRun = 0,
     cj_Running = False, cj_Enabled = True\<rparr>"

text \<open>A job is registered, the loop starts and ticks six minutes later.\<close>

definition ex_registered :: Scheduler where
  "ex_registered = sc_Start (sc_Add ex_clock 0 ''f'' 0 (NewScheduler\<lparr>sc_heap := (sc_heap NewScheduler)(0 \<mapsto> ex_job)\<rparr>))"

definition ex_ticked :: Scheduler where
  "ex_ticked = sc_tick (360 * 1000000000) [''j''] ex_registered"

lemma ex_registered_eq:
  "ex_registered = \<lparr>sc_heap = [0 \<mapsto> ex_job\<lparr>cj_NextRun := 300 * 1000000000\<rparr>], sc_jobs = [''j'' \<mapsto> 0], sc_started = True, sc_stopped = False,
     sc_wg = 1, sc_threads = {#ScLoop#}\<rparr>"
  by (simp add: ex_registered_def NewScheduler_def sc_Add_def ex_job_def sc_Start_def calcNextRun_def hasPrefix_def ex_clock_def trimSpace_def
      trimLeftP_def trimRightP_def isSpaceByte_def Let_def)

lemma ex_ticked_eq:
  "ex_ticked = \<lparr>sc_heap = [0 \<mapsto> ex_job\<lparr>cj_NextRun := 300 * 1000000000, cj_Running := True\<rparr>], sc_jobs = [''j'' \<mapsto> 0], sc_started = True,
     sc_stopped = False, sc_wg = 2, sc_threads = {#ScRun 0, ScLoop#}\<rparr>"
  by (simp add: ex_ticked_def ex_registered_eq sc_tick_def sc_dispatch_def job_due_def ex_job_def)

lemma ex_registered_reach: "(sc_step ex_clock)\<^sup>*\<^sup>* NewScheduler ex_registered"
proof -
  let ?a = "NewScheduler\<lparr>sc_heap := (sc_heap NewScheduler)(0 \<mapsto> ex_job)\<rparr>"
  have "sc_step ex_clock NewScheduler ?a" by (rule sc_new) (simp_all add: NewScheduler_def ex_job_def)
  then show ?thesis unfolding ex_registered_def
    by (meson sc_add sc_start r_into_rtranclp rtranclp.rtrancl_into_rtrancl)
qed

lemma ex_ticked_reach: "(sc_step ex_clock)\<^sup>*\<^sup>* NewScheduler ex_ticked"
proof -
  have "sc_step ex_clock ex_registered ex_ticked"
    unfolding ex_ticked_def by (intro sc_running sc_ticking) (simp add: ex_registered_eq)
  then show ?thesis using ex_registered_reach by (rule rtranclp.rtrancl_into_rtrancl[rotated])
qed

theorem scheduler_exclusive_witness:
  "(sc_step ex_clock)\<^sup>*\<^sup>* NewScheduler ex_ticked \<and> ScRun 0 \<in># sc_threads ex_ticked \<and> count (sc_threads ex_ticked) (ScRun 0) \<le> 1"
  using ex_ticked_reach scheduler_exclusive[OF ex_ticked_reach, of 0] by (simp add: ex_ticked_eq)

theorem scheduler_stop_drains_witness:
  "\<exists>s'. (sc_run ex_clock)\<^sup>*\<^sup>* (sc_Stop ex_ticked) s' \<and> sc_Stop_returns s'"
proof -
  have "sc_step ex_clock ex_ticked (sc_Stop ex_ticked)" by (intro sc_running sc_stopping)
  then have "(sc_step ex_clock)\<^sup>*\<^sup>* NewScheduler (sc_Stop ex_ticked)" using ex_ticked_reach by (rule rtranclp.rtrancl_into_rtrancl[rotated])
  from scheduler_stop_drains[OF this] show ?thesis by (simp add: sc_Stop_def)
qed

theorem tick_starts_due_jobs_witness:
  "sc_tick (360 * 1000000000) [''j''] ex_registered = mark_running {0} ex_registered"
proof -
  have "dom (sc_jobs ex_registered) = set [''j'']" by (simp add: ex_registered_eq)
  moreover have "{p \<in> ran (sc_jobs ex_registered). \<exists>job. sc_heap ex_registered p = Some job \<and> cj_Enabled job \<and> \<not> cj_Running job
      \<and> cj_NextRun job \<le> 360 * 1000000000} = {0}"
    by (auto simp: ex_registered_eq ex_job_def)
  ultimately show ?thesis using tick_starts_due_jobs[of ex_registered "[''j'']" "360 * 1000000000"] by (simp add: ex_registered_eq)
qed

theorem next_run_in_future_witness:
  "0 < calcNextRun ex_clock 0 ''@every 5m'' \<and> calcNextRun ex_clock 0 ''@every 5m'' = 300 * 1000000000
   \<and> calcNextRun ex_clock 0 ''00:00'' \<le> 24 * hour"
proof -
  have t: "trimSpace (drop 7 ''@every 5m'') = ''5m''" by code_simp
  have "hasPrefix ''@every 5m'' ''@every ''" "\<not> hasPrefix ''00:00'' ''@every ''" by code_simp+
  moreover have "\<forall>d. cw_parseDuration ex_clock (trimSpace (drop 7 ''@every 5m'')) = Some d \<longrightarrow> 0 < d"
    "\<forall>d. cw_parseDuration ex_clock (trimSpace (drop 7 ''00:00'')) = Some d \<longrightarrow> 0 < d" by (simp_all add: ex_clock_def)
  ultimately show ?thesis
    using next_run_in_future[OF ex_clock_day, of "''@every 5m''" 0] next_run_in_future[OF ex_clock_day, of "''00:00''" 0]
    unfolding t by (simp add: ex_clock_def)
qed

end
