(* ===== verification/Command_Policy.thy ===== *)
theory Command_Policy
  imports Prelude
begin

text \<open>
  The policy for commands that run in containers, \<open>internal/core/command_safety.go\<close>.

  A command is split byte by byte; each byte is written as a rune, so a byte from 128 on becomes two. Both tables of the policy
  are lists.

  Shown here: quoting inverts splitting; which argument lists the policy accepts, stated by argument; what passes it.
\<close>

section \<open>Splitting\<close>

definition write_rune :: "char \<Rightarrow> string" where
  "write_rune c =
     (let n = of_char c :: nat in if n < 128 then [c] else [char_of (192 + n div 64), char_of (128 + n mod 64)])"

definition quote_char :: "char \<Rightarrow> bool" where
  "quote_char c \<longleftrightarrow> of_char c \<in> {39, 34 :: nat}"

definition blank_char :: "char \<Rightarrow> bool" where
  "blank_char c \<longleftrightarrow> of_char c \<in> {32, 9, 10, 13 :: nat}"

fun split_loop :: "char option \<Rightarrow> string \<Rightarrow> string \<Rightarrow> string list" where
  "split_loop inQuote current [] = (if current \<noteq> [] then [current] else [])"
| "split_loop (Some q) current (ch # s) =
     (if ch = q then split_loop None current s else split_loop (Some q) (current @ write_rune ch) s)"
| "split_loop None current (ch # s) =
     (if quote_char ch then split_loop (Some ch) current s
      else if blank_char ch then (if current \<noteq> [] then current # split_loop None [] s else split_loop None [] s)
      else split_loop None (current @ write_rune ch) s)"

definition SplitCommand :: "string \<Rightarrow> string list" where
  "SplitCommand cmd = (case split_loop None [] cmd of [] \<Rightarrow> [''/bin/true''] | tokens \<Rightarrow> tokens)"

section \<open>The policy\<close>

definition allowedExecCommands :: "string list" where
  "allowedExecCommands =
     [''ls'', ''ll'', ''la'', ''dir'', ''find'', ''stat'', ''cat'', ''head'', ''tail'', ''grep'', ''egrep'', ''awk'', ''sed'', ''cut'',
      ''sort'', ''uniq'', ''wc'', ''tr'', ''base64'', ''pwd'', ''cd'', ''echo'', ''printf'', ''env'', ''printenv'', ''id'', ''whoami'',
      ''hostname'', ''uname'', ''uptime'', ''date'', ''ps'', ''top'', ''htop'', ''kill'', ''pkill'', ''killall'', ''sleep'', ''watch'',
      ''ping'', ''ping6'', ''curl'', ''wget'', ''nc'', ''netcat'', ''ssh'', ''scp'', ''rsync'', ''dig'', ''nslookup'', ''host'', ''df'', ''du'',
      ''mount'', ''umount'', ''ln'', ''mkdir'', ''touch'', ''file'', ''tar'', ''gzip'', ''gunzip'', ''zip'', ''unzip'', ''apt'', ''apt-get'',
      ''yum'', ''dnf'', ''apk'', ''pacman'', ''sh'', ''bash'', ''zsh'', ''fish'', ''python'', ''python3'', ''node'', ''ruby'', ''perl'', ''php'',
      ''lua'', ''vi'', ''vim'', ''nano'', ''emacs'', ''ed'', ''true'', ''false'', ''yes'', ''seq'', ''expr'', ''test'']"

definition blockedExecCommandFlags :: "(string \<times> string list) list" where
  "blockedExecCommandFlags =
     [(''sh'', [''-c'', ''-lc'']), (''bash'', [''-c'', ''-lc'']), (''zsh'', [''-c'', ''-lc'']), (''fish'', [''-c'']), (''python'', [''-c'']),
      (''python3'', [''-c'']), (''node'', [''-e'', ''--eval'']), (''ruby'', [''-e'']), (''perl'', [''-e'']),
      (''php'', [''-r'', ''-B'', ''-R'', ''-E'']), (''lua'', [''-e''])]"

text \<open>The part behind the last slash.\<close>

definition base_name :: "string \<Rightarrow> string" where
  "base_name s = rev (takeWhile (\<lambda>c. c \<noteq> CHR ''/'') (rev s))"

definition blocked_operators :: "string list" where
  "blocked_operators = [''&&'', ''||'', ''|'', '';'', ''$('', ''`'']"

definition CommandTokensSafe :: "string list \<Rightarrow> bool" where
  "CommandTokensSafe tokens =
     (case tokens of
        [] \<Rightarrow> False
      | first # args \<Rightarrow>
          let base = toLower (base_name first)
          in if base \<notin> set allowedExecCommands then False
             else if (case map_of blockedExecCommandFlags base of None \<Rightarrow> False | Some flags \<Rightarrow> \<exists>arg\<in>set args. arg \<in> set flags) then False
             else let cmdLower = toLower (joinWith '' '' tokens)
                  in \<not> (\<exists>b\<in>set blocked_operators. contains cmdLower b))"

definition CommandSafe :: "string \<Rightarrow> bool" where
  "CommandSafe cmd = CommandTokensSafe (SplitCommand cmd)"

section \<open>Quoting inverts splitting\<close>

definition quote_token :: "string \<Rightarrow> string" where
  "quote_token t = char_of (39 :: nat) # t @ [char_of (39 :: nat)]"

definition plain_token :: "string \<Rightarrow> bool" where
  "plain_token t \<longleftrightarrow> t \<noteq> [] \<and> (\<forall>c\<in>set t. of_char c < (128 :: nat) \<and> of_char c \<noteq> (39 :: nat))"

lemma quote_facts: "quote_char (char_of (39 :: nat))" "\<not> quote_char CHR '' ''" "blank_char CHR '' ''"
  by (simp_all add: quote_char_def blank_char_def)

lemma split_quoted:
  assumes "\<forall>c\<in>set t. of_char c < (128 :: nat) \<and> of_char c \<noteq> (39 :: nat)"
  shows "split_loop (Some (char_of (39 :: nat))) current (t @ char_of (39 :: nat) # s) = split_loop None (current @ t) s"
  using assms
proof (induction t arbitrary: current)
  case (Cons c t)
  then have "c \<noteq> char_of (39 :: nat)" "write_rune c = [c]" by (auto simp: write_rune_def)
  then show ?case using Cons by simp
qed simp

lemma split_quote_token:
  assumes "plain_token t"
  shows "split_loop None [] (quote_token t @ s) = split_loop None t s"
  using assms split_quoted[of t "[]" s] by (simp add: quote_token_def plain_token_def quote_facts)

lemma split_joined:
  assumes "\<forall>t\<in>set ts. plain_token t" "ts \<noteq> []"
  shows "split_loop None [] (joinWith '' '' (map quote_token ts)) = ts"
  using assms
proof (induction ts)
  case (Cons t ts)
  have ne: "t \<noteq> []" using Cons.prems by (simp add: plain_token_def)
  show ?case
  proof (cases ts)
    case Nil
    then show ?thesis using Cons.prems split_quote_token[of t "[]"] ne by (simp add: joinWith_def)
  next
    case (Cons u us)
    have "joinWith '' '' (map quote_token (t # ts)) = quote_token t @ '' '' @ joinWith '' '' (map quote_token ts)"
      by (simp add: joinWith_def Cons)
    then show ?thesis using Cons.IH Cons.prems split_quote_token[of t] ne Cons by (simp add: quote_facts)
  qed
qed simp



section \<open>What the policy accepts\<close>

lemma contains_Cons: "contains (c # s) p \<longleftrightarrow> hasPrefix (c # s) p \<or> contains s p"
  by (auto simp: contains_def)

lemma prefix_sep: "sep \<notin> set p \<Longrightarrow> hasPrefix (a @ sep # b) p \<longleftrightarrow> hasPrefix a p"
proof (induction p arbitrary: a)
  case (Cons x p)
  then show ?case by (cases a) (auto simp: hasPrefix_def)
qed simp

lemma contains_sep: "sep \<notin> set p \<Longrightarrow> p \<noteq> [] \<Longrightarrow> contains (a @ sep # b) p \<longleftrightarrow> contains a p \<or> contains b p"
proof (induction a)
  case Nil
  have "\<not> hasPrefix (sep # b) p" using Nil prefix_sep[of sep p "[]" b] by (simp add: hasPrefix_def)
  moreover have "\<not> contains [] p" using Nil by (simp add: contains_def)
  ultimately show ?case by (simp add: contains_Cons)
next
  case (Cons c a)
  then show ?case using prefix_sep[of sep p "c # a" b] by (simp add: contains_Cons)
qed

lemma contains_join:
  assumes "CHR '' '' \<notin> set p" "p \<noteq> []"
  shows "contains (joinWith '' '' ts) p \<longleftrightarrow> (\<exists>t\<in>set ts. contains t p)"
proof (induction ts)
  case Nil
  then show ?case using assms by (simp add: joinWith_def contains_def)
next
  case (Cons t ts)
  show ?case
  proof (cases ts)
    case Nil
    then show ?thesis by (simp add: joinWith_def)
  next
    case (Cons u us)
    then have "joinWith '' '' (t # ts) = t @ CHR '' '' # joinWith '' '' ts" by (simp add: joinWith_def)
    then show ?thesis using Cons.IH contains_sep[OF assms] Cons by auto
  qed
qed

lemma contains_map:
  assumes "\<forall>c. \<forall>x\<in>set p. f c = x \<longleftrightarrow> c = x"
  shows "contains (map f s) p \<longleftrightarrow> contains s p"
proof -
  have "hasPrefix (map f s) p \<longleftrightarrow> hasPrefix s p" for s
    using assms
  proof (induction p arbitrary: s)
    case (Cons x p)
    then show ?case by (cases s) (auto simp: hasPrefix_def)
  qed simp
  then show ?thesis
  proof (induction s)
    case (Cons c s)
    then show ?case using Cons.prems[of "c # s"] by (simp add: contains_Cons)
  qed (simp add: contains_def)
qed

lemma toLowerByte_keeps: "x \<in> {CHR ''&'', CHR ''|'', CHR '';'', CHR ''$'', CHR ''('', CHR ''`''} \<Longrightarrow> toLowerByte c = x \<longleftrightarrow> c = x"
  by (auto simp: toLowerByte_def Let_def dest!: arg_cong[where f = "of_char :: char \<Rightarrow> nat"])

lemma toLower_join: "toLower (joinWith '' '' ts) = joinWith '' '' (map toLower ts)"
proof -
  have "toLowerByte CHR '' '' = CHR '' ''" by (simp add: toLowerByte_def)
  then show ?thesis by (cases ts) (simp_all add: joinWith_def toLower_def map_concat comp_def)
qed

definition operator_free :: "string \<Rightarrow> bool" where
  "operator_free t \<longleftrightarrow> CHR ''|'' \<notin> set t \<and> CHR '';'' \<notin> set t \<and> CHR ''`'' \<notin> set t \<and> \<not> contains t ''&&'' \<and> \<not> contains t ''$(''"

lemma contains_char: "contains t [c] \<longleftrightarrow> c \<in> set t"
  unfolding contains_iff by (auto dest: split_list)

lemma operator_free_iff: "operator_free t \<longleftrightarrow> (\<forall>b\<in>set blocked_operators. \<not> contains t b)"
proof -
  have "contains t ''||'' \<Longrightarrow> CHR ''|'' \<in> set t" by (auto simp: contains_iff)
  then show ?thesis by (simp add: blocked_operators_def operator_free_def contains_char) blast
qed

lemma operator_chars: "b \<in> set blocked_operators \<Longrightarrow> b \<noteq> [] \<and> set b \<subseteq> {CHR ''&'', CHR ''|'', CHR '';'', CHR ''$'', CHR ''('', CHR ''`''}"
  by (auto simp: blocked_operators_def)

lemma operator_join:
  assumes "b \<in> set blocked_operators"
  shows "contains (toLower (joinWith '' '' ts)) b \<longleftrightarrow> (\<exists>t\<in>set ts. contains t b)"
proof -
  have low: "contains (toLower t) b \<longleftrightarrow> contains t b" for t
    unfolding toLower_def by (rule contains_map) (use operator_chars[OF assms] toLowerByte_keeps in blast)
  have "CHR '' '' \<notin> set b" "b \<noteq> []" using operator_chars[OF assms] by auto
  from contains_join[OF this, of "map toLower ts"] show ?thesis unfolding toLower_join by (simp add: low)
qed

lemma operators_join: "\<not> (\<exists>b\<in>set blocked_operators. contains (toLower (joinWith '' '' ts)) b) \<longleftrightarrow> (\<forall>t\<in>set ts. operator_free t)"
  unfolding operator_free_iff using operator_join by blast

text \<open>
  C35. The policy for commands, argument by argument: a command passes exactly when the lower-cased name behind its last
  slash is listed, none of its arguments is a blocked flag of that name, and no word of it contains a pipe, a
  semicolon, a backquote, a double ampersand or the opening of a command substitution.
\<close>

theorem command_policy_exact:
  "CommandTokensSafe tokens \<longleftrightarrow>
     (\<exists>first args. tokens = first # args \<and> toLower (base_name first) \<in> set allowedExecCommands
        \<and> (\<forall>flags. map_of blockedExecCommandFlags (toLower (base_name first)) = Some flags \<longrightarrow> set args \<inter> set flags = {})
        \<and> (\<forall>t\<in>set tokens. operator_free t))"
proof (cases tokens)
  case (Cons first args)
  then show ?thesis
    using operators_join[of tokens] by (auto simp: CommandTokensSafe_def Let_def split: option.splits)
qed (simp add: CommandTokensSafe_def)

theorem command_policy_exact_witness:
  "\<not> CommandTokensSafe [''SH'', ''-c'', ''ls''] \<and> CommandTokensSafe [''/bin/ls'', ''-la'']"
proof -
  have base: "toLower (base_name ''SH'') = ''sh''" "toLower (base_name ''/bin/ls'') = ''ls''" by code_simp+
  have "operator_free ''/bin/ls''" "operator_free ''-la''" by (simp_all add: operator_free_def contains_def hasPrefix_def)
  moreover have "map_of blockedExecCommandFlags ''sh'' = Some [''-c'', ''-lc'']" "map_of blockedExecCommandFlags ''ls'' = None"
    "''ls'' \<in> set allowedExecCommands"
    by (simp_all add: blockedExecCommandFlags_def allowedExecCommands_def)
  ultimately show ?thesis using command_policy_exact[of "[''SH'', ''-c'', ''ls'']"] command_policy_exact[of "[''/bin/ls'', ''-la'']"]
    by (simp add: base)
qed

text \<open>
  The blocked flags are not enforced: a listed command that runs another one as its arguments takes any flags, so
  the shell with the blocked flag and an arbitrary script without operators passes the policy behind env.
\<close>

theorem blocked_flag_bypass:
  assumes "operator_free script"
  shows "CommandTokensSafe [''env'', ''sh'', ''-c'', script] \<and> \<not> CommandTokensSafe [''sh'', ''-c'', script]"
proof -
  have base: "toLower (base_name ''env'') = ''env''" "toLower (base_name ''sh'') = ''sh''" by code_simp+
  have flags: "map_of blockedExecCommandFlags ''env'' = None" "map_of blockedExecCommandFlags ''sh'' = Some [''-c'', ''-lc'']"
    by (simp_all add: blockedExecCommandFlags_def)
  have "\<forall>t\<in>set [''env'', ''sh'', ''-c'', script]. operator_free t"
    using assms by (simp add: operator_free_def contains_def hasPrefix_def)
  then have "\<not> (\<exists>b\<in>set blocked_operators. contains (toLower (joinWith '' '' [''env'', ''sh'', ''-c'', script])) b)"
    using operators_join by blast
  moreover have "''env'' \<in> set allowedExecCommands" "''sh'' \<in> set allowedExecCommands" by (simp_all add: allowedExecCommands_def)
  ultimately show ?thesis by (simp add: CommandTokensSafe_def base flags Let_def)
qed

theorem blocked_flag_bypass_witness:
  "CommandTokensSafe [''env'', ''sh'', ''-c'', ''rm -rf /''] \<and> \<not> CommandTokensSafe [''sh'', ''-c'', ''rm -rf /'']"
  by (rule blocked_flag_bypass) (simp add: operator_free_def contains_def hasPrefix_def)

text \<open>Characters outside ASCII do not survive the splitting: the two bytes of an accented letter become four.\<close>

lemma split_mangles_utf8: "SplitCommand (map char_of [101, 195, 169 :: nat]) = [map char_of [101, 195, 131, 194, 169 :: nat]]"
  by code_simp

end
