(* ===== verification/Cron.thy ===== *)
theory Cron
  imports Scheduler KV_Store Command_Policy Discovery
begin

text \<open>
  Scheduled commands of apps: the endpoints that store them (\<open>internal/api/handlers/cronjobs.go\<close>) and the module that
  hands them to the scheduler (\<open>internal/cron/module.go\<close>), over \<open>KV_Store\<close>, \<open>Scheduler\<close> and \<open>Command_Policy\<close>.

  The list of an app's jobs is one value of the key-value store, with the codec as arguments. A refresh allocates its job
  objects at the pointers from \<open>p\<close> on. Listing containers and executing in one are arguments.

  Shown here: what a refresh makes of the scheduler; that it restarts every interval and lets a job overlap with itself;
  what a failing read does to the stored jobs; which commands a job executes.
\<close>

section \<open>Endpoints\<close>

record CronJobConfig =
  cc_ID :: string
  cc_Name :: string
  cc_Schedule :: string
  cc_Command :: string
  cc_Enabled :: bool

datatype cron_event =
    EventCronJobCreated string string string
  | EventCronJobDeleted string string
  | EventCronRun string string bool

datatype cron_reply = CronCreated string CronJobConfig | CronNoContent | CronRefused nat

text \<open>
  \<open>jobsLeft\<close> is what a failing Get leaves in the list it was to fill: nothing when the row is missing or cannot be read, a
  part of it when the stored value has the wrong shape. The app was found by \<open>requireTenantApp\<close> before. A reply comes with
  the events published.
\<close>

definition cron_Create ::
  "(CronJobConfig list \<Rightarrow> 'j option) \<Rightarrow> ('j \<Rightarrow> CronJobConfig list option) \<Rightarrow> bool \<Rightarrow> bool \<Rightarrow> CronJobConfig list \<Rightarrow> time \<Rightarrow> string \<Rightarrow> string \<Rightarrow>
   CronJobConfig \<Rightarrow> 'j KVStore \<Rightarrow> 'j KVStore \<times> cron_event list \<times> cron_reply" where
  "cron_Create enc dec readOK writeOK jobsLeft now fresh appID req kv =
     (if cc_Schedule req = [] \<or> cc_Command req = [] then (kv, [], CronRefused 400)
      else
        let job = req\<lparr>cc_ID := fresh, cc_Enabled := True\<rparr>;
            jobs = (case kv_Get dec readOK now ''cronjobs'' appID kv of Inl e \<Rightarrow> jobsLeft | Inr l \<Rightarrow> l)
        in if length jobs \<ge> 50 then (kv, [], CronRefused 409)
           else (case kv_Set enc writeOK now ''cronjobs'' appID (jobs @ [job]) 0 kv of
                   (kv', Some e) \<Rightarrow> (kv', [], CronRefused 500)
                 | (kv', None) \<Rightarrow> (kv', [EventCronJobCreated appID fresh (cc_Schedule req)], CronCreated appID job)))"

definition cron_Delete ::
  "(CronJobConfig list \<Rightarrow> 'j option) \<Rightarrow> ('j \<Rightarrow> CronJobConfig list option) \<Rightarrow> bool \<Rightarrow> bool \<Rightarrow> time \<Rightarrow> string \<Rightarrow> string \<Rightarrow>
   'j KVStore \<Rightarrow> 'j KVStore \<times> cron_event list \<times> cron_reply" where
  "cron_Delete enc dec readOK writeOK now appID jobID kv =
     (if jobID = [] then (kv, [], CronRefused 400)
      else (case kv_Get dec readOK now ''cronjobs'' appID kv of
              Inl e \<Rightarrow> (kv, [], CronNoContent)
            | Inr jobs \<Rightarrow>
                (case kv_Set enc writeOK now ''cronjobs'' appID (filter (\<lambda>j. cc_ID j \<noteq> jobID) jobs) 0 kv of
                   (kv', Some e) \<Rightarrow> (kv', [], CronRefused 500)
                 | (kv', None) \<Rightarrow> (kv', [EventCronJobDeleted appID jobID], CronNoContent))))"

section \<open>The module\<close>

definition cron_id :: "string \<Rightarrow> CronJobConfig \<Rightarrow> string" where
  "cron_id appID j = ''appcron:'' @ appID @ '':'' @ cc_ID j"

definition attach_job :: "string \<Rightarrow> CronJobConfig \<Rightarrow> CronJob" where
  "attach_job appID cfg =
     \<lparr>cj_ID = cron_id appID cfg, cj_Name = cc_Name cfg @ '' (app '' @ appID @ '')'', cj_Schedule = cc_Schedule cfg, cj_Timeout = 0,
      cj_LastRun = 0, cj_NextRun = 0, cj_Running = False, cj_Enabled = True\<rparr>"

definition cron_attach :: "clockwork \<Rightarrow> time \<Rightarrow> string \<times> CronJobConfig \<Rightarrow> job_ptr \<times> Scheduler \<Rightarrow> job_ptr \<times> Scheduler" where
  "cron_attach cw now aj ps =
     (case (aj, ps) of
        ((appID, cfg), (p, s)) \<Rightarrow> (Suc p, sc_Add cw now [] p (s\<lparr>sc_heap := (sc_heap s)(p \<mapsto> attach_job appID cfg)\<rparr>)))"

definition job_usable :: "CronJobConfig \<Rightarrow> bool" where
  "job_usable j \<longleftrightarrow> \<not> (\<not> cc_Enabled j \<or> cc_Schedule j = [] \<or> cc_Command j = [])"

text \<open>The jobs to attach, app by app.\<close>

definition cron_wanted ::
  "('j \<Rightarrow> CronJobConfig list option) \<Rightarrow> bool \<Rightarrow> time \<Rightarrow> string list \<Rightarrow> 'j KVStore \<Rightarrow> (string \<times> CronJobConfig) list" where
  "cron_wanted dec io now keys kv =
     concat (map (\<lambda>appID. case kv_Get dec io now ''cronjobs'' appID kv of
                            Inl e \<Rightarrow> []
                          | Inr jobs \<Rightarrow> map (Pair appID) (filter job_usable jobs)) keys)"

definition drop_stale :: "string set \<Rightarrow> CronJob \<Rightarrow> Scheduler \<Rightarrow> Scheduler" where
  "drop_stale desired existing s =
     (if \<not> hasPrefix (cj_ID existing) ''appcron:'' then s
      else if cj_ID existing \<in> desired then s
      else sc_Remove (cj_ID existing) s)"

definition cron_sync ::
  "clockwork \<Rightarrow> time \<Rightarrow> (string \<times> CronJobConfig) list \<Rightarrow> string list \<Rightarrow> job_ptr \<Rightarrow> Scheduler \<Rightarrow> Scheduler" where
  "cron_sync cw now wanted order p s =
     (let s1 = snd (fold (cron_attach cw now) wanted (p, s)); desired = set (map (\<lambda>(a, j). cron_id a j) wanted)
      in fold (drop_stale desired) (sc_Jobs s1 order) s1)"

definition cron_refresh ::
  "clockwork \<Rightarrow> ('j \<Rightarrow> bool) \<Rightarrow> ('j \<Rightarrow> CronJobConfig list option) \<Rightarrow> bool \<Rightarrow> bool \<Rightarrow> time \<Rightarrow> time \<Rightarrow> 'j KVStore \<Rightarrow> string list \<Rightarrow> job_ptr \<Rightarrow>
   Scheduler \<Rightarrow> Scheduler" where
  "cron_refresh cw valid dec listOK readOK unix now kv order p s =
     (case kv_List valid listOK unix ''cronjobs'' kv of
        Inl e \<Rightarrow> s
      | Inr keys \<Rightarrow> cron_sync cw now (cron_wanted dec readOK unix keys kv) order p s)"

subsection \<open>The handler of a job\<close>

definition shortID_cron :: "string \<Rightarrow> string" where
  "shortID_cron i = (if length i > 12 then take 12 i else i)"

definition capOutput :: "string \<Rightarrow> nat \<Rightarrow> string" where
  "capOutput s mx = (if length s \<le> mx then s else take mx s @ char_of (10 :: nat) # ''... [output truncated]'')"

datatype cron_error = CronNoRuntime | CronListFailed | CronNoContainer | CronBlocked | CronExecFailed string

record cron_entry =
  ce_id :: string
  ce_app_id :: string
  ce_user_id :: string
  ce_command :: string
  ce_container_id :: string
  ce_output :: string
  ce_started_at :: time
  ce_completed_at :: time
  ce_success :: bool
  ce_error :: "string option"

text \<open>The handler runs between the times \<open>t0\<close> and \<open>t1\<close>; \<open>unix\<close> is the time of the write of its entry.\<close>

definition cron_handler ::
  "(cron_entry \<Rightarrow> 'j option) \<Rightarrow> bool \<Rightarrow> bool \<Rightarrow> ContainerInfo list option \<Rightarrow> (string \<Rightarrow> string list \<Rightarrow> string \<times> string option) \<Rightarrow>
   time \<Rightarrow> time \<Rightarrow> time \<Rightarrow> string \<Rightarrow> string \<Rightarrow> CronJobConfig \<Rightarrow> 'j KVStore \<Rightarrow> 'j KVStore \<times> cron_event list \<times> cron_error option" where
  "cron_handler enc writeOK hasRuntime listed exec t0 t1 unix entryID appID cfg kv =
     (if \<not> hasRuntime then (kv, [], Some CronNoRuntime)
      else (case listed of
              None \<Rightarrow> (kv, [], Some CronListFailed)
            | Some [] \<Rightarrow> (kv, [], Some CronNoContainer)
            | Some (c # cs) \<Rightarrow>
                let cmd = SplitCommand (cc_Command cfg)
                in if \<not> CommandTokensSafe cmd then (kv, [], Some CronBlocked)
                   else
                     let (output, execErr) = exec (ci_ID c) cmd;
                         entry = \<lparr>ce_id = entryID, ce_app_id = appID, ce_user_id = ''cron:'' @ cc_ID cfg, ce_command = cc_Command cfg,
                                  ce_container_id = shortID_cron (ci_ID c), ce_output = capOutput output (64 * 1024), ce_started_at = t0,
                                  ce_completed_at = t1, ce_success = (execErr = None), ce_error = execErr\<rparr>
                     in (fst (kv_Set enc writeOK unix ''app_commands'' (appID @ '':'' @ entryID) entry (30 * 24 * 3600) kv),
                         [EventCronRun appID (cc_ID cfg) (execErr = None)], map_option CronExecFailed execErr)))"

section \<open>What a refresh makes of the scheduler\<close>

text \<open>The scheduler's map goes from identifiers to jobs that carry them.\<close>

definition ids_ok :: "Scheduler \<Rightarrow> bool" where
  "ids_ok s \<longleftrightarrow> (\<forall>i q. sc_jobs s i = Some q \<longrightarrow> (\<exists>job. sc_heap s q = Some job \<and> cj_ID job = i))"

definition fresh_from :: "job_ptr \<Rightarrow> Scheduler \<Rightarrow> bool" where
  "fresh_from p s \<longleftrightarrow> (\<forall>q\<ge>p. sc_heap s q = None)"

definition attached_job :: "clockwork \<Rightarrow> time \<Rightarrow> string \<Rightarrow> CronJobConfig \<Rightarrow> CronJob" where
  "attached_job cw now a j = (attach_job a j)\<lparr>cj_NextRun := calcNextRun cw now (cc_Schedule j)\<rparr>"

lemma ids_okD: "ids_ok s \<Longrightarrow> sc_jobs s i = Some q \<Longrightarrow> sc_heap s q = Some job \<Longrightarrow> cj_ID job = i"
  unfolding ids_ok_def by fastforce

lemma cron_id_prefix: "hasPrefix (cron_id a j) ''appcron:''" "cron_id a j \<noteq> []"
  by (simp_all add: cron_id_def hasPrefix_def)

lemma cron_attach_eq:
  "cron_attach cw now (a, j) (p, s) =
     (Suc p, s\<lparr>sc_heap := (sc_heap s)(p \<mapsto> attached_job cw now a j), sc_jobs := (sc_jobs s)(cron_id a j \<mapsto> p)\<rparr>)"
  by (simp add: cron_attach_def sc_Add_def attach_job_def attached_job_def cron_id_prefix Let_def)

text \<open>The last job wanted under an identifier.\<close>

definition wanted_at :: "(string \<times> CronJobConfig) list \<Rightarrow> string \<Rightarrow> (string \<times> CronJobConfig) option" where
  "wanted_at w i = map_of (rev (map (\<lambda>(a, j). (cron_id a j, (a, j))) w)) i"

lemma wanted_at_simps [simp]:
  "wanted_at [] i = None"
  "wanted_at (w @ [(a, j)]) i = (if i = cron_id a j then Some (a, j) else wanted_at w i)"
  by (simp_all add: wanted_at_def)

lemma wanted_at_None: "wanted_at w i = None \<longleftrightarrow> i \<notin> set (map (\<lambda>(a, j). cron_id a j) w)"
  by (force simp: wanted_at_def map_of_eq_None_iff)

lemma wanted_at_Some: "wanted_at w i = Some (a, j) \<Longrightarrow> i = cron_id a j \<and> (a, j) \<in> set w"
  by (induction w rule: rev_induct) (auto split: if_splits)

lemma attach_one:
  assumes "ids_ok s" "fresh_from p s" "cron_attach cw now (a, j) (p, s) = (p', s')"
  shows "ids_ok s'" "fresh_from p' s'" "p' = Suc p"
    "sc_jobs s' i = (if i = cron_id a j then Some p else sc_jobs s i)"
    "sc_heap s' q = (if q = p then Some (attached_job cw now a j) else sc_heap s q)"
    "sc_threads s' = sc_threads s" "sc_stopped s' = sc_stopped s" "sc_started s' = sc_started s" "sc_wg s' = sc_wg s"
proof -
  have eq: "p' = Suc p" "s' = s\<lparr>sc_heap := (sc_heap s)(p \<mapsto> attached_job cw now a j), sc_jobs := (sc_jobs s)(cron_id a j \<mapsto> p)\<rparr>"
    using assms(3) by (simp_all add: cron_attach_eq)
  have "cj_ID (attached_job cw now a j) = cron_id a j" by (simp add: attached_job_def attach_job_def)
  moreover have "sc_jobs s i \<noteq> Some p" for i using assms(1,2) by (force simp: ids_ok_def fresh_from_def)
  ultimately show "ids_ok s'" using assms(1) by (simp add: eq ids_ok_def)
  show "fresh_from p' s'" using assms(2) by (simp add: eq fresh_from_def)
qed (use assms(3) in \<open>auto simp: cron_attach_eq\<close>)

definition attached :: "clockwork \<Rightarrow> time \<Rightarrow> (string \<times> CronJobConfig) list \<Rightarrow> job_ptr \<Rightarrow> Scheduler \<Rightarrow> Scheduler \<Rightarrow> string \<Rightarrow> bool" where
  "attached cw now w p s s' i \<longleftrightarrow>
     (case wanted_at w i of
        None \<Rightarrow> sc_jobs s' i = sc_jobs s i
      | Some (a, j) \<Rightarrow> \<exists>q\<ge>p. sc_jobs s' i = Some q \<and> sc_heap s' q = Some (attached_job cw now a j))"

lemma attach_all:
  assumes "ids_ok s" "fresh_from p s" "fold (cron_attach cw now) w (p, s) = (p', s')"
  shows "p' = p + length w \<and> ids_ok s' \<and> fresh_from p' s' \<and> (\<forall>q<p. sc_heap s' q = sc_heap s q) \<and> (\<forall>i. attached cw now w p s s' i)
    \<and> sc_threads s' = sc_threads s \<and> sc_stopped s' = sc_stopped s \<and> sc_started s' = sc_started s \<and> sc_wg s' = sc_wg s"
  using assms(3)
proof (induction w arbitrary: p' s' rule: rev_induct)
  case Nil
  then show ?case using assms by (auto simp: attached_def)
next
  case (snoc aj w)
  obtain p1 s1 where one: "fold (cron_attach cw now) w (p, s) = (p1, s1)" by fastforce
  note ih = snoc.IH[OF one]
  obtain a j where aj: "aj = (a, j)" by (cases aj)
  have "cron_attach cw now (a, j) (p1, s1) = (p', s')" using snoc.prems one aj by simp
  note step = attach_one[OF _ _ this]
  have ok: "ids_ok s1" "fresh_from p1 s1" "p \<le> p1" using ih by auto
  have free: "sc_heap s1 p1 = None" using ok(2) by (simp add: fresh_from_def)
  have "attached cw now (w @ [aj]) p s s' i" for i
  proof -
    have "attached cw now w p s s1 i" using ih by blast
    then show ?thesis using ok(3) free unfolding attached_def aj wanted_at_simps step(4,5)[OF ok(1,2)]
      by (auto split: option.splits)
  qed
  moreover have "\<forall>q<p. sc_heap s' q = sc_heap s q" using ih ok(3) by (simp add: step(5)[OF ok(1,2)])
  ultimately show ?case using ih step(1-3,6-9)[OF ok(1,2)] by simp
qed

lemma drop_all:
  "fold (drop_stale D) es s = s\<lparr>sc_jobs := (\<lambda>i. if hasPrefix i ''appcron:'' \<and> i \<notin> D \<and> i \<in> cj_ID ` set es then None else sc_jobs s i)\<rparr>"
proof (induction es arbitrary: s)
  case (Cons e es)
  have "drop_stale D e s = s\<lparr>sc_jobs := (\<lambda>i. if hasPrefix i ''appcron:'' \<and> i \<notin> D \<and> i = cj_ID e then None else sc_jobs s i)\<rparr>"
    by (auto simp: drop_stale_def sc_Remove_def fun_eq_iff intro!: Scheduler.equality)
  then show ?case using Cons by (auto simp: fun_eq_iff intro!: Scheduler.equality)
qed simp

lemma Jobs_ids: "ids_ok s \<Longrightarrow> dom (sc_jobs s) \<subseteq> set order \<Longrightarrow> cj_ID ` set (sc_Jobs s order) = dom (sc_jobs s)"
  unfolding sc_Jobs_def List.map_filter_def ids_ok_def by (force simp: image_iff dom_def bind_eq_Some_conv)

lemma sync_result:
  assumes "ids_ok s" "fresh_from p s" "\<forall>i. sc_jobs (snd (fold (cron_attach cw now) w (p, s))) i \<noteq> None \<longrightarrow> i \<in> set order"
  defines "s' \<equiv> cron_sync cw now w order p s"
  shows "(case wanted_at w i of
       Some (a, j) \<Rightarrow> \<exists>q\<ge>p. sc_jobs s' i = Some q \<and> sc_heap s' q = Some (attached_job cw now a j)
     | None \<Rightarrow> sc_jobs s' i = (if hasPrefix i ''appcron:'' then None else sc_jobs s i))"
    "q < p \<Longrightarrow> sc_heap s' q = sc_heap s q"
    "sc_threads s' = sc_threads s" "sc_stopped s' = sc_stopped s" "sc_started s' = sc_started s" "sc_wg s' = sc_wg s"
    "ids_ok s'" "fresh_from (p + length w) s'"
proof -
  obtain p1 s1 where one: "fold (cron_attach cw now) w (p, s) = (p1, s1)" by fastforce
  note all = attach_all[OF assms(1,2) one]
  have "cj_ID ` set (sc_Jobs s1 order) = dom (sc_jobs s1)" using all assms(3) one by (intro Jobs_ids) auto
  then have s': "s' = s1\<lparr>sc_jobs := (\<lambda>i. if hasPrefix i ''appcron:'' \<and> wanted_at w i = None then None else sc_jobs s1 i)\<rparr>"
    unfolding s'_def cron_sync_def one by (auto simp: drop_all Let_def wanted_at_None fun_eq_iff domIff intro!: Scheduler.equality)
  have "attached cw now w p s s1 i" using all by blast
  then show "case wanted_at w i of
       Some (a, j) \<Rightarrow> \<exists>q\<ge>p. sc_jobs s' i = Some q \<and> sc_heap s' q = Some (attached_job cw now a j)
     | None \<Rightarrow> sc_jobs s' i = (if hasPrefix i ''appcron:'' then None else sc_jobs s i)"
    by (simp add: s' attached_def split: option.splits prod.splits)
  show "q < p \<Longrightarrow> sc_heap s' q = sc_heap s q"
    "sc_threads s' = sc_threads s" "sc_stopped s' = sc_stopped s" "sc_started s' = sc_started s" "sc_wg s' = sc_wg s"
    using all by (simp_all add: s')
  have "ids_ok s1" using all by blast
  then show "ids_ok s'" by (auto simp: s' ids_ok_def split: if_splits)
  show "fresh_from (p + length w) s'" using all by (auto simp: s' fresh_from_def)
qed

lemma wanted_iff:
  "(a, j) \<in> set (cron_wanted dec io unix keys kv) \<longleftrightarrow>
     a \<in> set keys \<and> (\<exists>jobs. kv_Get dec io unix ''cronjobs'' a kv = Inr jobs \<and> j \<in> set jobs \<and> job_usable j)"
proof -
  have "(a, j) \<in> set (case kv_Get dec io unix ''cronjobs'' b kv of Inl e \<Rightarrow> [] | Inr jobs \<Rightarrow> map (Pair b) (filter job_usable jobs)) \<longleftrightarrow>
      a = b \<and> (\<exists>jobs. kv_Get dec io unix ''cronjobs'' a kv = Inr jobs \<and> j \<in> set jobs \<and> job_usable j)" for b
    by (cases "kv_Get dec io unix ''cronjobs'' b kv") auto
  then show ?thesis by (simp add: cron_wanted_def)
qed

lemma order_after_attach:
  assumes "ids_ok s" "fresh_from p s" "dom (sc_jobs s) \<union> (\<lambda>(a, j). cron_id a j) ` set w \<subseteq> set order"
  shows "\<forall>i. sc_jobs (snd (fold (cron_attach cw now) w (p, s))) i \<noteq> None \<longrightarrow> i \<in> set order"
proof (intro allI impI)
  fix i assume i: "sc_jobs (snd (fold (cron_attach cw now) w (p, s))) i \<noteq> None"
  obtain p1 s1 where one: "fold (cron_attach cw now) w (p, s) = (p1, s1)" by fastforce
  then have "attached cw now w p s s1 i" using attach_all[OF assms(1,2) one] by blast
  then show "i \<in> set order"
    using i one assms(3) wanted_at_None[of w i] by (cases "wanted_at w i") (auto simp: attached_def domIff)
qed

text \<open>
  C36. A refresh makes the scheduler follow the store: afterwards the app jobs registered are exactly the enabled jobs
  with a schedule and a command that the store holds for some app, each as a new idle object whose next run is reckoned
  from now; the jobs of other modules, the objects they point to and the goroutines are untouched. When the
  store cannot list the apps nothing changes.
\<close>

theorem cron_refresh_exact:
  assumes "ids_ok s" "fresh_from p s" "kv_List valid True unix ''cronjobs'' kv = Inr keys"
    "dom (sc_jobs s) \<union> (\<lambda>(a, j). cron_id a j) ` set (cron_wanted dec True unix keys kv) \<subseteq> set order"
    "s' = cron_refresh cw valid dec True True unix now kv order p s"
  shows "(hasPrefix i ''appcron:'' \<longrightarrow>
       (sc_jobs s' i \<noteq> None \<longleftrightarrow>
          (\<exists>a\<in>set keys. \<exists>jobs. kv_Get dec True unix ''cronjobs'' a kv = Inr jobs \<and> (\<exists>j\<in>set jobs. job_usable j \<and> i = cron_id a j))))
    \<and> (hasPrefix i ''appcron:'' \<and> sc_jobs s' i = Some q \<longrightarrow>
         q \<ge> p \<and> (\<exists>a j. (a, j) \<in> set (cron_wanted dec True unix keys kv) \<and> i = cron_id a j \<and> sc_heap s' q = Some (attached_job cw now a j)))
    \<and> (\<not> hasPrefix i ''appcron:'' \<longrightarrow> sc_jobs s' i = sc_jobs s i)
    \<and> (\<forall>q<p. sc_heap s' q = sc_heap s q) \<and> sc_threads s' = sc_threads s \<and> ids_ok s'
    \<and> cron_refresh cw valid dec False True unix now kv order p s = s"
proof -
  let ?w = "cron_wanted dec True unix keys kv"
  have s': "s' = cron_sync cw now ?w order p s" using assms(3,5) by (simp add: cron_refresh_def)
  note sync = sync_result[OF assms(1,2) order_after_attach[OF assms(1,2,4), where cw = cw and now = now], folded s']
  have off: "cron_refresh cw valid dec False True unix now kv order p s = s" by (simp add: cron_refresh_def kv_List_def)
  have some: "(\<exists>a\<in>set keys. \<exists>jobs. kv_Get dec True unix ''cronjobs'' a kv = Inr jobs \<and> (\<exists>j\<in>set jobs. job_usable j \<and> i = cron_id a j))
      \<longleftrightarrow> wanted_at ?w i \<noteq> None"
    unfolding wanted_at_None using wanted_iff[of _ _ dec True unix keys kv] by force
  show ?thesis
  proof (cases "wanted_at ?w i")
    case None
    then show ?thesis using sync(1)[of i] sync(2-) some off by (auto split: if_splits)
  next
    case (Some aj)
    obtain a j where aj: "aj = (a, j)" by (cases aj)
    then have i: "i = cron_id a j" "(a, j) \<in> set ?w" using Some wanted_at_Some by blast+
    obtain q' where "q' \<ge> p" "sc_jobs s' i = Some q'" "sc_heap s' q' = Some (attached_job cw now a j)"
      using sync(1)[of i] Some aj by auto
    then show ?thesis using i Some sync(2-) some off cron_id_prefix by auto
  qed
qed

section \<open>Refreshing too often\<close>

text \<open>
  A life of the scheduler in which app \<open>a\<close> keeps its job \<open>j\<close>: refreshes at any time, for instance because another app
  creates or deletes one, ticks less than \<open>d\<close> after the last refresh, and the goroutines that run. The state
  holds the time of the last refresh, the next free pointer and the scheduler.
\<close>

inductive cron_life :: "clockwork \<Rightarrow> string \<Rightarrow> CronJobConfig \<Rightarrow> duration \<Rightarrow> time \<times> job_ptr \<times> Scheduler \<Rightarrow> time \<times> job_ptr \<times> Scheduler \<Rightarrow> bool"
  for cw a j d where
  life_refresh: "wanted_at w (cron_id a j) = Some (a, j) \<Longrightarrow> dom (sc_jobs s) \<union> (\<lambda>(a, j). cron_id a j) ` set w \<subseteq> set order \<Longrightarrow>
    cron_life cw a j d (r, p, s) (now, p + length w, cron_sync cw now w order p s)"
| life_tick: "t < r + d \<Longrightarrow> cron_life cw a j d (r, p, s) (r, p, sc_tick t order s)"
| life_work: "sc_work cw s s' \<Longrightarrow> cron_life cw a j d (r, p, s) (r, p, s')"

definition never_run :: "string \<Rightarrow> job_ptr \<Rightarrow> Scheduler \<Rightarrow> bool" where
  "never_run i p0 s \<longleftrightarrow> (\<forall>q\<ge>p0. \<forall>job. sc_heap s q = Some job \<and> cj_ID job = i \<longrightarrow> ScRun q \<notin># sc_threads s)"

definition starving :: "string \<Rightarrow> duration \<Rightarrow> job_ptr \<Rightarrow> time \<times> job_ptr \<times> Scheduler \<Rightarrow> bool" where
  "starving i d p0 x \<longleftrightarrow>
     (case x of (r, p, s) \<Rightarrow>
        ids_ok s \<and> fresh_from p s \<and> p0 \<le> p \<and> never_run i p0 s \<and> (\<forall>q\<ge>p. ScRun q \<notin># sc_threads s)
        \<and> (\<exists>q\<ge>p0. \<exists>job. sc_jobs s i = Some q \<and> sc_heap s q = Some job \<and> r + d \<le> cj_NextRun job))"

lemma starving_refresh:
  assumes ok: "ids_ok s" "fresh_from p s" and p0: "p0 \<le> p" and never: "never_run (cron_id a j) p0 s"
    and want: "wanted_at w (cron_id a j) = Some (a, j)" "dom (sc_jobs s) \<union> (\<lambda>(a, j). cron_id a j) ` set w \<subseteq> set order"
    and d: "calcNextRun cw now (cc_Schedule j) = now + d" and idle: "\<forall>q\<ge>p. ScRun q \<notin># sc_threads s"
  shows "starving (cron_id a j) d p0 (now, p + length w, cron_sync cw now w order p s)"
proof -
  note sync = sync_result[OF ok order_after_attach[OF ok want(2), where cw = cw and now = now]]
  obtain q where "q \<ge> p" "sc_jobs (cron_sync cw now w order p s) (cron_id a j) = Some q"
    "sc_heap (cron_sync cw now w order p s) q = Some (attached_job cw now a j)"
    using sync(1)[of "cron_id a j"] want(1) by auto
  moreover have "never_run (cron_id a j) p0 (cron_sync cw now w order p s)"
    unfolding never_run_def sync(3) using never idle sync(2) by (metis never_run_def not_le_imp_less)
  ultimately show ?thesis
    using p0 sync(3,7,8) idle d by (auto simp: starving_def attached_job_def intro!: exI[of _ q])
qed

lemma ids_ok_heap:
  assumes "ids_ok s" "sc_jobs s' = sc_jobs s" "\<And>q. map_option cj_ID (sc_heap s' q) = map_option cj_ID (sc_heap s q)"
  shows "ids_ok s'"
  using assms(1) unfolding ids_ok_def assms(2) by (metis (no_types, lifting) assms(3) map_option_eq_Some)

lemma tick_frame:
  "sc_jobs (sc_tick t order s) = sc_jobs s"
  "map_option cj_ID (sc_heap (sc_tick t order s) q) = map_option cj_ID (sc_heap s q)"
  "map_option cj_NextRun (sc_heap (sc_tick t order s) q) = map_option cj_NextRun (sc_heap s q)"
  "ScRun q \<in># sc_threads (sc_tick t order s) \<Longrightarrow> ScRun q \<in># sc_threads s \<or> q \<in> due_ptrs t order s"
  using finite_due[of t order s]
  by (auto simp: sc_tick_def dispatch_due mark_running_def option.map_comp comp_def split: if_splits)

text \<open>What a step must respect for the job to keep waiting.\<close>

lemma starving_frame:
  assumes st: "starving i d p0 (r, p, s)"
    and jobs: "sc_jobs s' = sc_jobs s" and ids: "\<And>q. map_option cj_ID (sc_heap s' q) = map_option cj_ID (sc_heap s q)"
    and runs: "\<And>q. ScRun q \<in># sc_threads s' \<Longrightarrow> ScRun q \<in># sc_threads s \<or> (sc_heap s q \<noteq> None \<and> map_option cj_ID (sc_heap s q) \<noteq> Some i)"
    and next_run: "\<And>q. ScRun q \<notin># sc_threads s \<Longrightarrow> map_option cj_NextRun (sc_heap s' q) = map_option cj_NextRun (sc_heap s q)"
  shows "starving i d p0 (r, p, s')"
proof -
  have ok: "ids_ok s" "fresh_from p s" "p0 \<le> p" "never_run i p0 s" "\<forall>q\<ge>p. ScRun q \<notin># sc_threads s"
    using st by (auto simp: starving_def)
  have "ids_ok s'" using ok(1) jobs ids by (rule ids_ok_heap)
  moreover have "fresh_from p s'" unfolding fresh_from_def
    using ok(2) ids unfolding fresh_from_def by (metis map_option_is_None)
  moreover have "never_run i p0 s'" unfolding never_run_def
  proof (intro allI impI notI)
    fix q job assume q: "p0 \<le> q" "sc_heap s' q = Some job \<and> cj_ID job = i" "ScRun q \<in># sc_threads s'"
    then obtain job0 where "sc_heap s q = Some job0" "cj_ID job0 = i" using ids[of q] by (metis map_option_eq_Some option.simps(9))
    then show False using q runs[of q] ok(4) by (auto simp: never_run_def)
  qed
  moreover have "\<forall>q\<ge>p. ScRun q \<notin># sc_threads s'" using runs ok(2,5) unfolding fresh_from_def by blast
  moreover obtain q job where q: "q \<ge> p0" "sc_jobs s i = Some q" "sc_heap s q = Some job" "r + d \<le> cj_NextRun job"
    using st by (auto simp: starving_def)
  moreover have "cj_ID job = i" using ok(1) q(2,3) by (rule ids_okD)
  then have "ScRun q \<notin># sc_threads s" using ok(4) q by (auto simp: never_run_def)
  then obtain job' where "sc_heap s' q = Some job'" "cj_NextRun job' = cj_NextRun job"
    using next_run[of q] q(3) by (metis map_option_eq_Some option.simps(9))
  ultimately show ?thesis using ok(3) jobs by (auto simp: starving_def)
qed

lemma starving_tick:
  assumes "starving i d p0 (r, p, s)" "t < r + d"
  shows "starving i d p0 (r, p, sc_tick t order s)"
proof (rule starving_frame[OF assms(1)])
  fix q assume "ScRun q \<in># sc_threads (sc_tick t order s)"
  moreover have "sc_heap s q \<noteq> None \<and> map_option cj_ID (sc_heap s q) \<noteq> Some i" if due: "q \<in> due_ptrs t order s"
  proof -
    obtain i' job where job: "sc_jobs s i' = Some q" "sc_heap s q = Some job" "job_due t job" using due by (auto simp: due_ptrs_def)
    moreover have "cj_ID job = i'" using assms(1) job(1,2) by (auto simp: starving_def intro: ids_okD)
    moreover have "i' \<noteq> i" using assms job by (auto simp: starving_def job_due_def)
    ultimately show ?thesis by simp
  qed
  ultimately show "ScRun q \<in># sc_threads s \<or> (sc_heap s q \<noteq> None \<and> map_option cj_ID (sc_heap s q) \<noteq> Some i)"
    using tick_frame(4) by blast
qed (rule tick_frame)+

lemma starving_work:
  assumes "starving i d p0 (r, p, s)" "sc_work cw s s'"
  shows "starving i d p0 (r, p, s')"
  using assms(2,1)
proof (induction rule: sc_work.induct)
  case (sc_return p' s now)
  show ?case
    by (rule starving_frame[OF sc_return(2)]) (use sc_return(1) in \<open>auto simp: sc_finish_def split: option.splits dest: in_diffD\<close>)
qed (rule starving_frame, assumption, auto dest: in_diffD)+

lemma starving_life:
  assumes "cron_life cw a j d x y" "starving (cron_id a j) d p0 x" "\<forall>now. calcNextRun cw now (cc_Schedule j) = now + d"
  shows "starving (cron_id a j) d p0 y"
  using assms
proof (induction rule: cron_life.induct)
  case (life_refresh w s order r p now)
  then show ?case by (intro starving_refresh) (auto simp: starving_def)
qed (auto intro: starving_tick starving_work)

text \<open>
  C37. An interval job can wait forever: when refreshes, which any app's cron endpoint triggers, always come before the
  job's interval has passed since the last one, then from the first refresh on no handler of this job is ever started,
  whatever else runs, although it stays registered throughout.
\<close>

theorem cron_refresh_starves:
  assumes "ids_ok s" "fresh_from p s" "\<forall>q\<ge>p. ScRun q \<notin># sc_threads s"
    "wanted_at w (cron_id a j) = Some (a, j)" "dom (sc_jobs s) \<union> (\<lambda>(a, j). cron_id a j) ` set w \<subseteq> set order"
    "hasPrefix (cc_Schedule j) ''@every ''" "cw_parseDuration cw (trimSpace (drop 7 (cc_Schedule j))) = Some d"
    "(cron_life cw a j d)\<^sup>*\<^sup>* (now, p + length w, cron_sync cw now w order p s) (r, p', s')"
  shows "sc_jobs s' (cron_id a j) \<noteq> None
    \<and> (\<forall>q\<ge>p. ScRun q \<in># sc_threads s' \<longrightarrow> map_option cj_ID (sc_heap s' q) \<noteq> Some (cron_id a j))"
proof -
  have next_run: "\<forall>now. calcNextRun cw now (cc_Schedule j) = now + d" using assms(6,7) by (simp add: calcNextRun_def)
  have "starving (cron_id a j) d p (now, p + length w, cron_sync cw now w order p s)"
    using assms(1-5) next_run by (intro starving_refresh) (auto simp: never_run_def)
  with assms(8) have "starving (cron_id a j) d p (r, p', s')"
    by (induction rule: rtranclp_induct) (auto intro: starving_life[OF _ _ next_run])
  then show ?thesis by (auto simp: starving_def never_run_def)
qed

text \<open>
  A refresh lets a job overlap with itself: when it comes while the job's handler runs, a tick at the new
  object's next run starts a second handler of the same job beside the first, since the mark that a job is running belongs to
  the object that was replaced.
\<close>

theorem cron_refresh_overlaps:
  assumes "ids_ok s" "fresh_from p s" "\<not> sc_stopped s" "sc_heap s q0 = Some job0" "cj_ID job0 = cron_id a j" "ScRun q0 \<in># sc_threads s"
    "wanted_at w (cron_id a j) = Some (a, j)" "dom (sc_jobs s) \<union> (\<lambda>(a, j). cron_id a j) ` set w \<subseteq> set order"
    "calcNextRun cw now (cc_Schedule j) \<le> t" "s' = sc_tick t order (cron_sync cw now w order p s)"
  shows "\<exists>q. q \<noteq> q0 \<and> ScRun q0 \<in># sc_threads s' \<and> ScRun q \<in># sc_threads s'
    \<and> map_option cj_ID (sc_heap s' q0) = Some (cron_id a j) \<and> map_option cj_ID (sc_heap s' q) = Some (cron_id a j)"
proof -
  note sync = sync_result[OF assms(1,2) order_after_attach[OF assms(1,2,8), where cw = cw and now = now]]
  let ?s = "cron_sync cw now w order p s"
  obtain q where q: "q \<ge> p" "sc_jobs ?s (cron_id a j) = Some q" "sc_heap ?s q = Some (attached_job cw now a j)"
    using sync(1)[of "cron_id a j"] assms(7) by auto
  have q0: "q0 < p" using assms(2,4) by (metis fresh_from_def not_le_imp_less option.distinct(1))
  have "cron_id a j \<in> set order" using wanted_at_Some[OF assms(7)] assms(8) by (auto simp: image_subset_iff)
  then have "q \<in> due_ptrs t order ?s"
    using q assms(9) by (auto simp: due_ptrs_def job_due_def attached_job_def attach_job_def)
  moreover have "\<not> sc_stopped ?s" "ScRun q0 \<in># sc_threads ?s" "sc_heap ?s q0 = Some job0"
    using assms(3,4,6) sync(2)[OF q0] sync(3,4) by simp_all
  ultimately have "ScRun q \<in># sc_threads s'" "ScRun q0 \<in># sc_threads s'"
    using finite_due[of t order ?s] by (simp_all add: assms(10) sc_tick_def dispatch_due mark_running_def)
  moreover have "map_option cj_ID (sc_heap s' q0) = Some (cron_id a j)" "map_option cj_ID (sc_heap s' q) = Some (cron_id a j)"
    unfolding assms(10) tick_frame(2) using q(3) assms(4,5) sync(2)[OF q0] by (simp_all add: attached_job_def attach_job_def)
  ultimately show ?thesis using q(1) q0 by (intro exI[of _ q]) auto
qed

section \<open>What the endpoints store\<close>

lemma set_ok:
  assumes "codec_ok enc dec" "0 \<le> now"
  shows "\<exists>kv'. kv_Set enc True now b k v 0 kv = (kv', None)
    \<and> (\<forall>now' b' k'. kv_Get dec True now' b' k' kv' = (if (b', k') = (b, k) then Inr v else kv_Get dec True now' b' k' kv))"
proof -
  obtain x where "enc v = Some x" "dec x = Some v" using assms(1) unfolding codec_ok_def by blast
  then show ?thesis using assms(2) by (simp add: kv_Set_def kv_Get_put)
qed

definition stored_jobs :: "('j \<Rightarrow> CronJobConfig list option) \<Rightarrow> 'j KVStore \<Rightarrow> time \<Rightarrow> string \<times> string \<Rightarrow> kv_error + CronJobConfig list" where
  "stored_jobs dec kv now bk = kv_Get dec True now (fst bk) (snd bk) kv"

text \<open>
  Create appends the job under its new identifier, enabled, and Delete of that identifier takes exactly it away: after both
  the app's list is what it was, and no other key of the store is touched. When the app has fifty jobs, or the
  request lacks a schedule or a command, nothing is stored.
\<close>

theorem cron_create_delete:
  assumes "codec_ok enc dec" "0 \<le> now" "kv_Get dec True now ''cronjobs'' appID kv = Inr jobs" "fresh \<notin> cc_ID ` set jobs" "fresh \<noteq> []"
    "cc_Schedule req \<noteq> []" "cc_Command req \<noteq> []" "job = req\<lparr>cc_ID := fresh, cc_Enabled := True\<rparr>"
  shows "(length jobs < 50 \<longrightarrow>
      (\<exists>kv1 kv2. cron_Create enc dec True True l now fresh appID req kv =
           (kv1, [EventCronJobCreated appID fresh (cc_Schedule req)], CronCreated appID job)
       \<and> stored_jobs dec kv1 now = (stored_jobs dec kv now)((''cronjobs'', appID) := Inr (jobs @ [job]))
       \<and> cron_Delete enc dec True True now appID fresh kv1 = (kv2, [EventCronJobDeleted appID fresh], CronNoContent)
       \<and> stored_jobs dec kv2 now = stored_jobs dec kv now))
    \<and> (length jobs \<ge> 50 \<longrightarrow> cron_Create enc dec True True l now fresh appID req kv = (kv, [], CronRefused 409))
    \<and> cron_Create enc dec r w l now fresh appID (req\<lparr>cc_Schedule := []\<rparr>) kv = (kv, [], CronRefused 400)
    \<and> cron_Create enc dec r w l now fresh appID (req\<lparr>cc_Command := []\<rparr>) kv = (kv, [], CronRefused 400)"
proof -
  obtain kv1 where one: "kv_Set enc True now ''cronjobs'' appID (jobs @ [job]) 0 kv = (kv1, None)"
    "\<forall>t b k. kv_Get dec True t b k kv1 = (if (b, k) = (''cronjobs'', appID) then Inr (jobs @ [job]) else kv_Get dec True t b k kv)"
    using set_ok[OF assms(1,2)] by blast
  obtain kv2 where two: "kv_Set enc True now ''cronjobs'' appID jobs 0 kv1 = (kv2, None)"
    "\<forall>t b k. kv_Get dec True t b k kv2 = (if (b, k) = (''cronjobs'', appID) then Inr jobs else kv_Get dec True t b k kv1)"
    using set_ok[OF assms(1,2)] by blast
  have undo: "filter (\<lambda>j. cc_ID j \<noteq> fresh) (jobs @ [job]) = jobs" using assms(4,8) by (auto simp: filter_id_conv)
  have "cron_Delete enc dec True True now appID fresh kv1 = (kv2, [EventCronJobDeleted appID fresh], CronNoContent)"
    unfolding cron_Delete_def using one(2) two(1) assms(5) undo by simp
  moreover have "cron_Create enc dec True True l now fresh appID req kv =
      (kv1, [EventCronJobCreated appID fresh (cc_Schedule req)], CronCreated appID job)" if "length jobs < 50"
    using that assms(3,6,7,8) one(1) by (simp add: cron_Create_def Let_def)
  moreover have "stored_jobs dec kv1 now = (stored_jobs dec kv now)((''cronjobs'', appID) := Inr (jobs @ [job]))"
    "stored_jobs dec kv2 now = stored_jobs dec kv now"
    using one(2) two(2) assms(3) by (auto simp: stored_jobs_def fun_eq_iff)
  ultimately show ?thesis using assms(3,6,7) by (auto simp: cron_Create_def)
qed

text \<open>
  A read that fails where the write then succeeds loses every job the app had: the list stored is the new job alone.
\<close>

theorem cron_create_loses_jobs:
  assumes "codec_ok enc dec" "0 \<le> now" "cc_Schedule req \<noteq> []" "cc_Command req \<noteq> []"
  shows "\<exists>kv'. cron_Create enc dec False True [] now fresh appID req kv =
      (kv', [EventCronJobCreated appID fresh (cc_Schedule req)], CronCreated appID (req\<lparr>cc_ID := fresh, cc_Enabled := True\<rparr>))
    \<and> (\<forall>now'. kv_Get dec True now' ''cronjobs'' appID kv' = Inr [req\<lparr>cc_ID := fresh, cc_Enabled := True\<rparr>])"
proof -
  let ?job = "req\<lparr>cc_ID := fresh, cc_Enabled := True\<rparr>"
  obtain kv' where kv': "kv_Set enc True now ''cronjobs'' appID [?job] 0 kv = (kv', None)"
    "\<forall>now' b' k'. kv_Get dec True now' b' k' kv' = (if (b', k') = (''cronjobs'', appID) then Inr [?job] else kv_Get dec True now' b' k' kv)"
    using set_ok[OF assms(1,2)] by blast
  then show ?thesis using assms(3,4) by (intro exI[of _ kv']) (simp add: cron_Create_def kv_Get_def[of _ False])
qed

section \<open>What a job runs\<close>

text \<open>A cron expression, which the endpoint's documentation names, is taken as hourly.\<close>

lemma cron_expression_is_hourly:
  "\<not> hasPrefix schedule ''@every '' \<Longrightarrow> \<not> contains schedule '':'' \<Longrightarrow> calcNextRun cw now schedule = now + hour"
  by (simp add: calcNextRun_def)

lemma nightly_expression_is_hourly: "calcNextRun cw now ''0 3 * * *'' = now + hour"
  by (rule cron_expression_is_hourly) code_simp+

text \<open>
  What the handler of a job may do: it executes only when the policy allows the words of the command, only in the first
  container of the app, and stores at most 64 KiB and the mark of truncation of its output, for thirty days.
\<close>

lemma cron_handler_confined:
  assumes "codec_ok enc dec" "0 \<le> unix"
    "cron_handler enc True hasRuntime listed exec t0 t1 unix entryID appID cfg kv = (kv', evs, err)"
  shows "(evs \<noteq> [] \<longleftrightarrow> hasRuntime \<and> (\<exists>c cs. listed = Some (c # cs)) \<and> CommandTokensSafe (SplitCommand (cc_Command cfg)))
    \<and> (evs = [] \<longrightarrow> kv' = kv \<and> err \<noteq> None)
    \<and> (evs \<noteq> [] \<longrightarrow> (\<forall>now. kv_Get dec True now ''app_commands'' (appID @ '':'' @ entryID) kv' =
         (if now \<ge> unix + 2592000 then Inl KVNotFound
          else Inr \<lparr>ce_id = entryID, ce_app_id = appID, ce_user_id = ''cron:'' @ cc_ID cfg, ce_command = cc_Command cfg,
                    ce_container_id = shortID_cron (ci_ID (hd (the listed))),
                    ce_output = capOutput (fst (exec (ci_ID (hd (the listed))) (SplitCommand (cc_Command cfg)))) 65536, ce_started_at = t0,
                    ce_completed_at = t1, ce_success = (err = None), ce_error = snd (exec (ci_ID (hd (the listed))) (SplitCommand (cc_Command cfg)))\<rparr>)))"
proof (cases "hasRuntime \<and> (\<exists>c cs. listed = Some (c # cs)) \<and> CommandTokensSafe (SplitCommand (cc_Command cfg))")
  case False
  then show ?thesis using assms(3) by (auto simp: cron_handler_def Let_def split: option.splits list.splits if_splits)
next
  case True
  then obtain c cs where c: "listed = Some (c # cs)" by blast
  obtain out e where oe: "exec (ci_ID c) (SplitCommand (cc_Command cfg)) = (out, e)" by fastforce
  let ?entry = "\<lparr>ce_id = entryID, ce_app_id = appID, ce_user_id = ''cron:'' @ cc_ID cfg, ce_command = cc_Command cfg,
     ce_container_id = shortID_cron (ci_ID c), ce_output = capOutput out 65536, ce_started_at = t0, ce_completed_at = t1,
     ce_success = (e = None), ce_error = e\<rparr>"
  obtain x where x: "enc ?entry = Some x" "dec x = Some ?entry" using assms(1) unfolding codec_ok_def by blast
  have "kv' = fst (kv_Set enc True unix ''app_commands'' (appID @ '':'' @ entryID) ?entry 2592000 kv)"
    "evs \<noteq> []" "err = map_option CronExecFailed e"
    using assms(3) True c oe by (auto simp: cron_handler_def)
  then show ?thesis using True x assms(2) by (simp add: c oe kv_Set_def kv_Get_put)
qed

lemma capOutput_bound: "length (capOutput s mx) \<le> mx + 23" "length s \<le> mx \<Longrightarrow> capOutput s mx = s"
  by (simp_all add: capOutput_def)

section \<open>An instance\<close>

definition ex_req :: CronJobConfig where
  "ex_req = \<lparr>cc_ID = [], cc_Name = ''n'', cc_Schedule = ''@every 5m'', cc_Command = ''ls'', cc_Enabled = False\<rparr>"

definition ex_cron :: CronJobConfig where
  "ex_cron = ex_req\<lparr>cc_ID := ''j'', cc_Enabled := True\<rparr>"

definition ex_cron_kv :: "CronJobConfig list KVStore" where
  "ex_cron_kv = fst (cron_Create Some Some True True [] 100 ''j'' ''a'' ex_req NewKVStore)"

definition ex_synced :: Scheduler where
  "ex_synced = cron_sync ex_clock 0 [(''a'', ex_cron)] [''appcron:a:j''] 0 NewScheduler"

lemma ex_cron_stored:
  "kv_List (\<lambda>_. True) True 100 ''cronjobs'' ex_cron_kv = Inr [''a'']"
  "kv_Get Some True 100 ''cronjobs'' ''a'' ex_cron_kv = Inr [ex_cron]"
  "cron_wanted Some True 100 [''a''] ex_cron_kv = [(''a'', ex_cron)]"
proof -
  have kv: "ex_cron_kv = kv_put ''cronjobs'' ''a'' [ex_cron] 0 NewKVStore"
    by (simp add: ex_cron_kv_def cron_Create_def ex_req_def ex_cron_def kv_Get_def NewKVStore_def initSchema_def sql_select_def kv_Set_def expiry_def Let_def)
  show "kv_List (\<lambda>_. True) True 100 ''cronjobs'' ex_cron_kv = Inr [''a'']"
    by (simp add: kv kv_List_def kv_put_def NewKVStore_def initSchema_def sql_upsert_def Let_def)
  show get: "kv_Get Some True 100 ''cronjobs'' ''a'' ex_cron_kv = Inr [ex_cron]"
    using kv_Get_put[of 0 Some 100 "''cronjobs''" "''a''" "''cronjobs''" "''a''" "[ex_cron]" 0 NewKVStore] by (simp add: kv expiry_def)
  show "cron_wanted Some True 100 [''a''] ex_cron_kv = [(''a'', ex_cron)]"
    by (simp add: cron_wanted_def get job_usable_def) (simp add: ex_cron_def ex_req_def)
qed

lemma ex_cron_id: "cron_id ''a'' ex_cron = ''appcron:a:j''"
  by (simp add: cron_id_def ex_cron_def)

lemma ex_next_run: "calcNextRun ex_clock now (cc_Schedule ex_cron) = now + 300 * 1000000000"
proof -
  have "trimSpace (drop 7 ''@every 5m'') = ''5m''" "hasPrefix ''@every 5m'' ''@every ''" by code_simp+
  then show ?thesis unfolding calcNextRun_def by (simp add: ex_cron_def ex_req_def ex_clock_def)
qed

lemma new_scheduler_ok: "ids_ok NewScheduler" "fresh_from p NewScheduler"
  by (simp_all add: ids_ok_def fresh_from_def NewScheduler_def)

theorem cron_refresh_exact_witness:
  "\<exists>q. sc_jobs (cron_refresh ex_clock (\<lambda>_. True) Some True True 100 0 ex_cron_kv [''appcron:a:j''] 0 NewScheduler) ''appcron:a:j'' = Some q"
proof -
  have pre: "dom (sc_jobs NewScheduler) \<union> (\<lambda>(a, j). cron_id a j) ` set (cron_wanted Some True 100 [''a''] ex_cron_kv) \<subseteq> set [''appcron:a:j'']"
    by (simp add: ex_cron_stored ex_cron_id NewScheduler_def)
  have "job_usable ex_cron" "hasPrefix ''appcron:a:j'' ''appcron:''" by (simp add: job_usable_def ex_cron_def ex_req_def, code_simp)
  then show ?thesis
    using cron_refresh_exact[OF new_scheduler_ok ex_cron_stored(1) pre refl, where i = "''appcron:a:j''" and cw = ex_clock and now = 0] ex_cron_stored(2) ex_cron_id
    by auto
qed

lemma ex_synced_eq:
  "ex_synced = NewScheduler\<lparr>sc_heap := [0 \<mapsto> attached_job ex_clock 0 ''a'' ex_cron], sc_jobs := [''appcron:a:j'' \<mapsto> 0]\<rparr>"
proof -
  have "drop_stale {''appcron:a:j''} e s = s" if "cj_ID e = ''appcron:a:j''" for e s using that by (simp add: drop_stale_def)
  moreover have "cj_ID (attached_job ex_clock 0 ''a'' ex_cron) = ''appcron:a:j''" by (simp add: attached_job_def attach_job_def ex_cron_id)
  ultimately show ?thesis
    by (simp add: ex_synced_def cron_sync_def cron_attach_eq ex_cron_id sc_Jobs_def NewScheduler_def List.map_filter_def)
qed

theorem cron_refresh_starves_witness:
  "sc_jobs (sc_tick (299 * 1000000000) [''appcron:a:j''] ex_synced) ''appcron:a:j'' \<noteq> None
   \<and> ScRun 0 \<notin># sc_threads (sc_tick (299 * 1000000000) [''appcron:a:j''] ex_synced)"
proof -
  let ?w = "[(''a'', ex_cron)]" and ?o = "[''appcron:a:j'']" and ?d = "300 * 1000000000 :: int"
  have pre: "\<forall>q\<ge>0. ScRun q \<notin># sc_threads NewScheduler" "wanted_at ?w (cron_id ''a'' ex_cron) = Some (''a'', ex_cron)"
    "dom (sc_jobs NewScheduler) \<union> (\<lambda>(a, j). cron_id a j) ` set ?w \<subseteq> set ?o"
    by (simp_all add: NewScheduler_def wanted_at_def ex_cron_id)
  have sched: "hasPrefix (cc_Schedule ex_cron) ''@every ''" "cw_parseDuration ex_clock (trimSpace (drop 7 (cc_Schedule ex_cron))) = Some ?d"
    unfolding ex_cron_def ex_req_def ex_clock_def by code_simp+
  have "(cron_life ex_clock ''a'' ex_cron ?d)\<^sup>*\<^sup>* (0, 0 + length ?w, ex_synced) (0, 0 + length ?w, sc_tick (299 * 1000000000) ?o ex_synced)"
    by (intro r_into_rtranclp life_tick) simp
  from cron_refresh_starves[OF new_scheduler_ok pre sched this[unfolded ex_synced_def]]
  have "sc_jobs (sc_tick (299 * 1000000000) ?o ex_synced) ''appcron:a:j'' \<noteq> None"
    "ScRun 0 \<in># sc_threads (sc_tick (299 * 1000000000) ?o ex_synced) \<longrightarrow>
       map_option cj_ID (sc_heap (sc_tick (299 * 1000000000) ?o ex_synced) 0) \<noteq> Some ''appcron:a:j''"
    unfolding ex_synced_def ex_cron_id by auto
  then show ?thesis unfolding tick_frame(2) by (simp add: ex_synced_eq attached_job_def attach_job_def ex_cron_id)
qed

theorem cron_refresh_overlaps_witness:
  "\<exists>(s :: Scheduler) q. q \<noteq> 0 \<and> ScRun 0 \<in># sc_threads s \<and> ScRun q \<in># sc_threads s
    \<and> map_option cj_ID (sc_heap s 0) = Some ''appcron:a:j'' \<and> map_option cj_ID (sc_heap s q) = Some ''appcron:a:j''"
proof -
  let ?w = "[(''a'', ex_cron)]" and ?o = "[''appcron:a:j'']" and ?job = "(attached_job ex_clock 0 ''a'' ex_cron)\<lparr>cj_Running := True\<rparr>"
  define s where "s = sc_tick (300 * 1000000000) ?o ex_synced"
  have "cj_NextRun (attached_job ex_clock 0 ''a'' ex_cron) = 300 * 1000000000" by (simp add: attached_job_def ex_next_run)
  then have s: "sc_heap s = [0 \<mapsto> ?job]" "sc_jobs s = [''appcron:a:j'' \<mapsto> 0]" "\<not> sc_stopped s" "ScRun 0 \<in># sc_threads s"
    by (simp_all add: s_def ex_synced_eq NewScheduler_def sc_tick_def sc_dispatch_def job_due_def attached_job_def attach_job_def)
  have job: "cj_ID ?job = cron_id ''a'' ex_cron" by (simp add: attached_job_def attach_job_def)
  have pre: "ids_ok s" "fresh_from 1 s" "wanted_at ?w (cron_id ''a'' ex_cron) = Some (''a'', ex_cron)"
    "dom (sc_jobs s) \<union> (\<lambda>(a, j). cron_id a j) ` set ?w \<subseteq> set ?o" "sc_heap s 0 = Some ?job"
    using job by (simp_all add: s ids_ok_def fresh_from_def wanted_at_def ex_cron_id)
  have "calcNextRun ex_clock 0 (cc_Schedule ex_cron) \<le> 300 * 1000000000" by (simp add: ex_next_run)
  from cron_refresh_overlaps[OF pre(1,2) s(3) pre(5) job s(4) pre(3,4) this refl] show ?thesis
    unfolding ex_cron_id by blast
qed

theorem cron_create_delete_witness:
  "\<exists>kv1 kv2. cron_Create Some Some True True [] 100 ''k'' ''a'' ex_req ex_cron_kv =
       (kv1, [EventCronJobCreated ''a'' ''k'' ''@every 5m''], CronCreated ''a'' (ex_req\<lparr>cc_ID := ''k'', cc_Enabled := True\<rparr>))
     \<and> cron_Delete Some Some True True 100 ''a'' ''k'' kv1 = (kv2, [EventCronJobDeleted ''a'' ''k''], CronNoContent)
     \<and> stored_jobs Some kv2 100 = stored_jobs Some ex_cron_kv 100"
proof -
  have "codec_ok (Some :: CronJobConfig list \<Rightarrow> CronJobConfig list option) Some" by (simp add: codec_ok_def)
  moreover have "''k'' \<notin> cc_ID ` set [ex_cron]" "cc_Schedule ex_req = ''@every 5m''" "cc_Command ex_req \<noteq> []"
    by (simp_all add: ex_cron_def ex_req_def)
  ultimately show ?thesis
    using cron_create_delete[OF _ _ ex_cron_stored(2), of Some "''k''" ex_req "ex_req\<lparr>cc_ID := ''k'', cc_Enabled := True\<rparr>" "[]" True True] by auto
qed

theorem cron_create_loses_jobs_witness:
  "\<exists>kv'. fst (cron_Create Some Some False True [] 100 ''k'' ''a'' ex_req ex_cron_kv) = kv'
    \<and> kv_Get Some True 100 ''cronjobs'' ''a'' ex_cron_kv = Inr [ex_cron]
    \<and> kv_Get Some True 100 ''cronjobs'' ''a'' kv' = Inr [ex_req\<lparr>cc_ID := ''k'', cc_Enabled := True\<rparr>]"
proof -
  have "codec_ok (Some :: CronJobConfig list \<Rightarrow> CronJobConfig list option) Some" by (simp add: codec_ok_def)
  moreover have "cc_Schedule ex_req \<noteq> []" "cc_Command ex_req \<noteq> []" by (simp_all add: ex_req_def)
  ultimately show ?thesis
    using cron_create_loses_jobs[of Some Some 100 ex_req "''k''" "''a''" ex_cron_kv] ex_cron_stored(2) by auto
qed

end
