(* ===== verification/App_Store.thy ===== *)
theory App_Store
  imports Prelude
begin

text \<open>
  The tables of applications, deployments and domains, as \<open>internal/db/apps.go\<close>, \<open>deployments.go\<close> and \<open>domains.go\<close> read
  and write them in SQLite.

  A table is the list of its rows in the order of insertion; a statement that the database refuses leaves it as it was
  (\<open>io\<close> false). Each function is one statement, so the calls of concurrent requests interleave as whole functions.

  Shown here: in every interleaving of the store's operations the versions of an app's deployments are distinct
  and a new deployment is the latest; the operation that only reserves a version does not give that.
\<close>

section \<open>Rows\<close>

record Application =
  ap_ID :: string
  ap_ProjectID :: string
  ap_TenantID :: string
  ap_Name :: string
  ap_Type :: string
  ap_SourceType :: string
  ap_SourceURL :: string
  ap_Branch :: string
  ap_Dockerfile :: string
  ap_BuildPack :: string
  ap_EnvVarsEnc :: string
  ap_LabelsJSON :: string
  ap_Replicas :: int
  ap_Port :: int
  ap_Status :: string
  ap_ServerID :: string

record Deployment =
  de_ID :: string
  de_AppID :: string
  de_Version :: int
  de_Image :: string
  de_ContainerID :: string
  de_Status :: string
  de_BuildLog :: string
  de_CommitSHA :: string
  de_CommitMessage :: string
  de_TriggeredBy :: string
  de_Strategy :: string
  de_StartedAt :: "time option"
  de_FinishedAt :: "time option"
  de_CreatedAt :: time

record Domain =
  dn_ID :: string
  dn_AppID :: string
  dn_FQDN :: string
  dn_CreatedAt :: time

record AppDB =
  db_apps :: "Application list"
  db_deps :: "Deployment list"
  db_domains :: "Domain list"

datatype store_error = StoreNotFound | StoreFailed

section \<open>Applications and domains\<close>

text \<open>The table of applications has no column for the port, so no read returns one.\<close>

definition GetApp :: "bool \<Rightarrow> string \<Rightarrow> AppDB \<Rightarrow> store_error + Application" where
  "GetApp io i db =
     (if \<not> io then Inl StoreFailed
      else case find (\<lambda>a. ap_ID a = i) (db_apps db) of
             None \<Rightarrow> Inl StoreNotFound
           | Some a \<Rightarrow> Inr (a\<lparr>ap_Port := 0\<rparr>))"

definition UpdateAppStatus :: "bool \<Rightarrow> string \<Rightarrow> string \<Rightarrow> string \<Rightarrow> AppDB \<Rightarrow> AppDB \<times> bool" where
  "UpdateAppStatus io i status tenantID db =
     (if \<not> io then (db, False)
      else (db\<lparr>db_apps := map (\<lambda>a. if ap_ID a = i \<and> ap_TenantID a = tenantID then a\<lparr>ap_Status := status\<rparr> else a) (db_apps db)\<rparr>, True))"

definition ListDomainsByApp :: "bool \<Rightarrow> string \<Rightarrow> string \<Rightarrow> AppDB \<Rightarrow> Domain list option" where
  "ListDomainsByApp io appID tenantID db =
     (if \<not> io then None
      else Some (take 500 (sort_key dn_CreatedAt
             (filter (\<lambda>d. dn_AppID d = appID \<and> (\<exists>a\<in>set (db_apps db). ap_ID a = appID \<and> ap_TenantID a = tenantID)) (db_domains db)))))"

section \<open>Deployments\<close>

definition app_versions :: "string \<Rightarrow> AppDB \<Rightarrow> int list" where
  "app_versions appID db = map de_Version (filter (\<lambda>d. de_AppID d = appID) (db_deps db))"

definition next_version :: "string \<Rightarrow> AppDB \<Rightarrow> int" where
  "next_version appID db = (let vs = app_versions appID db in (if vs = [] then 0 else Max (set vs)) + 1)"

definition with_id :: "string \<Rightarrow> Deployment \<Rightarrow> Deployment" where
  "with_id fresh d = (if de_ID d = [] then d\<lparr>de_ID := fresh\<rparr> else d)"

text \<open>The columns that the insert does not name are set by the table: no end and the current time.\<close>

definition inserted :: "time \<Rightarrow> Deployment \<Rightarrow> Deployment" where
  "inserted now d = d\<lparr>de_FinishedAt := None, de_CreatedAt := now\<rparr>"

definition CreateDeployment :: "bool \<Rightarrow> time \<Rightarrow> string \<Rightarrow> Deployment \<Rightarrow> AppDB \<Rightarrow> AppDB \<times> Deployment \<times> bool" where
  "CreateDeployment io now fresh d db =
     (let d1 = with_id fresh d
      in if \<not> io \<or> de_ID d1 \<in> de_ID ` set (db_deps db) then (db, d1, False)
         else (db\<lparr>db_deps := db_deps db @ [inserted now d1]\<rparr>, d1, True))"

definition CreateDeploymentAtomicVersion :: "bool \<Rightarrow> time \<Rightarrow> string \<Rightarrow> Deployment \<Rightarrow> AppDB \<Rightarrow> AppDB \<times> Deployment \<times> bool" where
  "CreateDeploymentAtomicVersion io now fresh d db =
     (let d1 = with_id fresh d
      in if \<not> io \<or> de_ID d1 \<in> de_ID ` set (db_deps db) then (db, d1, False)
         else
           let d2 = d1\<lparr>de_Version := next_version (de_AppID d) db\<rparr>
           in (db\<lparr>db_deps := db_deps db @ [inserted now d2]\<rparr>, d2, True))"

definition UpdateDeployment :: "bool \<Rightarrow> Deployment \<Rightarrow> AppDB \<Rightarrow> AppDB \<times> bool" where
  "UpdateDeployment io d db =
     (if \<not> io then (db, False)
      else (db\<lparr>db_deps := map (\<lambda>r. if de_ID r = de_ID d
                                   then r\<lparr>de_Status := de_Status d, de_ContainerID := de_ContainerID d, de_BuildLog := de_BuildLog d,
                                          de_FinishedAt := de_FinishedAt d\<rparr>
                                   else r) (db_deps db)\<rparr>, True))"

text \<open>The build log is not among the columns that are read back.\<close>

definition read_row :: "Deployment \<Rightarrow> Deployment" where
  "read_row r = r\<lparr>de_BuildLog := []\<rparr>"

definition newest_first :: "string \<Rightarrow> AppDB \<Rightarrow> Deployment list" where
  "newest_first appID db = sort_key (\<lambda>d. - de_Version d) (filter (\<lambda>d. de_AppID d = appID) (db_deps db))"

definition GetLatestDeployment :: "bool \<Rightarrow> string \<Rightarrow> AppDB \<Rightarrow> store_error + Deployment" where
  "GetLatestDeployment io appID db =
     (if \<not> io then Inl StoreFailed
      else case newest_first appID db of [] \<Rightarrow> Inl StoreNotFound | d # ds \<Rightarrow> Inr (read_row d))"

definition ListDeploymentsByApp :: "bool \<Rightarrow> string \<Rightarrow> nat \<Rightarrow> AppDB \<Rightarrow> Deployment list option" where
  "ListDeploymentsByApp io appID limit db = (if \<not> io then None else Some (map read_row (take limit (newest_first appID db))))"

definition ListDeploymentsByStatus :: "bool \<Rightarrow> string \<Rightarrow> AppDB \<Rightarrow> Deployment list option" where
  "ListDeploymentsByStatus io status db =
     (if \<not> io then None
      else Some (map read_row (take 10000 (sort_key (\<lambda>d. - de_CreatedAt d) (filter (\<lambda>d. de_Status d = status) (db_deps db))))))"

definition GetNextDeployVersion :: "bool \<Rightarrow> string \<Rightarrow> AppDB \<Rightarrow> int" where
  "GetNextDeployVersion io appID db =
     (if \<not> io then 1 else if app_versions appID db = [] then 1 else Max (set (app_versions appID db)) + 1)"

text \<open>The transaction of \<open>AtomicNextDeployVersion\<close> reads and writes nothing.\<close>

definition AtomicNextDeployVersion :: "bool \<Rightarrow> string \<Rightarrow> AppDB \<Rightarrow> AppDB \<times> int option" where
  "AtomicNextDeployVersion io appID db = (db, if io then Some (GetNextDeployVersion True appID db) else None)"

section \<open>Versions\<close>

definition dep_inv :: "AppDB \<Rightarrow> bool" where
  "dep_inv db \<longleftrightarrow> distinct (map de_ID (db_deps db)) \<and> distinct (map (\<lambda>d. (de_AppID d, de_Version d)) (db_deps db))"

lemma next_version_fresh: "d \<in> set (db_deps db) \<Longrightarrow> de_AppID d = appID \<Longrightarrow> de_Version d < next_version appID db"
proof -
  assume d: "d \<in> set (db_deps db)" "de_AppID d = appID"
  then have "de_Version d \<in> set (app_versions appID db)" by (auto simp: app_versions_def)
  moreover from this have "de_Version d \<le> Max (set (app_versions appID db))" by simp
  ultimately show ?thesis by (auto simp: next_version_def Let_def)
qed

lemma dep_inv_create:
  assumes "dep_inv db" "CreateDeploymentAtomicVersion io now fresh d db = (db', d', ok)"
  shows "dep_inv db'"
proof -
  have "(de_AppID d, next_version (de_AppID d) db) \<notin> (\<lambda>d. (de_AppID d, de_Version d)) ` set (db_deps db)"
    using next_version_fresh by fastforce
  then show ?thesis
    using assms by (auto simp: CreateDeploymentAtomicVersion_def Let_def dep_inv_def inserted_def with_id_def split: if_splits)
qed

lemma update_keys:
  assumes "UpdateDeployment io d db = (db', ok)"
  shows "map de_ID (db_deps db') = map de_ID (db_deps db)"
    "map (\<lambda>r. (de_AppID r, de_Version r)) (db_deps db') = map (\<lambda>r. (de_AppID r, de_Version r)) (db_deps db)"
    "db_apps db' = db_apps db" "db_domains db' = db_domains db"
  using assms by (auto simp: UpdateDeployment_def split: if_splits)

lemma dep_inv_update: "dep_inv db \<Longrightarrow> UpdateDeployment io d db = (db', ok) \<Longrightarrow> dep_inv db'"
  by (simp add: dep_inv_def update_keys)

lemma status_keeps_deps: "UpdateAppStatus io i st t db = (db', ok) \<Longrightarrow> db_deps db' = db_deps db \<and> db_domains db' = db_domains db"
  by (auto simp: UpdateAppStatus_def split: if_splits)

text \<open>The operations of the deployment code, interleaved.\<close>

inductive dep_step :: "AppDB \<Rightarrow> AppDB \<Rightarrow> bool" where
  step_create: "CreateDeploymentAtomicVersion io now fresh d db = (db', d', ok) \<Longrightarrow> dep_step db db'"
| step_update: "UpdateDeployment io d db = (db', ok) \<Longrightarrow> dep_step db db'"
| step_status: "UpdateAppStatus io i st t db = (db', ok) \<Longrightarrow> dep_step db db'"

lemma dep_inv_step: "dep_step db db' \<Longrightarrow> dep_inv db \<Longrightarrow> dep_inv db'"
proof (induction rule: dep_step.induct)
  case (step_create io now fresh d db db' d' ok)
  from step_create(2,1) show ?case by (rule dep_inv_create)
next
  case (step_update io d db db' ok)
  from step_update(2,1) show ?case by (rule dep_inv_update)
next
  case (step_status io i st t db db' ok)
  then show ?case by (simp add: dep_inv_def status_keeps_deps)
qed

lemma dep_inv_steps: "dep_step\<^sup>*\<^sup>* db db' \<Longrightarrow> dep_inv db \<Longrightarrow> dep_inv db'"
  by (induction rule: rtranclp_induct) (auto intro: dep_inv_step)

lemma sorted_head:
  assumes "sort_key f xs = y # ys" "\<forall>x\<in>set xs. x \<noteq> d \<longrightarrow> f d < f x" "d \<in> set xs"
  shows "y = (d :: 'a)"
proof (rule ccontr)
  assume ne: "y \<noteq> d"
  have "set (y # ys) = set xs" "sorted (map f (y # ys))" using assms(1) by (metis set_sort, metis sorted_sort_key)
  then show False using ne assms(2,3) by fastforce
qed

lemma newest_is_new:
  assumes "dep_inv db" "CreateDeploymentAtomicVersion True now fresh d db = (db', d', True)"
  shows "GetLatestDeployment True (de_AppID d) db' = Inr (read_row (inserted now d'))"
proof -
  have d': "db' = db\<lparr>db_deps := db_deps db @ [inserted now d']\<rparr>" "de_AppID d' = de_AppID d" "de_Version d' = next_version (de_AppID d) db"
    using assms(2) by (auto simp: CreateDeploymentAtomicVersion_def Let_def with_id_def split: if_splits)
  let ?rows = "filter (\<lambda>x. de_AppID x = de_AppID d) (db_deps db')"
  have new: "inserted now d' \<in> set ?rows" using d' by (simp add: inserted_def)
  have "\<forall>x\<in>set ?rows. x \<noteq> inserted now d' \<longrightarrow> - de_Version (inserted now d') < - de_Version x"
    using d' next_version_fresh by (auto simp: inserted_def)
  then have "newest_first (de_AppID d) db' = y # ys \<Longrightarrow> y = inserted now d'" for y ys
    unfolding newest_first_def using new sorted_head[of "\<lambda>d. - de_Version d" ?rows y ys "inserted now d'"] by simp
  moreover have "newest_first (de_AppID d) db' \<noteq> []"
    using new unfolding newest_first_def by (metis empty_iff empty_set set_sort)
  ultimately show ?thesis by (cases "newest_first (de_AppID d) db'") (auto simp: GetLatestDeployment_def)
qed


text \<open>Two callers that reserve a version and then insert it get the same one.\<close>

lemma reserved_version_shared:
  assumes "d1 = d\<lparr>de_ID := i1\<rparr>" "d2 = d\<lparr>de_ID := i2\<rparr>" "i1 \<noteq> i2" "i1 \<noteq> []" "i2 \<noteq> []"
    "i1 \<notin> de_ID ` set (db_deps db)" "i2 \<notin> de_ID ` set (db_deps db)"
    "AtomicNextDeployVersion True (de_AppID d) db = (db1, Some v1)" "AtomicNextDeployVersion True (de_AppID d) db1 = (db2, Some v2)"
    "CreateDeployment True now fresh (d1\<lparr>de_Version := v1\<rparr>) db2 = (db3, e1, ok1)" "CreateDeployment True now fresh (d2\<lparr>de_Version := v2\<rparr>) db3 = (db4, e2, ok2)"
  shows "ok1 \<and> ok2 \<and> v1 = v2 \<and> \<not> dep_inv db4"
proof -
  have v: "db1 = db" "db2 = db" "v2 = v1" using assms(8,9) by (auto simp: AtomicNextDeployVersion_def)
  then have one: "db3 = db\<lparr>db_deps := db_deps db @ [inserted now (d1\<lparr>de_Version := v1\<rparr>)]\<rparr>" "ok1"
    using assms(1,4,6,10) by (auto simp: CreateDeployment_def Let_def with_id_def)
  then have two: "db4 = db3\<lparr>db_deps := db_deps db3 @ [inserted now (d2\<lparr>de_Version := v1\<rparr>)]\<rparr>" "ok2"
    using v assms(1,2,3,5,7,11) by (auto simp: CreateDeployment_def Let_def with_id_def inserted_def)
  then show ?thesis using one v assms(1,2) by (simp add: dep_inv_def inserted_def)
qed

lemma listed_row:
  assumes "ListDeploymentsByApp io appID n db = Some ds" "d \<in> set ds"
  shows "\<exists>row\<in>set (db_deps db). de_AppID row = appID \<and> d = read_row row"
proof -
  have "d \<in> read_row ` set (take n (newest_first appID db))" using assms by (auto simp: ListDeploymentsByApp_def split: if_splits)
  moreover have "set (take n (newest_first appID db)) \<subseteq> set (newest_first appID db)" by (rule set_take_subset)
  moreover have "set (newest_first appID db) = {r \<in> set (db_deps db). de_AppID r = appID}" by (auto simp: newest_first_def)
  ultimately show ?thesis by blast
qed

definition row_update :: "Deployment \<Rightarrow> Deployment \<Rightarrow> Deployment" where
  "row_update d r = (if de_ID r = de_ID d
     then r\<lparr>de_Status := de_Status d, de_ContainerID := de_ContainerID d, de_BuildLog := de_BuildLog d, de_FinishedAt := de_FinishedAt d\<rparr> else r)"

lemma update_rows: "UpdateDeployment True d db = (db\<lparr>db_deps := map (row_update d) (db_deps db)\<rparr>, True)"
  by (simp add: UpdateDeployment_def row_update_def cong: if_cong)

lemma newest_update: "newest_first appID (db\<lparr>db_deps := map (row_update d) (db_deps db)\<rparr>) = map (row_update d) (newest_first appID db)"
proof -
  have "filter (\<lambda>x. de_AppID x = appID) (map (row_update d) xs) = map (row_update d) (filter (\<lambda>x. de_AppID x = appID) xs)" for xs
    by (induction xs) (auto simp: row_update_def)
  then show ?thesis by (simp add: newest_first_def sort_key_map row_update_def)
qed

lemma latest_update:
  assumes "GetLatestDeployment True appID db = Inr r" "UpdateDeployment io d db = (db', ok)"
  shows "GetLatestDeployment True appID db' = Inr (read_row (if io then row_update d r else r))"
proof (cases io)
  case True
  then have db': "db' = db\<lparr>db_deps := map (row_update d) (db_deps db)\<rparr>" using assms(2) by (simp add: update_rows)
  obtain x xs where x: "newest_first appID db = x # xs" "r = read_row x" using assms(1) by (auto simp: GetLatestDeployment_def split: list.splits)
  have "read_row (row_update d x) = read_row (row_update d (read_row x))" by (simp add: read_row_def row_update_def)
  then show ?thesis using True x newest_update[of appID d db] by (simp add: db' GetLatestDeployment_def)
next
  case False
  then show ?thesis using assms by (auto simp: UpdateDeployment_def GetLatestDeployment_def read_row_def split: list.splits)
qed

lemma latest_status: "UpdateAppStatus io i st t db = (db', ok) \<Longrightarrow> GetLatestDeployment io' appID db' = GetLatestDeployment io' appID db"
  using status_keeps_deps[of io i st t db db' ok] by (simp add: GetLatestDeployment_def newest_first_def)

section \<open>An instance\<close>

definition ex_dep :: Deployment where
  "ex_dep = \<lparr>de_ID = [], de_AppID = ''a'', de_Version = 0, de_Image = ''i:1'', de_ContainerID = [], de_Status = ''deploying'', de_BuildLog = [],
     de_CommitSHA = [], de_CommitMessage = [], de_TriggeredBy = ''manual'', de_Strategy = ''recreate'', de_StartedAt = None, de_FinishedAt = None,
     de_CreatedAt = 0\<rparr>"

definition ex_appdb :: AppDB where
  "ex_appdb = \<lparr>db_apps = [], db_deps = [ex_dep\<lparr>de_ID := ''d1'', de_Version := 1\<rparr>], db_domains = []\<rparr>"


end
