(* ===== verification/App_Deploy.thy ===== *)
theory App_Deploy
  imports App_Store Container_Runtime KV_Store Discovery
begin

text \<open>
  Deployment of single apps: freeze windows, the trigger endpoint, the git pipeline and the webhook that starts it
  (\<open>internal/api/handlers/deploy_pipeline.go\<close>), over the tables of \<open>App_Store\<close> and the container runtime.

  The state of a platform is its database, the world of the container hosts and the events published so far. A database
  call succeeds or not depending on where it stands in the code (\<open>db_site\<close>). The build of an image, the listing of
  containers and the network of the hosts are arguments.

  Shown here: what a deployment does to the containers, the rows and the events, on success and on every
  failure; what the image path leaves in the table; what freeze windows block.
\<close>

section \<open>The platform\<close>

record 'w deploy_runtime =
  dr_api :: "'w docker_api"
  dr_mgr :: DockerManager
  dr_list :: "(string \<times> string) list \<Rightarrow> 'w \<Rightarrow> ContainerInfo list option"
  dr_stats :: "string \<Rightarrow> 'w \<Rightarrow> bool option"
  dr_restart :: "string \<Rightarrow> 'w \<Rightarrow> 'w \<times> string option"
  dr_network :: "(string \<Rightarrow> 'w \<Rightarrow> 'w \<times> string option) option"

datatype deploy_failure =
    NoContainerRuntime | BuildError string | NeedsRegistry string | NotConnected string | ReserveFailed
  | DeployNetworkError string | DeployStartError runtime_error | DeployFrozen

record DeployEventData =
  dd_AppID :: string
  dd_DeploymentID :: string
  dd_Version :: int
  dd_Image :: string
  dd_ContainerID :: string
  dd_Strategy :: string
  dd_CommitSHA :: string

text \<open>\<open>EvMap a e\<close> is the \<open>map[string]string\<close> with the app's identifier and the text of the error.\<close>

datatype event_data = EvDeploy DeployEventData | EvMap string deploy_failure | EvApp string string

record deploy_event =
  dv_Type :: string
  dv_Source :: string
  dv_Data :: event_data

record 'w plant =
  pl_db :: AppDB
  pl_world :: 'w
  pl_events :: "deploy_event list"

datatype db_site = AtBuilding | AtDeploying | AtReserve | AtDomains | AtRow | AtStatus | AtFailedApp | AtFailedRow

definition set_status :: "bool \<Rightarrow> string \<Rightarrow> string \<Rightarrow> string \<Rightarrow> 'w plant \<Rightarrow> 'w plant" where
  "set_status io i status tenantID pl = pl\<lparr>pl_db := fst (UpdateAppStatus io i status tenantID (pl_db pl))\<rparr>"

definition save_row :: "bool \<Rightarrow> Deployment \<Rightarrow> 'w plant \<Rightarrow> 'w plant" where
  "save_row io d pl = pl\<lparr>pl_db := fst (UpdateDeployment io d (pl_db pl))\<rparr>"

definition publishAsync :: "deploy_event \<Rightarrow> 'w plant \<Rightarrow> 'w plant" where
  "publishAsync ev pl = pl\<lparr>pl_events := pl_events pl @ [ev]\<rparr>"

section \<open>Freeze windows\<close>

record FreezeWindow =
  fw_ID :: string
  fw_Reason :: string
  fw_StartsAt :: time
  fw_EndsAt :: time
  fw_Active :: bool

definition window_open :: "time \<Rightarrow> FreezeWindow \<Rightarrow> bool" where
  "window_open now fw \<longleftrightarrow> fw_Active fw \<and> now > fw_StartsAt fw \<and> now < fw_EndsAt fw"

definition activeDeployFreeze ::
  "('j \<Rightarrow> FreezeWindow list option) \<Rightarrow> bool \<Rightarrow> time \<Rightarrow> time \<Rightarrow> string \<Rightarrow> 'j KVStore option \<Rightarrow> bool" where
  "activeDeployFreeze dec io unix now tenantID kv =
     (case kv of
        None \<Rightarrow> False
      | Some store \<Rightarrow>
          if tenantID = [] then False
          else (case kv_Get dec io unix ''deploy_freeze'' tenantID store of
                  Inl e \<Rightarrow> False
                | Inr windows \<Rightarrow> list_ex (window_open now) windows))"

datatype freeze_reply = FreezeCreated FreezeWindow | FreezeNoContent | FreezeRefused nat

text \<open>\<open>parse\<close> is \<open>time.Parse\<close> with the layout RFC 3339, \<open>None\<close> where it gives the zero time; \<open>windowsLeft\<close> is what a failing Get leaves.\<close>

definition freeze_Create ::
  "(FreezeWindow list \<Rightarrow> 'j option) \<Rightarrow> ('j \<Rightarrow> FreezeWindow list option) \<Rightarrow> (string \<Rightarrow> time option) \<Rightarrow> bool \<Rightarrow> bool \<Rightarrow> FreezeWindow list \<Rightarrow>
   time \<Rightarrow> time \<Rightarrow> string \<Rightarrow> string \<Rightarrow> string \<Rightarrow> string \<Rightarrow> string \<Rightarrow> 'j KVStore \<Rightarrow> 'j KVStore \<times> freeze_reply" where
  "freeze_Create enc dec parse readOK writeOK windowsLeft unix now fresh tenantID reason startsAt endsAt kv =
     (let starts = (case parse startsAt of None \<Rightarrow> now | Some t \<Rightarrow> t);
          ends = (case parse endsAt of None \<Rightarrow> starts + 24 * 3600 * 1000000000 | Some t \<Rightarrow> t);
          freeze = \<lparr>fw_ID = fresh, fw_Reason = reason, fw_StartsAt = starts, fw_EndsAt = ends, fw_Active = True\<rparr>;
          windows = (case kv_Get dec readOK unix ''deploy_freeze'' tenantID kv of Inl e \<Rightarrow> windowsLeft | Inr l \<Rightarrow> l)
      in if length windows \<ge> 50 then (kv, FreezeRefused 409)
         else (case kv_Set enc writeOK unix ''deploy_freeze'' tenantID (windows @ [freeze]) 0 kv of
                 (kv', Some e) \<Rightarrow> (kv', FreezeRefused 500)
               | (kv', None) \<Rightarrow> (kv', FreezeCreated freeze)))"

fun deactivate :: "string \<Rightarrow> FreezeWindow list \<Rightarrow> FreezeWindow list" where
  "deactivate i [] = []"
| "deactivate i (fw # fws) = (if fw_ID fw = i then fw\<lparr>fw_Active := False\<rparr> # fws else fw # deactivate i fws)"

definition freeze_Delete ::
  "(FreezeWindow list \<Rightarrow> 'j option) \<Rightarrow> ('j \<Rightarrow> FreezeWindow list option) \<Rightarrow> bool \<Rightarrow> bool \<Rightarrow> time \<Rightarrow> string \<Rightarrow> string \<Rightarrow>
   'j KVStore \<Rightarrow> 'j KVStore \<times> freeze_reply" where
  "freeze_Delete enc dec readOK writeOK unix tenantID freezeID kv =
     (if freezeID = [] then (kv, FreezeRefused 400)
      else (case kv_Get dec readOK unix ''deploy_freeze'' tenantID kv of
              Inl e \<Rightarrow> (kv, FreezeNoContent)
            | Inr windows \<Rightarrow>
                (case kv_Set enc writeOK unix ''deploy_freeze'' tenantID (deactivate freezeID windows) 0 kv of
                   (kv', Some e) \<Rightarrow> (kv', FreezeRefused 500)
                 | (kv', None) \<Rightarrow> (kv', FreezeNoContent))))"

section \<open>Image references\<close>

definition imageRefHasRegistry :: "string \<Rightarrow> bool" where
  "imageRefHasRegistry ref =
     (case indexOf ref ''/'' of
        None \<Rightarrow> False
      | Some i \<Rightarrow> let fst_part = take i ref in fst_part = ''localhost'' \<or> list_ex (\<lambda>c. c = CHR ''.'' \<or> c = CHR '':'') fst_part)"

definition name_char :: "char \<Rightarrow> bool" where
  "name_char c \<longleftrightarrow> (let n = of_char c :: nat in 97 \<le> n \<and> n \<le> 122 \<or> 48 \<le> n \<and> n \<le> 57)"

definition sep_char :: "char \<Rightarrow> bool" where
  "sep_char c \<longleftrightarrow> c \<in> {CHR ''.'', CHR ''_'', CHR ''-'', CHR '' ''}"

fun name_loop :: "string \<Rightarrow> bool \<Rightarrow> string \<Rightarrow> string" where
  "name_loop b lastSep [] = b"
| "name_loop b lastSep (c # s) =
     (if name_char c then name_loop (b @ [c]) False s
      else if sep_char c \<and> b \<noteq> [] \<and> \<not> lastSep then name_loop (b @ ''-'') True s
      else name_loop b lastSep s)"

definition imageNamePart :: "string \<Rightarrow> string \<Rightarrow> string \<Rightarrow> string" where
  "imageNamePart fresh name fallback =
     (let source = toLower (trimSpace name);
          source' = (if source = [] then toLower (trimSpace fallback) else source);
          part = trimChars ''-'' (name_loop [] False source')
      in if part = [] then ''app-'' @ ShortID fresh 8 else part)"

text \<open>The two identifiers stand in for an empty commit and an empty name.\<close>

definition buildImageTagForRegistry :: "string \<times> string \<Rightarrow> string \<Rightarrow> Application \<Rightarrow> string \<Rightarrow> string" where
  "buildImageTagForRegistry fresh prefix app commitSHA =
     (let pre = trimChars ''/'' (trimSpace prefix)
      in if pre = [] then []
         else
           let tag = ShortID commitSHA 12; tag' = (if tag = [] then ShortID (fst fresh) 12 else tag)
           in pre @ ''/'' @ imageNamePart (snd fresh) (ap_Name app) (ap_ID app) @ '':'' @ tag')"

section \<open>The pipeline\<close>

record BuildOpts =
  bo_AppID :: string
  bo_AppName :: string
  bo_SourceURL :: string
  bo_Branch :: string
  bo_CommitSHA :: string
  bo_Dockerfile :: string
  bo_ImageTag :: string
  bo_Push :: bool
  bo_RegistryUsername :: string
  bo_RegistryPassword :: string

record BuildResult =
  br_ImageTag :: string
  br_CommitSHA :: string

record 'w DeployTriggerHandler =
  dh_runtime :: "'w deploy_runtime option"
  dh_nodes :: "(string \<Rightarrow> 'w deploy_runtime option) option"
  dh_buildGit :: "BuildOpts \<Rightarrow> 'w \<Rightarrow> 'w \<times> (string + BuildResult)"
  dh_buildRepo :: string
  dh_buildPush :: bool
  dh_buildUser :: string
  dh_buildPass :: string

definition isRemoteApp :: "Application \<Rightarrow> bool" where
  "isRemoteApp app \<longleftrightarrow> ap_ServerID app \<noteq> [] \<and> ap_ServerID app \<noteq> ''local''"

definition deployRuntimeForApp :: "'w DeployTriggerHandler \<Rightarrow> Application \<Rightarrow> deploy_failure + 'w deploy_runtime" where
  "deployRuntimeForApp h app =
     (if isRemoteApp app then
        (case dh_nodes h of
           None \<Rightarrow> Inl (NotConnected (ap_ServerID app))
         | Some nodes \<Rightarrow> (case nodes (ap_ServerID app) of None \<Rightarrow> Inl (NotConnected (ap_ServerID app)) | Some rt \<Rightarrow> Inr rt))
      else (case dh_runtime h of None \<Rightarrow> Inl NoContainerRuntime | Some rt \<Rightarrow> Inr rt))"

definition domain_labels :: "string \<Rightarrow> string \<Rightarrow> nat \<Rightarrow> Domain \<Rightarrow> (string \<times> string) list" where
  "domain_labels appName port i domain =
     (let routerName = appName @ ''-'' @ itoa (int i)
      in [(''monster.http.routers.'' @ routerName @ ''.rule'', ''Host(`'' @ dn_FQDN domain @ ''`)''),
          (''monster.http.services.'' @ routerName @ ''.loadbalancer.server.port'', port)])"

definition all_domain_labels :: "Application \<Rightarrow> Domain list \<Rightarrow> (string \<times> string) list" where
  "all_domain_labels app domains =
     (let port = (if ap_Port app \<le> 0 then 80 else ap_Port app)
      in concat (map (\<lambda>(i, d). domain_labels (ap_Name app) (itoa port) i d) (enumerate 0 domains)))"

definition buildDeployLabels :: "bool \<Rightarrow> Application \<Rightarrow> int \<Rightarrow> AppDB \<Rightarrow> (string \<times> string) list" where
  "buildDeployLabels io app version db =
     [(''monster.enable'', ''true''), (''monster.app.id'', ap_ID app), (''monster.app.name'', ap_Name app),
      (''monster.project'', ap_ProjectID app), (''monster.tenant'', ap_TenantID app), (''monster.deploy.version'', itoa version)]
     @ (case ListDomainsByApp io (ap_ID app) (ap_TenantID app) db of None \<Rightarrow> [] | Some domains \<Rightarrow> all_domain_labels app domains)"

definition deploy_opts :: "string \<Rightarrow> string \<Rightarrow> (string \<times> string) list \<Rightarrow> ContainerOpts" where
  "deploy_opts name img labels =
     \<lparr>co_Name = name, co_Image = img, co_Env = [], co_Labels = labels, co_Ports = [], co_Volumes = [], co_Network = ''monster-network'',
      co_CPUQuota = 0, co_MemoryMB = 0, co_RestartPolicy = ''unless-stopped'', co_AllowDockerSocket = False, co_Privileged = False\<rparr>"

definition container_name :: "string \<Rightarrow> int \<Rightarrow> string" where
  "container_name appID version = ''dm-'' @ appID @ ''-'' @ itoa version"

definition ensureDeployNetwork :: "'w deploy_runtime \<Rightarrow> 'w \<Rightarrow> 'w \<times> string option" where
  "ensureDeployNetwork rt w = (case dr_network rt of None \<Rightarrow> (w, None) | Some ensure \<Rightarrow> ensure ''monster-network'' w)"

definition drop_container :: "'w deploy_runtime \<Rightarrow> string \<Rightarrow> 'w \<Rightarrow> 'w" where
  "drop_container rt ref w = fst (rt_Remove (dr_api rt) ref True (fst (rt_Stop (dr_api rt) ref w)))"

definition cleanupPreviousAppContainers :: "'w deploy_runtime \<Rightarrow> string \<Rightarrow> string \<Rightarrow> 'w \<Rightarrow> 'w" where
  "cleanupPreviousAppContainers rt appID keepID w =
     (case dr_list rt [(''monster.app.id'', appID)] w of
        None \<Rightarrow> w
      | Some cs \<Rightarrow> fold (\<lambda>c w. if ci_ID c = [] \<or> ci_ID c = keepID then w else drop_container rt (ci_ID c) w) cs w)"

definition failApp :: "bool \<Rightarrow> Application \<Rightarrow> 'w plant \<Rightarrow> 'w plant" where
  "failApp io app pl = set_status io (ap_ID app) ''failed'' (ap_TenantID app) pl"

definition failAppAndPublish :: "bool \<Rightarrow> string \<Rightarrow> Application \<Rightarrow> deploy_failure \<Rightarrow> 'w plant \<Rightarrow> 'w plant" where
  "failAppAndPublish io eventType app e pl =
     publishAsync \<lparr>dv_Type = eventType, dv_Source = ''deploy_trigger'', dv_Data = EvMap (ap_ID app) e\<rparr> (failApp io app pl)"

definition publishDeployFailed :: "string \<Rightarrow> string \<Rightarrow> deploy_failure \<Rightarrow> 'w plant \<Rightarrow> 'w plant" where
  "publishDeployFailed source appID e pl = publishAsync \<lparr>dv_Type = ''deploy.failed'', dv_Source = source, dv_Data = EvMap appID e\<rparr> pl"

definition failReservedDeployment :: "(db_site \<Rightarrow> bool) \<Rightarrow> time \<Rightarrow> Application \<Rightarrow> Deployment \<Rightarrow> 'w plant \<Rightarrow> 'w plant" where
  "failReservedDeployment io now app dep pl =
     (let pl1 = set_status (io AtFailedApp) (ap_ID app) ''failed'' (ap_TenantID app) pl
      in if de_ID dep = [] then pl1
         else save_row (io AtFailedRow) (dep\<lparr>de_Status := ''failed'', de_FinishedAt := Some now\<rparr>) pl1)"

definition failReserved :: "(db_site \<Rightarrow> bool) \<Rightarrow> time \<Rightarrow> Application \<Rightarrow> Deployment \<Rightarrow> deploy_failure \<Rightarrow> 'w plant \<Rightarrow> 'w plant" where
  "failReserved io now app dep e pl = publishDeployFailed ''deploy_trigger'' (ap_ID app) e (failReservedDeployment io now app dep pl)"

definition git_build_opts :: "'w DeployTriggerHandler \<Rightarrow> string \<times> string \<Rightarrow> Application \<Rightarrow> string \<Rightarrow> BuildOpts" where
  "git_build_opts h fresh app commitSHA =
     (let opts = \<lparr>bo_AppID = ap_ID app, bo_AppName = ap_Name app, bo_SourceURL = ap_SourceURL app, bo_Branch = ap_Branch app,
                  bo_CommitSHA = commitSHA, bo_Dockerfile = ap_Dockerfile app, bo_ImageTag = [], bo_Push = False,
                  bo_RegistryUsername = [], bo_RegistryPassword = []\<rparr>
      in if isRemoteApp app \<and> dh_buildRepo h \<noteq> []
         then opts\<lparr>bo_ImageTag := buildImageTagForRegistry fresh (dh_buildRepo h) app commitSHA, bo_Push := dh_buildPush h,
                   bo_RegistryUsername := dh_buildUser h, bo_RegistryPassword := dh_buildPass h\<rparr>
         else opts)"

definition new_deployment :: "string \<Rightarrow> string \<Rightarrow> string \<Rightarrow> string \<Rightarrow> Deployment" where
  "new_deployment appID img commitSHA triggeredBy =
     \<lparr>de_ID = [], de_AppID = appID, de_Version = 0, de_Image = img, de_ContainerID = [], de_Status = ''deploying'', de_BuildLog = [],
      de_CommitSHA = commitSHA, de_CommitMessage = [], de_TriggeredBy = triggeredBy, de_Strategy = ''recreate'', de_StartedAt = None,
      de_FinishedAt = None, de_CreatedAt = 0\<rparr>"

definition deployed_event :: "Deployment \<Rightarrow> string \<Rightarrow> deploy_event" where
  "deployed_event d sha =
     \<lparr>dv_Type = ''app.deployed'', dv_Source = ''deploy_trigger'',
      dv_Data = EvDeploy \<lparr>dd_AppID = de_AppID d, dd_DeploymentID = de_ID d, dd_Version = de_Version d, dd_Image = de_Image d,
                          dd_ContainerID = de_ContainerID d, dd_Strategy = ''recreate'', dd_CommitSHA = sha\<rparr>\<rparr>"

text \<open>From the reserved row on.\<close>

definition deploy_reserved ::
  "(db_site \<Rightarrow> bool) \<Rightarrow> time \<Rightarrow> 'w deploy_runtime \<Rightarrow> Application \<Rightarrow> Deployment \<Rightarrow> 'w plant \<Rightarrow> 'w plant \<times> deploy_failure option" where
  "deploy_reserved io now rt app dep pl =
     (let labels = buildDeployLabels (io AtDomains) app (de_Version dep) (pl_db pl)
      in case ensureDeployNetwork rt (pl_world pl) of
           (w1, Some e) \<Rightarrow> (failReserved io now app dep (DeployNetworkError e) (pl\<lparr>pl_world := w1\<rparr>), Some (DeployNetworkError e))
         | (w1, None) \<Rightarrow>
             (case CreateAndStart (dr_api rt) (dr_mgr rt) (deploy_opts (container_name (ap_ID app) (de_Version dep)) (de_Image dep) labels) w1 of
                (w2, Inl e) \<Rightarrow> (failReserved io now app dep (DeployStartError e) (pl\<lparr>pl_world := w2\<rparr>), Some (DeployStartError e))
              | (w2, Inr containerID) \<Rightarrow>
                  let w3 = cleanupPreviousAppContainers rt (ap_ID app) containerID w2;
                      dep' = dep\<lparr>de_ContainerID := containerID, de_Status := ''running''\<rparr>;
                      pl' = set_status (io AtStatus) (ap_ID app) ''running'' (ap_TenantID app) (save_row (io AtRow) dep' (pl\<lparr>pl_world := w3\<rparr>))
                  in (publishAsync (deployed_event dep' (de_CommitSHA dep)) pl', None)))"

definition deployGitApp ::
  "'w DeployTriggerHandler \<Rightarrow> (db_site \<Rightarrow> bool) \<Rightarrow> time \<Rightarrow> string \<Rightarrow> string \<times> string \<Rightarrow> Application \<Rightarrow> string \<Rightarrow> string \<Rightarrow> 'w plant \<Rightarrow>
   'w plant \<times> deploy_failure option" where
  "deployGitApp h io now fresh freshTag app triggeredBy commitSHA pl =
     (case dh_runtime h of
        None \<Rightarrow> (failAppAndPublish (io AtFailedApp) ''deploy.failed'' app NoContainerRuntime pl, Some NoContainerRuntime)
      | Some _ \<Rightarrow>
          let pl1 = set_status (io AtBuilding) (ap_ID app) ''building'' (ap_TenantID app) pl
          in case dh_buildGit h (git_build_opts h freshTag app commitSHA) (pl_world pl1) of
               (w2, Inl e) \<Rightarrow> (failAppAndPublish (io AtFailedApp) ''build.failed'' app (BuildError e) (pl1\<lparr>pl_world := w2\<rparr>), Some (BuildError e))
             | (w2, Inr result) \<Rightarrow>
                 if isRemoteApp app \<and> \<not> imageRefHasRegistry (br_ImageTag result)
                 then (failAppAndPublish (io AtFailedApp) ''deploy.failed'' app (NeedsRegistry (br_ImageTag result)) (pl1\<lparr>pl_world := w2\<rparr>),
                       Some (NeedsRegistry (br_ImageTag result)))
                 else
                   let pl3 = set_status (io AtDeploying) (ap_ID app) ''deploying'' (ap_TenantID app) (pl1\<lparr>pl_world := w2\<rparr>)
                   in case deployRuntimeForApp h app of
                        Inl e \<Rightarrow> (failAppAndPublish (io AtFailedApp) ''deploy.failed'' app e pl3, Some e)
                      | Inr rt \<Rightarrow>
                          (case CreateDeploymentAtomicVersion (io AtReserve) now fresh
                                  (new_deployment (ap_ID app) (br_ImageTag result) (br_CommitSHA result) triggeredBy) (pl_db pl3) of
                             (db4, dep, ok) \<Rightarrow>
                               if \<not> ok
                               then (failAppAndPublish (io AtFailedApp) ''deploy.failed'' app ReserveFailed (pl3\<lparr>pl_db := db4\<rparr>), Some ReserveFailed)
                               else deploy_reserved io now rt app dep (pl3\<lparr>pl_db := db4\<rparr>)))"

section \<open>The endpoint and the webhook\<close>

datatype deploy_reply = DeployDone Deployment | DeployAccepted | DeployRefused nat

text \<open>The branch of an app that names an image, in the request.\<close>

definition deploy_image ::
  "'w DeployTriggerHandler \<Rightarrow> (db_site \<Rightarrow> bool) \<Rightarrow> time \<Rightarrow> string \<Rightarrow> Application \<Rightarrow> 'w plant \<Rightarrow> 'w plant \<times> deploy_reply" where
  "deploy_image h io now fresh app pl =
     (let pl1 = set_status (io AtDeploying) (ap_ID app) ''deploying'' (ap_TenantID app) pl;
          finish = (\<lambda>dep pl. (publishAsync (deployed_event dep []) (set_status (io AtStatus) (ap_ID app) ''running'' (ap_TenantID app) pl),
                              DeployDone dep))
      in case CreateDeploymentAtomicVersion (io AtReserve) now fresh (new_deployment (ap_ID app) (ap_SourceURL app) [] ''manual'') (pl_db pl1) of
           (db2, dep, ok) \<Rightarrow>
             if \<not> ok then (pl1\<lparr>pl_db := db2\<rparr>, DeployRefused 500)
             else
               let pl2 = pl1\<lparr>pl_db := db2\<rparr>
               in case deployRuntimeForApp h app of
                    Inr rt \<Rightarrow>
                      let labels = buildDeployLabels (io AtDomains) app (de_Version dep) (pl_db pl2)
                      in (case ensureDeployNetwork rt (pl_world pl2) of
                            (w1, Some e) \<Rightarrow> (failApp (io AtFailedApp) app (pl2\<lparr>pl_world := w1\<rparr>), DeployRefused 500)
                          | (w1, None) \<Rightarrow>
                              (case CreateAndStart (dr_api rt) (dr_mgr rt)
                                      (deploy_opts (container_name (ap_ID app) (de_Version dep)) (ap_SourceURL app) labels) w1 of
                                 (w2, Inl e) \<Rightarrow> (failApp (io AtFailedApp) app (pl2\<lparr>pl_world := w2\<rparr>), DeployRefused 500)
                               | (w2, Inr containerID) \<Rightarrow>
                                   let dep' = dep\<lparr>de_ContainerID := containerID\<rparr>; pl3 = save_row (io AtRow) dep' (pl2\<lparr>pl_world := w2\<rparr>)
                                   in finish dep' (pl3\<lparr>pl_world := cleanupPreviousAppContainers rt (ap_ID app) containerID (pl_world pl3)\<rparr>)))
                  | Inl e \<Rightarrow>
                      if ap_ServerID app \<noteq> [] then (failApp (io AtFailedApp) app pl2, DeployRefused 500)
                      else finish dep pl2)"

text \<open>An app with another source is built and deployed by a goroutine that runs \<open>deployGitApp\<close> with trigger \<open>manual\<close>.\<close>

definition TriggerDeploy ::
  "'w DeployTriggerHandler \<Rightarrow> (db_site \<Rightarrow> bool) \<Rightarrow> time \<Rightarrow> string \<Rightarrow> bool \<Rightarrow> Application \<Rightarrow> 'w plant \<Rightarrow> 'w plant \<times> deploy_reply" where
  "TriggerDeploy h io now fresh frozen app pl =
     (if frozen then (pl, DeployRefused 423)
      else if ap_SourceType app = ''image'' then deploy_image h io now fresh app pl
      else (pl, DeployAccepted))"

record WebhookEventData =
  wd_WebhookID :: string
  wd_Branch :: string
  wd_CommitSHA :: string

definition webhook_deploy ::
  "'w DeployTriggerHandler \<Rightarrow> (db_site \<Rightarrow> bool) \<Rightarrow> time \<Rightarrow> string \<Rightarrow> string \<times> string \<Rightarrow> bool \<Rightarrow> (Application \<Rightarrow> bool) \<Rightarrow> WebhookEventData \<Rightarrow>
   'w plant \<Rightarrow> 'w plant" where
  "webhook_deploy h io now fresh freshTag readOK frozen data pl =
     (if wd_WebhookID data = [] then pl
      else case GetApp readOK (wd_WebhookID data) (pl_db pl) of
             Inl e \<Rightarrow> pl
           | Inr app \<Rightarrow>
               if ap_SourceType app \<noteq> ''git'' then pl
               else if ap_Branch app \<noteq> [] \<and> wd_Branch data \<noteq> [] \<and> ap_Branch app \<noteq> wd_Branch data then pl
               else if frozen app then publishDeployFailed ''webhook_deploy'' (ap_ID app) DeployFrozen pl
               else fst (deployGitApp h io now fresh freshTag app ''webhook'' (wd_CommitSHA data) pl))"

section \<open>What the hosts promise\<close>

text \<open>
  \<open>view\<close> reads the world as the containers of the hosts by identifier. A call that names a container means the one with
  that identifier, or else the one with that name. Names are unique. A failing call changes nothing; stopping changes only
  whether a container runs; a listing returns the containers that carry the labels.
\<close>

record container_view =
  cv_running :: bool
  cv_name :: string
  cv_image :: string
  cv_labels :: "(string \<times> string) list"

definition refers :: "('w \<Rightarrow> string \<rightharpoonup> container_view) \<Rightarrow> 'w \<Rightarrow> string \<Rightarrow> string \<Rightarrow> bool" where
  "refers view w ref i \<longleftrightarrow> (if view w ref \<noteq> None then i = ref else (\<exists>c. view w i = Some c \<and> cv_name c = ref))"

definition created_view :: "create_request \<Rightarrow> container_view" where
  "created_view req = \<lparr>cv_running = False, cv_name = cr_Name req, cv_image = cr_Image req, cv_labels = cr_Labels req\<rparr>"

definition host_documented :: "'w deploy_runtime \<Rightarrow> ('w \<Rightarrow> string \<rightharpoonup> container_view) \<Rightarrow> bool" where
  "host_documented rt view \<longleftrightarrow>
     (\<forall>img w. view (fst (dk_pull (dr_api rt) img w)) = view w)
     \<and> (\<forall>req w. case dk_create (dr_api rt) req w of
            (w', Inr cid) \<Rightarrow> view w cid = None \<and> cid \<noteq> [] \<and> (\<forall>i c. view w i = Some c \<longrightarrow> cv_name c \<noteq> cr_Name req) \<and> view w' = (view w)(cid \<mapsto> created_view req)
          | (w', Inl e) \<Rightarrow> view w' = view w)
     \<and> (\<forall>cid w c. view w cid = Some c \<longrightarrow> (case dk_start (dr_api rt) cid w of
            (w', None) \<Rightarrow> view w' = (view w)(cid \<mapsto> c\<lparr>cv_running := True\<rparr>)
          | (w', Some e) \<Rightarrow> view w' = view w))
     \<and> (\<forall>ref w i. (\<not> refers view w ref i \<longrightarrow> view (fst (dk_stop (dr_api rt) ref w)) i = view w i)
          \<and> map_option (cv_running_update (\<lambda>_. False)) (view (fst (dk_stop (dr_api rt) ref w)) i)
            = map_option (cv_running_update (\<lambda>_. False)) (view w i))
     \<and> (\<forall>ref w. case dk_remove (dr_api rt) ref True w of
            (w', None) \<Rightarrow> view w' = (\<lambda>i. if refers view w ref i then None else view w i)
          | (w', Some e) \<Rightarrow> view w' = view w)
     \<and> (\<forall>fs w cs. dr_list rt fs w = Some cs \<longrightarrow>
          distinct (map ci_ID cs) \<and> ci_ID ` set cs = {i. \<exists>c. view w i = Some c \<and> set fs \<subseteq> set (cv_labels c)})
     \<and> (\<forall>w. view w [] = None)
     \<and> (\<forall>cid w r. dr_stats rt cid w = Some r \<longrightarrow> map_option cv_running (view w cid) = Some r)
     \<and> (\<forall>ensure net w. dr_network rt = Some ensure \<longrightarrow> view (fst (ensure net w)) = view w)"

definition removes :: "'w deploy_runtime \<Rightarrow> ('w \<Rightarrow> string \<rightharpoonup> container_view) \<Rightarrow> bool" where
  "removes rt view \<longleftrightarrow> (\<forall>cid w. view w cid \<noteq> None \<longrightarrow> snd (dk_remove (dr_api rt) cid True w) = None)"

lemma host_laws:
  assumes "host_documented rt view"
  shows "dk_pull (dr_api rt) img w = (w', x) \<Longrightarrow> view w' = view w"
    and "dk_create (dr_api rt) req w = (w', Inr cid) \<Longrightarrow>
      view w cid = None \<and> cid \<noteq> [] \<and> (\<forall>i c. view w i = Some c \<longrightarrow> cv_name c \<noteq> cr_Name req) \<and> view w' = (view w)(cid \<mapsto> created_view req)"
    and "dk_create (dr_api rt) req w = (w', Inl e) \<Longrightarrow> view w' = view w"
    and "view w cid = Some c \<Longrightarrow> dk_start (dr_api rt) cid w = (w', None) \<Longrightarrow> view w' = (view w)(cid \<mapsto> c\<lparr>cv_running := True\<rparr>)"
    and "view w cid = Some c \<Longrightarrow> dk_start (dr_api rt) cid w = (w', Some e) \<Longrightarrow> view w' = view w"
proof -
  note doc = assms[unfolded host_documented_def]
  note pull = spec[OF spec[OF conjunct1[OF doc]], of img w]
  note create = spec[OF spec[OF conjunct1[OF conjunct2[OF doc]]], of w req]
  have start: "view w cid = Some c \<longrightarrow> (case dk_start (dr_api rt) cid w of
      (w', None) \<Rightarrow> view w' = (view w)(cid \<mapsto> c\<lparr>cv_running := True\<rparr>) | (w', Some e) \<Rightarrow> view w' = view w)"
    using conjunct1[OF conjunct2[OF conjunct2[OF doc]]] by (elim allE)
  show "dk_pull (dr_api rt) img w = (w', x) \<Longrightarrow> view w' = view w"
    using pull by simp
  show "dk_create (dr_api rt) req w = (w', Inr cid) \<Longrightarrow>
      view w cid = None \<and> cid \<noteq> [] \<and> (\<forall>i c. view w i = Some c \<longrightarrow> cv_name c \<noteq> cr_Name req) \<and> view w' = (view w)(cid \<mapsto> created_view req)"
    "dk_create (dr_api rt) req w = (w', Inl e) \<Longrightarrow> view w' = view w"
    using create by simp_all
  show "view w cid = Some c \<Longrightarrow> dk_start (dr_api rt) cid w = (w', None) \<Longrightarrow> view w' = (view w)(cid \<mapsto> c\<lparr>cv_running := True\<rparr>)"
    "view w cid = Some c \<Longrightarrow> dk_start (dr_api rt) cid w = (w', Some e) \<Longrightarrow> view w' = view w"
    using start by simp_all
qed

lemma host_stop:
  assumes "host_documented rt view"
  shows "\<not> refers view w ref i \<Longrightarrow> view (fst (rt_Stop (dr_api rt) ref w)) i = view w i"
    and "map_option (cv_running_update (\<lambda>_. False)) (view (fst (rt_Stop (dr_api rt) ref w)) i) = map_option (cv_running_update (\<lambda>_. False)) (view w i)"
  using assms unfolding host_documented_def rt_Stop_def by blast+

lemma host_remove:
  assumes "host_documented rt view"
  shows "view (fst (rt_Remove (dr_api rt) ref True w)) = (\<lambda>i. if refers view w ref i then None else view w i)
    \<or> view (fst (rt_Remove (dr_api rt) ref True w)) = view w"
    and "removes rt view \<Longrightarrow> view w ref \<noteq> None \<Longrightarrow> view (fst (rt_Remove (dr_api rt) ref True w)) = (view w)(ref := None)"
proof -
  have law: "case dk_remove (dr_api rt) ref True w of
        (w', None) \<Rightarrow> view w' = (\<lambda>i. if refers view w ref i then None else view w i) | (w', Some e) \<Rightarrow> view w' = view w"
    using conjunct1[OF conjunct2[OF conjunct2[OF conjunct2[OF conjunct2[OF assms[unfolded host_documented_def]]]]]] by (elim allE)
  then show "view (fst (rt_Remove (dr_api rt) ref True w)) = (\<lambda>i. if refers view w ref i then None else view w i)
    \<or> view (fst (rt_Remove (dr_api rt) ref True w)) = view w"
    by (auto simp: rt_Remove_def split: prod.splits option.splits)
  assume exists: "removes rt view" "view w ref \<noteq> None"
  then have "snd (dk_remove (dr_api rt) ref True w) = None" by (simp add: removes_def)
  with exists show "view (fst (rt_Remove (dr_api rt) ref True w)) = (view w)(ref := None)"
    using law by (auto simp: rt_Remove_def refers_def fun_eq_iff split: prod.splits option.splits)
qed

lemma host_list:
  assumes "host_documented rt view" "dr_list rt fs w = Some cs"
  shows "distinct (map ci_ID cs)" "ci_ID ` set cs = {i. \<exists>c. view w i = Some c \<and> set fs \<subseteq> set (cv_labels c)}"
proof -
  have "\<forall>fs w cs. dr_list rt fs w = Some cs \<longrightarrow>
      distinct (map ci_ID cs) \<and> ci_ID ` set cs = {i. \<exists>c. view w i = Some c \<and> set fs \<subseteq> set (cv_labels c)}"
    using assms(1)[unfolded host_documented_def] by (elim conjE)
  then show "distinct (map ci_ID cs)" "ci_ID ` set cs = {i. \<exists>c. view w i = Some c \<and> set fs \<subseteq> set (cv_labels c)}"
    using assms(2) by simp_all
qed

lemma host_stats:
  assumes "host_documented rt view" "dr_stats rt cid w = Some r"
  shows "map_option cv_running (view w cid) = Some r"
proof -
  have "\<forall>cid w r. dr_stats rt cid w = Some r \<longrightarrow> map_option cv_running (view w cid) = Some r"
    using assms(1)[unfolded host_documented_def] by (elim conjE)
  then show ?thesis using assms(2) by simp
qed

lemma host_network:
  assumes "host_documented rt view"
  shows "view (fst (ensureDeployNetwork rt w)) = view w"
proof -
  have "\<forall>ensure net w. dr_network rt = Some ensure \<longrightarrow> view (fst (ensure net w)) = view w"
    using assms[unfolded host_documented_def] by (elim conjE)
  then show ?thesis by (simp add: ensureDeployNetwork_def split: option.splits)
qed

lemma host_nameless:
  assumes "host_documented rt view"
  shows "view w [] = None"
proof -
  have "\<forall>w. view w [] = None" using assms[unfolded host_documented_def] by (elim conjE)
  then show ?thesis by simp
qed

text \<open>Creating a container leaves the others alone; a failure leaves at most one new container that does not run.\<close>

lemma start_view:
  assumes "host_documented rt view" "CreateAndStart (dr_api rt) mgr (deploy_opts name img labels) w = (w', r)"
  shows "case r of
      Inr cid \<Rightarrow> view w cid = None \<and> cid \<noteq> [] \<and> (\<forall>i c. view w i = Some c \<longrightarrow> cv_name c \<noteq> name)
        \<and> view w' = (view w)(cid \<mapsto> \<lparr>cv_running = True, cv_name = name, cv_image = img, cv_labels = labels\<rparr>)
    | Inl e \<Rightarrow> view w' = view w \<or> (\<exists>cid. view w cid = None \<and> (\<forall>i c. view w i = Some c \<longrightarrow> cv_name c \<noteq> name)
        \<and> view w' = (view w)(cid \<mapsto> \<lparr>cv_running = False, cv_name = name, cv_image = img, cv_labels = labels\<rparr>))"
proof -
  let ?opts = "ApplyResourceDefaults (dm_defaultCPU mgr) (dm_defaultMemMB mgr) (deploy_opts name img labels)"
  let ?req = "\<lparr>cr_Image = co_Image ?opts, cr_Env = co_Env ?opts, cr_Labels = co_Labels ?opts, cr_Host = host_config ?opts,
     cr_Networks = (if co_Network ?opts \<noteq> [] then [co_Network ?opts] else []), cr_Name = co_Name ?opts\<rparr>"
  have valid: "ValidateVolumePaths ?opts = None" by (simp add: ValidateVolumePaths_def ApplyResourceDefaults_def deploy_opts_def)
  have req: "cr_Name ?req = name" "created_view ?req = \<lparr>cv_running = False, cv_name = name, cv_image = img, cv_labels = labels\<rparr>"
    by (simp_all add: created_view_def ApplyResourceDefaults_def deploy_opts_def)
  obtain w1 pr where pull: "dk_pull (dr_api rt) (co_Image ?opts) w = (w1, pr)" by (meson surj_pair)
  obtain w2 cr where create: "dk_create (dr_api rt) ?req w1 = (w2, cr)" by (meson surj_pair)
  have w1: "view w1 = view w" using host_laws(1)[OF assms(1) pull] .
  have run: "(w', r) = (case pr of Some e \<Rightarrow> (w1, Inl (ImagePullFailed (co_Image ?opts) e))
     | None \<Rightarrow> (case cr of Inl e \<Rightarrow> (w2, Inl (ContainerCreateFailed e))
         | Inr cid \<Rightarrow> (case dk_start (dr_api rt) cid w2 of (w3, Some e) \<Rightarrow> (w3, Inl (ContainerStartFailed e)) | (w3, None) \<Rightarrow> (w3, Inr cid))))"
    unfolding assms(2)[symmetric] CreateAndStart_def Let_def valid option.case pull prod.case create
    by (simp split: option.splits sum.splits)
  show ?thesis
  proof (cases pr)
    case (Some e)
    then show ?thesis using run w1 by simp
  next
    case pr: None
    show ?thesis
    proof (cases cr)
      case (Inl e)
      then show ?thesis using run pr w1 host_laws(3)[OF assms(1)] create by simp
    next
      case (Inr cid)
      then have c: "view w cid = None" "cid \<noteq> []" "\<forall>i c. view w i = Some c \<longrightarrow> cv_name c \<noteq> name"
        "view w2 = (view w)(cid \<mapsto> \<lparr>cv_running = False, cv_name = name, cv_image = img, cv_labels = labels\<rparr>)"
        using host_laws(2)[OF assms(1), of ?req w1 w2 cid] create w1 req by auto
      obtain w3 sr where start: "dk_start (dr_api rt) cid w2 = (w3, sr)" by (meson surj_pair)
      show ?thesis
      proof (cases sr)
        case None
        then have "view w3 = (view w)(cid \<mapsto> \<lparr>cv_running = True, cv_name = name, cv_image = img, cv_labels = labels\<rparr>)"
          using host_laws(4)[OF assms(1) _ start[unfolded None]] c(4) by simp
        then show ?thesis using run pr Inr start None c by simp
      next
        case (Some e)
        then have "view w3 = view w2" using host_laws(5)[OF assms(1) _ start[unfolded Some]] c(4) by simp
        then show ?thesis using run pr Inr start Some c by auto
      qed
    qed
  qed
qed

lemma drop_view:
  assumes "host_documented rt view" "view w ref \<noteq> None"
  shows "i \<noteq> ref \<Longrightarrow> view (drop_container rt ref w) i = view w i" "removes rt view \<Longrightarrow> view (drop_container rt ref w) ref = None"
proof -
  let ?w = "fst (rt_Stop (dr_api rt) ref w)"
  have other: "view ?w i = view w i" if "i \<noteq> ref" for i using host_stop(1)[OF assms(1), of w ref i] that assms(2) by (simp add: refers_def)
  have here: "view ?w ref \<noteq> None" using host_stop(2)[OF assms(1), of ref w ref] assms(2) by auto
  show "i \<noteq> ref \<Longrightarrow> view (drop_container rt ref w) i = view w i"
    using host_remove(1)[OF assms(1), of ref ?w] other here by (auto simp: drop_container_def refers_def)
  show "removes rt view \<Longrightarrow> view (drop_container rt ref w) ref = None"
    using host_remove(2)[OF assms(1) _ here] by (simp add: drop_container_def)
qed

lemma drop_all_view:
  assumes "host_documented rt view" "distinct ids" "\<forall>i\<in>set ids. view w i \<noteq> None"
  shows "(\<forall>i. i \<notin> set ids \<longrightarrow> view (fold (drop_container rt) ids w) i = view w i)
    \<and> (removes rt view \<longrightarrow> (\<forall>i\<in>set ids. view (fold (drop_container rt) ids w) i = None))"
  using assms(2,3)
proof (induction ids arbitrary: w)
  case (Cons ref ids)
  let ?w = "drop_container rt ref w"
  have here: "view w ref \<noteq> None" using Cons.prems(2) by simp
  note one = drop_view[OF assms(1) here]
  have "\<forall>i\<in>set ids. view ?w i \<noteq> None" using Cons.prems one(1) by (metis distinct.simps(2) list.set_intros(2))
  then show ?case using Cons.IH[of ?w] Cons.prems(1) one by auto
qed simp

definition of_app :: "string \<Rightarrow> container_view \<Rightarrow> bool" where
  "of_app appID c \<longleftrightarrow> (''monster.app.id'', appID) \<in> set (cv_labels c)"

lemma cleanup_fold:
  "fold (\<lambda>c w. if ci_ID c = [] \<or> ci_ID c = keep then w else drop_container rt (ci_ID c) w) cs w =
   fold (drop_container rt) (filter (\<lambda>i. i \<noteq> [] \<and> i \<noteq> keep) (map ci_ID cs)) w"
  by (induction cs arbitrary: w) auto

lemma cleanup_view:
  assumes "host_documented rt view"
  shows "\<forall>i. \<not> (\<exists>c. view w i = Some c \<and> of_app appID c) \<or> i = keep \<longrightarrow> view (cleanupPreviousAppContainers rt appID keep w) i = view w i"
    "removes rt view \<Longrightarrow> dr_list rt [(''monster.app.id'', appID)] w \<noteq> None \<Longrightarrow> view w i = Some c \<Longrightarrow> of_app appID c \<Longrightarrow> i \<noteq> keep \<Longrightarrow>
     view (cleanupPreviousAppContainers rt appID keep w) i = None"
proof -
  let ?L = "dr_list rt [(''monster.app.id'', appID)] w" and ?w = "cleanupPreviousAppContainers rt appID keep w"
  have listed: "\<exists>ids. distinct ids \<and> set ids = {i. i \<noteq> keep \<and> (\<exists>c. view w i = Some c \<and> of_app appID c)} \<and> ?w = fold (drop_container rt) ids w"
    if "?L = Some cs" for cs
  proof (intro exI conjI)
    let ?ids = "filter (\<lambda>i. i \<noteq> [] \<and> i \<noteq> keep) (map ci_ID cs)"
    note l = host_list[OF assms that]
    show "distinct ?ids" using l(1) by (rule distinct_filter)
    have "i \<noteq> []" if "view w i = Some c" for i c using that host_nameless[OF assms, of w] by auto
    then show "set ?ids = {i. i \<noteq> keep \<and> (\<exists>c. view w i = Some c \<and> of_app appID c)}" using l(2) by (auto simp: of_app_def)
    show "?w = fold (drop_container rt) ?ids w" by (simp only: cleanupPreviousAppContainers_def that option.case cleanup_fold)
  qed
  show "\<forall>i. \<not> (\<exists>c. view w i = Some c \<and> of_app appID c) \<or> i = keep \<longrightarrow> view ?w i = view w i"
  proof (cases ?L)
    case (Some cs)
    then obtain ids where "distinct ids" "set ids = {i. i \<noteq> keep \<and> (\<exists>c. view w i = Some c \<and> of_app appID c)}" "?w = fold (drop_container rt) ids w"
      using listed by blast
    then show ?thesis using drop_all_view[OF assms, of ids w] by auto
  qed (simp add: cleanupPreviousAppContainers_def)
  assume r: "removes rt view" "?L \<noteq> None" "view w i = Some c" "of_app appID c" "i \<noteq> keep"
  then obtain ids where "distinct ids" "set ids = {i. i \<noteq> keep \<and> (\<exists>c. view w i = Some c \<and> of_app appID c)}" "?w = fold (drop_container rt) ids w"
    using listed by blast
  then show "view ?w i = None" using drop_all_view[OF assms, of ids w] r by auto
qed

section \<open>What a deployment leaves behind\<close>

text \<open>The containers after a deployment that failed: the old ones as they were, and at most new ones that do not run.\<close>

definition untouched :: "(string \<rightharpoonup> container_view) \<Rightarrow> (string \<rightharpoonup> container_view) \<Rightarrow> bool" where
  "untouched before after \<longleftrightarrow> before \<subseteq>\<^sub>m after \<and> (\<forall>i c. after i = Some c \<and> before i = None \<longrightarrow> \<not> cv_running c)"

definition replaced :: "string \<Rightarrow> string \<Rightarrow> container_view \<Rightarrow> (string \<rightharpoonup> container_view) \<Rightarrow> (string \<rightharpoonup> container_view)" where
  "replaced appID cid new before =
     (\<lambda>i. if i = cid then Some new else case before i of None \<Rightarrow> None | Some c \<Rightarrow> if of_app appID c then None else Some c)"

lemma map_le_Some: "m \<subseteq>\<^sub>m n \<Longrightarrow> m x = Some y \<Longrightarrow> n x = Some y"
  unfolding map_le_def by force

lemma untouched_refl [simp]: "untouched v v"
  by (auto simp: untouched_def)

lemma plant_frame [simp]:
  "pl_world (set_status io i st t pl) = pl_world pl" "pl_events (set_status io i st t pl) = pl_events pl"
  "pl_world (save_row io d pl) = pl_world pl" "pl_events (save_row io d pl) = pl_events pl"
  "pl_world (publishAsync ev pl) = pl_world pl" "pl_events (publishAsync ev pl) = pl_events pl @ [ev]"
  "pl_db (publishAsync ev pl) = pl_db pl"
  by (simp_all add: set_status_def save_row_def publishAsync_def)

lemma failing_frame [simp]:
  "pl_world (failApp io app pl) = pl_world pl" "pl_events (failApp io app pl) = pl_events pl"
  "pl_world (failAppAndPublish io ty app e pl) = pl_world pl"
  "pl_events (failAppAndPublish io ty app e pl) = pl_events pl @ [\<lparr>dv_Type = ty, dv_Source = ''deploy_trigger'', dv_Data = EvMap (ap_ID app) e\<rparr>]"
  "pl_world (failReserved sio now app d e pl) = pl_world pl"
  "pl_events (failReserved sio now app d e pl) = pl_events pl @ [\<lparr>dv_Type = ''deploy.failed'', dv_Source = ''deploy_trigger'', dv_Data = EvMap (ap_ID app) e\<rparr>]"
  by (simp_all add: failApp_def failAppAndPublish_def failReserved_def publishDeployFailed_def failReservedDeployment_def Let_def)

definition host_ready :: "'w deploy_runtime \<Rightarrow> ('w \<Rightarrow> string \<rightharpoonup> container_view) \<Rightarrow> string \<Rightarrow> bool" where
  "host_ready rt view appID \<longleftrightarrow> host_documented rt view \<and> removes rt view \<and> (\<forall>w. dr_list rt [(''monster.app.id'', appID)] w \<noteq> None)"

lemma started_replaced:
  assumes "host_ready rt view appID" "CreateAndStart (dr_api rt) mgr (deploy_opts name img labels) w = (w', Inr cid)"
  shows "view w cid = None \<and> cid \<noteq> [] \<and> view (cleanupPreviousAppContainers rt appID cid w') =
    replaced appID cid \<lparr>cv_running = True, cv_name = name, cv_image = img, cv_labels = labels\<rparr> (view w)"
proof -
  have host: "host_documented rt view" "removes rt view" "dr_list rt [(''monster.app.id'', appID)] w' \<noteq> None"
    using assms(1) by (auto simp: host_ready_def)
  have new: "view w cid = None" "cid \<noteq> []"
    "view w' = (view w)(cid \<mapsto> \<lparr>cv_running = True, cv_name = name, cv_image = img, cv_labels = labels\<rparr>)"
    using start_view[OF host(1) assms(2)] by simp_all
  have "view (cleanupPreviousAppContainers rt appID cid w') i =
    replaced appID cid \<lparr>cv_running = True, cv_name = name, cv_image = img, cv_labels = labels\<rparr> (view w) i" for i
  proof (cases "i \<noteq> cid \<and> (\<exists>c. view w i = Some c \<and> of_app appID c)")
    case True
    then obtain c where "view w' i = Some c" "of_app appID c" using new(3) by auto
    then show ?thesis using cleanup_view(2)[OF host(1-3)] True by (auto simp: replaced_def)
  next
    case False
    then have "view (cleanupPreviousAppContainers rt appID cid w') i = view w' i" using cleanup_view(1)[OF host(1)] new(3) by auto
    then show ?thesis using False new(3) by (auto simp: replaced_def split: option.splits)
  qed
  then show ?thesis using new by auto
qed

lemma failed_untouched:
  assumes "host_documented rt view" "CreateAndStart (dr_api rt) mgr (deploy_opts name img labels) w = (w', Inl e)"
  shows "untouched (view w) (view w')"
  using start_view[OF assms] by (auto simp: untouched_def map_le_def split: if_splits)

text \<open>The result of a deployment in terms of the containers and the event.\<close>

definition deploy_outcome ::
  "('w \<Rightarrow> string \<rightharpoonup> container_view) \<Rightarrow> Application \<Rightarrow> 'w plant \<Rightarrow> 'w plant \<times> deploy_failure option \<Rightarrow> bool" where
  "deploy_outcome view app pl res \<longleftrightarrow>
     (case res of
        (pl', None) \<Rightarrow>
          (\<exists>dep labels. view (pl_world pl) (de_ContainerID dep) = None \<and> de_ContainerID dep \<noteq> []
             \<and> view (pl_world pl') = replaced (ap_ID app) (de_ContainerID dep)
                 \<lparr>cv_running = True, cv_name = container_name (ap_ID app) (de_Version dep), cv_image = de_Image dep, cv_labels = labels\<rparr> (view (pl_world pl))
             \<and> (''monster.app.id'', ap_ID app) \<in> set labels
             \<and> pl_events pl' = pl_events pl @ [deployed_event dep (de_CommitSHA dep)])
      | (pl', Some e) \<Rightarrow>
          untouched (view (pl_world pl)) (view (pl_world pl'))
          \<and> (\<exists>ev. pl_events pl' = pl_events pl @ [ev] \<and> dv_Data ev = EvMap (ap_ID app) e \<and> dv_Type ev \<in> {''deploy.failed'', ''build.failed''}))"

lemma reserved_outcome:
  assumes "host_ready rt view (ap_ID app)"
  shows "deploy_outcome view app pl (deploy_reserved io now rt app dep pl)"
proof -
  have doc: "host_documented rt view" using assms by (simp add: host_ready_def)
  let ?labels = "buildDeployLabels (io AtDomains) app (de_Version dep) (pl_db pl)"
  let ?opts = "deploy_opts (container_name (ap_ID app) (de_Version dep)) (de_Image dep) ?labels"
  obtain w1 ne where net: "ensureDeployNetwork rt (pl_world pl) = (w1, ne)" by (meson surj_pair)
  have w1: "view w1 = view (pl_world pl)" using host_network[OF doc, of "pl_world pl"] net by simp
  obtain w2 r where run: "CreateAndStart (dr_api rt) (dr_mgr rt) ?opts w1 = (w2, r)" by (meson surj_pair)
  show ?thesis
  proof (cases ne)
    case (Some e)
    then show ?thesis using net w1 by (simp add: deploy_reserved_def deploy_outcome_def)
  next
    case ne: None
    show ?thesis
    proof (cases r)
      case (Inl e)
      then show ?thesis using ne net run failed_untouched[OF doc run[unfolded Inl]] w1
        by (simp add: deploy_reserved_def deploy_outcome_def)
    next
      case (Inr cid)
      have label: "(''monster.app.id'', ap_ID app) \<in> set ?labels" by (simp add: buildDeployLabels_def)
      have eq: "deploy_reserved io now rt app dep pl = (publishAsync (deployed_event (dep\<lparr>de_ContainerID := cid, de_Status := ''running''\<rparr>) (de_CommitSHA dep))
           (set_status (io AtStatus) (ap_ID app) ''running'' (ap_TenantID app)
              (save_row (io AtRow) (dep\<lparr>de_ContainerID := cid, de_Status := ''running''\<rparr>)
                (pl\<lparr>pl_world := cleanupPreviousAppContainers rt (ap_ID app) cid w2\<rparr>))), None)"
        by (simp add: deploy_reserved_def net ne run Inr Let_def)
      show ?thesis
        unfolding eq deploy_outcome_def
        using started_replaced[OF assms run[unfolded Inr]] w1 label
        by (auto intro!: exI[of _ "dep\<lparr>de_ContainerID := cid, de_Status := ''running''\<rparr>"] exI[of _ ?labels])
    qed
  qed
qed

lemma outcome_from:
  assumes "deploy_outcome view app pl r" "view (pl_world pl) = view (pl_world pl0)" "pl_events pl = pl_events pl0"
  shows "deploy_outcome view app pl0 r"
  using assms(1) unfolding deploy_outcome_def assms(2,3) .

lemma git_outcome:
  assumes "\<forall>rt. deployRuntimeForApp h app = Inr rt \<longrightarrow> host_ready rt view (ap_ID app)"
    "\<forall>opts w. view (fst (dh_buildGit h opts w)) = view w"
  shows "deploy_outcome view app pl (deployGitApp h io now fresh tags app triggeredBy commitSHA pl)"
proof (cases "dh_runtime h")
  case None
  then show ?thesis by (simp add: deployGitApp_def deploy_outcome_def)
next
  case (Some rt0)
  let ?pl1 = "set_status (io AtBuilding) (ap_ID app) ''building'' (ap_TenantID app) pl"
  obtain w2 res where build: "dh_buildGit h (git_build_opts h tags app commitSHA) (pl_world ?pl1) = (w2, res)" by (meson surj_pair)
  then have w2: "view w2 = view (pl_world pl)" using assms(2) by (metis fst_conv plant_frame(1))
  show ?thesis
  proof (cases res)
    case (Inl e)
    then show ?thesis using Some build w2 by (simp add: deployGitApp_def deploy_outcome_def Let_def)
  next
    case (Inr result)
    let ?pl3 = "set_status (io AtDeploying) (ap_ID app) ''deploying'' (ap_TenantID app) (?pl1\<lparr>pl_world := w2\<rparr>)"
    let ?dep = "new_deployment (ap_ID app) (br_ImageTag result) (br_CommitSHA result) triggeredBy"
    obtain db4 dep ok where create: "CreateDeploymentAtomicVersion (io AtReserve) now fresh ?dep (pl_db ?pl3) = (db4, dep, ok)"
      by (meson prod_cases3)
    show ?thesis
    proof (cases "isRemoteApp app \<and> \<not> imageRefHasRegistry (br_ImageTag result)")
      case True
      then show ?thesis using Some build Inr w2 by (simp add: deployGitApp_def deploy_outcome_def Let_def)
    next
      case False
      show ?thesis
      proof (cases "deployRuntimeForApp h app")
        case (Inl e)
        then show ?thesis using Some build Inr False w2 by (simp add: deployGitApp_def deploy_outcome_def Let_def)
      next
        case rt: (Inr rt)
        have eq: "deployGitApp h io now fresh tags app triggeredBy commitSHA pl =
          (if \<not> ok then (failAppAndPublish (io AtFailedApp) ''deploy.failed'' app ReserveFailed (?pl3\<lparr>pl_db := db4\<rparr>), Some ReserveFailed)
           else deploy_reserved io now rt app dep (?pl3\<lparr>pl_db := db4\<rparr>))"
          using Some build Inr False rt create by (auto simp: deployGitApp_def Let_def)
        have "deploy_outcome view app (?pl3\<lparr>pl_db := db4\<rparr>) (deploy_reserved io now rt app dep (?pl3\<lparr>pl_db := db4\<rparr>))"
          using assms(1) rt by (intro reserved_outcome) blast
        then have "deploy_outcome view app pl (deploy_reserved io now rt app dep (?pl3\<lparr>pl_db := db4\<rparr>))"
          by (rule outcome_from) (simp_all add: w2)
        then show ?thesis using w2 unfolding eq by (cases ok) (simp_all add: deploy_outcome_def[of _ _ _ "(_, Some ReserveFailed)"])
      qed
    qed
  qed
qed


section \<open>A host\<close>

text \<open>A host that keeps its containers in a list and names their identifiers after them; the image \<open>bad\<close> does not start.\<close>

type_synonym ex_world = "(string \<times> container_view) list"

definition ex_view :: "ex_world \<Rightarrow> string \<rightharpoonup> container_view" where
  "ex_view w i = (if i = [] then None else map_of w i)"

definition ex_refers :: "ex_world \<Rightarrow> string \<Rightarrow> string \<Rightarrow> bool" where
  "ex_refers w ref i \<longleftrightarrow> (if ex_view w ref \<noteq> None then i = ref else (case ex_view w i of None \<Rightarrow> False | Some c \<Rightarrow> cv_name c = ref))"

definition ex_docker :: "ex_world docker_api" where
  "ex_docker =
     \<lparr>dk_pull = (\<lambda>img w. (w, None)),
      dk_create = (\<lambda>req w. let cid = ''c-'' @ cr_Name req
                           in if ex_view w cid = None \<and> cr_Name req \<notin> (\<lambda>(i, c). cv_name c) ` set w
                              then ((cid, created_view req) # w, Inr cid) else (w, Inl ''name in use'')),
      dk_start = (\<lambda>cid w. case ex_view w cid of
                            None \<Rightarrow> (w, Some ''no such container'')
                          | Some c \<Rightarrow> if cv_image c = ''bad'' then (w, Some ''exec format error'') else ((cid, c\<lparr>cv_running := True\<rparr>) # w, None)),
      dk_stop = (\<lambda>ref w. (map (\<lambda>(i, c). (i, if ex_refers w ref i then c\<lparr>cv_running := False\<rparr> else c)) w, None)),
      dk_remove = (\<lambda>ref force w. (filter (\<lambda>(i, c). \<not> ex_refers w ref i) w, None))\<rparr>"

definition ex_list :: "(string \<times> string) list \<Rightarrow> ex_world \<Rightarrow> ContainerInfo list option" where
  "ex_list fs w =
     Some (map (\<lambda>i. case ex_view w i of
                      None \<Rightarrow> \<lparr>ci_ID = i, ci_State = ''exited'', ci_Labels = []\<rparr>
                    | Some c \<Rightarrow> \<lparr>ci_ID = i, ci_State = (if cv_running c then ''running'' else ''exited''), ci_Labels = cv_labels c\<rparr>)
            (remdups (filter (\<lambda>i. case ex_view w i of None \<Rightarrow> False | Some c \<Rightarrow> list_all (\<lambda>f. f \<in> set (cv_labels c)) fs) (map fst w))))"

definition ex_host :: "ex_world deploy_runtime" where
  "ex_host = \<lparr>dr_api = ex_docker, dr_mgr = \<lparr>dm_defaultCPU = 0, dm_defaultMemMB = 0\<rparr>, dr_list = ex_list,
     dr_stats = (\<lambda>cid w. map_option cv_running (ex_view w cid)), dr_restart = (\<lambda>cid w. (w, None)), dr_network = None\<rparr>"

lemma ex_refers_eq: "ex_refers w ref i = refers ex_view w ref i"
  by (auto simp: ex_refers_def refers_def split: option.splits)

lemma ex_stop_view:
  "ex_view (map (\<lambda>(i, c). (i, if P i then c\<lparr>cv_running := False\<rparr> else c)) w) i = map_option (\<lambda>c. if P i then c\<lparr>cv_running := False\<rparr> else c) (ex_view w i)"
  by (induction w) (auto simp: ex_view_def)

lemma ex_remove_view: "ex_view (filter (\<lambda>(i, c). \<not> P i) w) i = (if P i then None else ex_view w i)"
  by (induction w) (auto simp: ex_view_def)

lemma ex_list_ids:
  assumes "ex_list fs w = Some cs"
  shows "distinct (map ci_ID cs)" "ci_ID ` set cs = {i. \<exists>c. ex_view w i = Some c \<and> set fs \<subseteq> set (cv_labels c)}"
proof -
  have ids: "map ci_ID cs = remdups (filter (\<lambda>i. case ex_view w i of None \<Rightarrow> False | Some c \<Rightarrow> list_all (\<lambda>f. f \<in> set (cv_labels c)) fs) (map fst w))"
    using assms by (auto simp: ex_list_def o_def split: option.splits intro!: map_idI)
  then show "distinct (map ci_ID cs)" by simp
  have "ex_view w i = Some c \<Longrightarrow> i \<in> fst ` set w" for i c by (auto simp: ex_view_def split: if_splits dest: map_of_SomeD intro: rev_image_eqI)
  then show "ci_ID ` set cs = {i. \<exists>c. ex_view w i = Some c \<and> set fs \<subseteq> set (cv_labels c)}"
    using arg_cong[OF ids, of set] by (auto simp: list_all_iff split: option.splits)
qed

lemma ex_created:
  assumes "dk_create ex_docker req w = (w', Inr cid)"
  shows "ex_view w cid = None" "cid \<noteq> []" "\<forall>i c. ex_view w i = Some c \<longrightarrow> cv_name c \<noteq> cr_Name req" "ex_view w' = (ex_view w)(cid \<mapsto> created_view req)"
proof -
  have c: "cid = ''c-'' @ cr_Name req" "ex_view w cid = None" "cr_Name req \<notin> (\<lambda>(i, c). cv_name c) ` set w" "w' = (cid, created_view req) # w"
    using assms by (auto simp: ex_docker_def Let_def split: if_splits)
  show "ex_view w cid = None" "cid \<noteq> []" using c by simp_all
  show "\<forall>i c. ex_view w i = Some c \<longrightarrow> cv_name c \<noteq> cr_Name req"
    using c(3) by (force simp: ex_view_def split: if_splits dest: map_of_SomeD)
  show "ex_view w' = (ex_view w)(cid \<mapsto> created_view req)" using c(1,4) by (auto simp: ex_view_def fun_eq_iff)
qed

lemma ex_host_documented: "host_documented ex_host ex_view"
  unfolding host_documented_def
proof (intro conjI allI impI)
  fix req w
  show "case dk_create (dr_api ex_host) req w of
      (w', Inr cid) \<Rightarrow> ex_view w cid = None \<and> cid \<noteq> [] \<and> (\<forall>i c. ex_view w i = Some c \<longrightarrow> cv_name c \<noteq> cr_Name req) \<and> ex_view w' = (ex_view w)(cid \<mapsto> created_view req)
    | (w', Inl e) \<Rightarrow> ex_view w' = ex_view w"
  proof (cases "dk_create ex_docker req w")
    case (Pair w' r)
    show ?thesis
    proof (cases r)
      case (Inl e)
      then show ?thesis using Pair by (auto simp: ex_host_def ex_docker_def Let_def split: if_splits)
    next
      case (Inr cid)
      then show ?thesis using Pair ex_created[of req w w' cid] by (simp add: ex_host_def)
    qed
  qed
next
  fix cid w c assume "ex_view w cid = Some c"
  then show "case dk_start (dr_api ex_host) cid w of
      (w', None) \<Rightarrow> ex_view w' = (ex_view w)(cid \<mapsto> c\<lparr>cv_running := True\<rparr>) | (w', Some e) \<Rightarrow> ex_view w' = ex_view w"
    by (auto simp: ex_host_def ex_docker_def ex_view_def fun_eq_iff split: if_splits)
next
  fix ref w i assume "\<not> refers ex_view w ref i"
  then show "ex_view (fst (dk_stop (dr_api ex_host) ref w)) i = ex_view w i"
    by (simp add: ex_host_def ex_docker_def ex_stop_view ex_refers_eq option.map_ident)
next
  fix ref w i
  show "map_option (cv_running_update (\<lambda>_. False)) (ex_view (fst (dk_stop (dr_api ex_host) ref w)) i) = map_option (cv_running_update (\<lambda>_. False)) (ex_view w i)"
    by (cases "ex_view w i") (simp_all add: ex_host_def ex_docker_def ex_stop_view)
next
  fix ref w
  show "case dk_remove (dr_api ex_host) ref True w of
      (w', None) \<Rightarrow> ex_view w' = (\<lambda>i. if refers ex_view w ref i then None else ex_view w i) | (w', Some e) \<Rightarrow> ex_view w' = ex_view w"
    by (auto simp: ex_host_def ex_docker_def ex_remove_view ex_refers_eq)
next
  fix fs w cs assume "dr_list ex_host fs w = Some cs"
  then have "ex_list fs w = Some cs" by (simp add: ex_host_def)
  then show "distinct (map ci_ID cs)" "ci_ID ` set cs = {i. \<exists>c. ex_view w i = Some c \<and> set fs \<subseteq> set (cv_labels c)}"
    by (rule ex_list_ids)+
qed (simp_all add: ex_host_def ex_docker_def ex_view_def)

lemma ex_host_ready: "host_ready ex_host ex_view appID"
  using ex_host_documented by (simp add: host_ready_def removes_def) (simp add: ex_host_def ex_docker_def ex_list_def)

definition ex_app :: Application where
  "ex_app = \<lparr>ap_ID = ''a'', ap_ProjectID = ''p'', ap_TenantID = ''t'', ap_Name = ''web'', ap_Type = ''service'', ap_SourceType = ''git'',
     ap_SourceURL = ''u'', ap_Branch = ''main'', ap_Dockerfile = [], ap_BuildPack = [], ap_EnvVarsEnc = [], ap_LabelsJSON = [], ap_Replicas = 1,
     ap_Port = 0, ap_Status = ''running'', ap_ServerID = []\<rparr>"

text \<open>The app runs its first version beside a container of another app.\<close>

definition ex_old :: container_view where
  "ex_old = \<lparr>cv_running = True, cv_name = ''dm-a-1'', cv_image = ''i:1'', cv_labels = [(''monster.app.id'', ''a'')]\<rparr>"

definition ex_plant :: "ex_world plant" where
  "ex_plant = \<lparr>pl_db = \<lparr>db_apps = [ex_app], db_deps = [(new_deployment ''a'' ''i:1'' [] ''manual'')\<lparr>de_ID := ''d1'', de_Version := 1,
       de_ContainerID := ''c-dm-a-1'', de_Status := ''running''\<rparr>], db_domains = []\<rparr>,
     pl_world = [(''c-dm-a-1'', ex_old), (''c-x'', ex_old\<lparr>cv_name := ''x'', cv_labels := []\<rparr>)], pl_events = []\<rparr>"

definition ex_handler :: "string \<Rightarrow> ex_world DeployTriggerHandler" where
  "ex_handler img = \<lparr>dh_runtime = Some ex_host, dh_nodes = None, dh_buildGit = (\<lambda>opts w. (w, Inr \<lparr>br_ImageTag = img, br_CommitSHA = ''s''\<rparr>)),
     dh_buildRepo = [], dh_buildPush = False, dh_buildUser = [], dh_buildPass = []\<rparr>"

definition ex_git :: "string \<Rightarrow> ex_world plant \<times> deploy_failure option" where
  "ex_git img = deployGitApp (ex_handler img) (\<lambda>_. True) 5 ''d2'' ([], []) ex_app ''manual'' [] ex_plant"

lemma ex_handler_ready:
  "\<forall>rt. deployRuntimeForApp (ex_handler img) app = Inr rt \<longrightarrow> host_ready rt ex_view (ap_ID app)"
  "\<forall>opts w. ex_view (fst (dh_buildGit (ex_handler img) opts w)) = ex_view w"
  using ex_host_ready by (auto simp: deployRuntimeForApp_def ex_handler_def split: if_splits)

lemma ex_git_runs: "snd (ex_git ''i:2'') = None" "snd (ex_git ''bad'') \<noteq> None"
  by code_simp+


end
