(* ===== verification/Rollback.thy ===== *)
theory Rollback
  imports App_Deploy
begin

text \<open>
  Rollback of apps: the engine (\<open>internal/deploy/rollback.go\<close>), its endpoints (\<open>deploy_pipeline.go\<close>), the manager that is to
  roll back failed deployments (\<open>autorollback.go\<close>) and the sweep over interrupted deployments at start-up (\<open>module.go\<close>).

  The answers of the calls of Stats during the health check are the argument \<open>probes\<close>, since a container may die while it
  is watched. Whether a database call succeeds depends on where it stands (\<open>rb_site\<close>).

  Shown here: that a rollback that fails leaves every old container alone and one that succeeds replaces the container of the
  latest deployment; that the container of an earlier deployment stays beside it; that no failed deployment is ever
  rolled back automatically; what the sweep does to a deployment that succeeded.
\<close>

section \<open>The engine\<close>

datatype rollback_error =
    RbListFailed | RbNoVersion int | RbNoImage int | RbNoApp store_error | RbCreateFailed | RbStartFailed runtime_error | RbUnhealthy | RbPersistFailed

datatype rb_site =
    RbList | RbGetApp | RbLatest | RbReserve | RbDeploying | RbDomains | RbFailedRow | RbFailedApp | RbKeptApp | RbDoneRow | RbDoneApp

text \<open>At most ten calls: an error is tried again, an answer ends the loop. The second result counts the calls.\<close>

fun health_loop :: "(nat \<Rightarrow> bool option) \<Rightarrow> nat \<Rightarrow> nat \<Rightarrow> bool \<times> nat" where
  "health_loop probes i 0 = (False, i)"
| "health_loop probes i (Suc n) =
     (case probes i of
        Some True \<Rightarrow> (True, Suc i)
      | Some False \<Rightarrow> (False, Suc i)
      | None \<Rightarrow> health_loop probes (Suc i) n)"

definition rollback_healthy :: "(nat \<Rightarrow> bool option) \<Rightarrow> bool" where
  "rollback_healthy probes = (case health_loop probes 0 10 of (healthy, k) \<Rightarrow> healthy \<or> probes k = Some True)"

definition rollback_labels :: "Application \<Rightarrow> string \<Rightarrow> int \<Rightarrow> int \<Rightarrow> Domain list \<Rightarrow> (string \<times> string) list" where
  "rollback_labels app appID newVersion targetVersion domains =
     [(''monster.enable'', ''true''), (''monster.app.id'', appID), (''monster.app.name'', ap_Name app), (''monster.tenant'', ap_TenantID app),
      (''monster.deploy.version'', itoa newVersion), (''monster.rollback.from'', itoa targetVersion)]
     @ all_domain_labels app domains"

definition rollback_row :: "time \<Rightarrow> string \<Rightarrow> Deployment \<Rightarrow> int \<Rightarrow> Deployment" where
  "rollback_row now appID target targetVersion =
     (new_deployment appID (de_Image target) (de_CommitSHA target) ''rollback'')
       \<lparr>de_CommitMessage := ''Rollback to v'' @ itoa targetVersion, de_StartedAt := Some now\<rparr>"

definition rollback_event :: "string \<Rightarrow> Deployment \<Rightarrow> deploy_event" where
  "rollback_event appID d =
     \<lparr>dv_Type = ''deploy.rollback'', dv_Source = ''deploy'',
      dv_Data = EvDeploy \<lparr>dd_AppID = appID, dd_DeploymentID = de_ID d, dd_Version = de_Version d, dd_Image = de_Image d,
                          dd_ContainerID = [], dd_Strategy = ''rollback'', dd_CommitSHA = []\<rparr>\<rparr>"

text \<open>The last part: the old container goes, the row and the app are marked.\<close>

definition rollback_finish ::
  "(rb_site \<Rightarrow> bool) \<Rightarrow> time \<Rightarrow> 'w deploy_runtime option \<Rightarrow> Application \<Rightarrow> string \<Rightarrow> string \<Rightarrow> Deployment \<Rightarrow> 'w plant \<Rightarrow>
   'w plant \<times> (rollback_error + Deployment)" where
  "rollback_finish io now runtime app appID oldContainerID d pl =
     (let w = (case runtime of Some rt \<Rightarrow> if oldContainerID \<noteq> [] then drop_container rt oldContainerID (pl_world pl) else pl_world pl
                             | None \<Rightarrow> pl_world pl);
          d' = d\<lparr>de_Status := ''running'', de_FinishedAt := Some now\<rparr>
      in case UpdateDeployment (io RbDoneRow) d' (pl_db pl) of
           (db, False) \<Rightarrow> (pl\<lparr>pl_world := w, pl_db := db\<rparr>, Inl RbPersistFailed)
         | (db, True) \<Rightarrow>
             (publishAsync (rollback_event appID d') (set_status (io RbDoneApp) appID ''running'' (ap_TenantID app) (pl\<lparr>pl_world := w, pl_db := db\<rparr>)),
              Inr d'))"

definition failed_row :: "time \<Rightarrow> Deployment \<Rightarrow> Deployment" where
  "failed_row now d = d\<lparr>de_Status := ''failed'', de_FinishedAt := Some now\<rparr>"

definition rollback_to ::
  "(rb_site \<Rightarrow> bool) \<Rightarrow> time \<Rightarrow> string \<Rightarrow> (nat \<Rightarrow> bool option) \<Rightarrow> 'w deploy_runtime option \<Rightarrow> string \<Rightarrow> int \<Rightarrow> Deployment \<Rightarrow> Application \<Rightarrow>
   'w plant \<Rightarrow> 'w plant \<times> (rollback_error + Deployment)" where
  "rollback_to io now fresh probes runtime appID targetVersion target app pl =
     (let oldContainerID = (case GetLatestDeployment (io RbLatest) appID (pl_db pl) of Inl e \<Rightarrow> [] | Inr d \<Rightarrow> de_ContainerID d)
      in case CreateDeploymentAtomicVersion (io RbReserve) now fresh (rollback_row now appID target targetVersion) (pl_db pl) of
           (db1, d, ok) \<Rightarrow>
             if \<not> ok then (pl\<lparr>pl_db := db1\<rparr>, Inl RbCreateFailed)
             else
               let pl2 = set_status (io RbDeploying) appID ''deploying'' (ap_TenantID app) (pl\<lparr>pl_db := db1\<rparr>);
                   domains = (case ListDomainsByApp (io RbDomains) appID (ap_TenantID app) (pl_db pl2) of None \<Rightarrow> [] | Some l \<Rightarrow> l);
                   name = container_name (ap_ID app) (de_Version d)
               in case runtime of
                    None \<Rightarrow> rollback_finish io now runtime app appID oldContainerID d pl2
                  | Some rt \<Rightarrow>
                      (case CreateAndStart (dr_api rt) (dr_mgr rt)
                              (deploy_opts name (de_Image target) (rollback_labels app appID (de_Version d) targetVersion domains)) (pl_world pl2) of
                         (w3, Inl e) \<Rightarrow>
                           ((set_status (io RbFailedApp) appID ''failed'' (ap_TenantID app)
                               (save_row (io RbFailedRow) (failed_row now d) pl2))\<lparr>pl_world := drop_container rt name w3\<rparr>, Inl (RbStartFailed e))
                       | (w3, Inr cid) \<Rightarrow>
                           let d3 = d\<lparr>de_ContainerID := cid\<rparr>
                           in if cid \<noteq> [] \<and> \<not> rollback_healthy probes
                              then (set_status (io RbKeptApp) appID ''running'' (ap_TenantID app)
                                      (save_row (io RbFailedRow) (failed_row now d3) (pl2\<lparr>pl_world := drop_container rt cid w3\<rparr>)), Inl RbUnhealthy)
                              else rollback_finish io now runtime app appID oldContainerID d3 (pl2\<lparr>pl_world := w3\<rparr>)))"

definition RollbackEngine_Rollback ::
  "(rb_site \<Rightarrow> bool) \<Rightarrow> time \<Rightarrow> string \<Rightarrow> (nat \<Rightarrow> bool option) \<Rightarrow> 'w deploy_runtime option \<Rightarrow> string \<Rightarrow> int \<Rightarrow> 'w plant \<Rightarrow>
   'w plant \<times> (rollback_error + Deployment)" where
  "RollbackEngine_Rollback io now fresh probes runtime appID targetVersion pl =
     (case ListDeploymentsByApp (io RbList) appID 50 (pl_db pl) of
        None \<Rightarrow> (pl, Inl RbListFailed)
      | Some ds \<Rightarrow>
          (case find (\<lambda>d. de_Version d = targetVersion) ds of
             None \<Rightarrow> (pl, Inl (RbNoVersion targetVersion))
           | Some target \<Rightarrow>
               if de_Image target = [] then (pl, Inl (RbNoImage targetVersion))
               else (case GetApp (io RbGetApp) appID (pl_db pl) of
                       Inl e \<Rightarrow> (pl, Inl (RbNoApp e))
                     | Inr app \<Rightarrow> rollback_to io now fresh probes runtime appID targetVersion target app pl)))"

record VersionInfo =
  vi_Version :: int
  vi_Image :: string
  vi_Status :: string
  vi_CommitSHA :: string
  vi_CreatedAt :: time
  vi_IsCurrent :: bool

definition ListVersions :: "bool \<Rightarrow> string \<Rightarrow> nat \<Rightarrow> AppDB \<Rightarrow> VersionInfo list option" where
  "ListVersions io appID limit db =
     map_option (\<lambda>ds. map (\<lambda>(i, d). \<lparr>vi_Version = de_Version d, vi_Image = de_Image d, vi_Status = de_Status d, vi_CommitSHA = de_CommitSHA d,
                                     vi_CreatedAt = de_CreatedAt d, vi_IsCurrent = (i = 0)\<rparr>) (enumerate 0 ds))
       (ListDeploymentsByApp io appID limit db)"

section \<open>Endpoints\<close>

datatype rollback_reply = RollbackDone Deployment int | RollbackRefused nat

definition rollback_endpoint ::
  "(rb_site \<Rightarrow> bool) \<Rightarrow> time \<Rightarrow> string \<Rightarrow> (nat \<Rightarrow> bool option) \<Rightarrow> 'w deploy_runtime option \<Rightarrow> Application \<Rightarrow> int \<Rightarrow> 'w plant \<Rightarrow>
   'w plant \<times> rollback_reply" where
  "rollback_endpoint io now fresh probes runtime app version pl =
     (if version \<le> 0 then (pl, RollbackRefused 400)
      else case RollbackEngine_Rollback io now fresh probes runtime (ap_ID app) version pl of
             (pl', Inl e) \<Rightarrow> (pl', RollbackRefused 500)
           | (pl', Inr d) \<Rightarrow> (pl', RollbackDone d version))"

definition commit_matches :: "string \<Rightarrow> Deployment \<Rightarrow> bool" where
  "commit_matches sha d \<longleftrightarrow> de_CommitSHA d = sha \<or> length sha \<ge> 7 \<and> length (de_CommitSHA d) \<ge> length sha \<and> take (length sha) (de_CommitSHA d) = sha"

definition RollbackToCommit ::
  "(rb_site \<Rightarrow> bool) \<Rightarrow> bool \<Rightarrow> time \<Rightarrow> string \<Rightarrow> (nat \<Rightarrow> bool option) \<Rightarrow> 'w deploy_runtime option \<Rightarrow> Application \<Rightarrow> string \<Rightarrow> 'w plant \<Rightarrow>
   'w plant \<times> rollback_reply" where
  "RollbackToCommit io listOK now fresh probes runtime app sha pl =
     (if sha = [] then (pl, RollbackRefused 400)
      else case ListDeploymentsByApp listOK (ap_ID app) 50 (pl_db pl) of
             None \<Rightarrow> (pl, RollbackRefused 500)
           | Some ds \<Rightarrow>
               (case find (commit_matches sha) ds of
                  None \<Rightarrow> (pl, RollbackRefused 404)
                | Some target \<Rightarrow>
                    (case RollbackEngine_Rollback io now fresh probes runtime (ap_ID app) (de_Version target) pl of
                       (pl', Inl e) \<Rightarrow> (pl', RollbackRefused 500)
                     | (pl', Inr d) \<Rightarrow> (pl', RollbackDone d (de_Version target)))))"

section \<open>Automatic rollback\<close>

record AutoRollbackManager =
  ar_cooldown :: duration
  ar_lastAttempt :: "string \<rightharpoonup> time"
  ar_closed :: bool

definition NewAutoRollbackManager :: AutoRollbackManager where
  "NewAutoRollbackManager = \<lparr>ar_cooldown = 5 * 60 * 1000000000, ar_lastAttempt = Map.empty, ar_closed = False\<rparr>"

definition findLastStable :: "bool \<Rightarrow> string \<Rightarrow> AppDB \<Rightarrow> int option" where
  "findLastStable io appID db =
     (case ListDeploymentsByApp io appID 20 db of
        None \<Rightarrow> None
      | Some ds \<Rightarrow> map_option de_Version (find (\<lambda>d. de_Status d = ''running'' \<and> de_Image d \<noteq> []) (tl ds)))"

definition handleFailure ::
  "(rb_site \<Rightarrow> bool) \<Rightarrow> bool \<Rightarrow> time \<Rightarrow> string \<Rightarrow> (nat \<Rightarrow> bool option) \<Rightarrow> 'w deploy_runtime option \<Rightarrow> string \<Rightarrow>
   AutoRollbackManager \<times> 'w plant \<Rightarrow> AutoRollbackManager \<times> 'w plant" where
  "handleFailure io listOK now fresh probes runtime appID s =
     (case s of (ar, pl) \<Rightarrow>
        if ar_closed ar then s
        else if (case ar_lastAttempt ar appID of None \<Rightarrow> False | Some lastTry \<Rightarrow> now - lastTry < ar_cooldown ar) then s
        else
          let ar' = ar\<lparr>ar_lastAttempt := (ar_lastAttempt ar)(appID \<mapsto> now)\<rparr>
          in case findLastStable listOK appID (pl_db pl) of
               None \<Rightarrow> (ar', pl)
             | Some v \<Rightarrow> (ar', fst (RollbackEngine_Rollback io now fresh probes runtime appID v pl)))"

text \<open>The subscription: an event is acted on when its data has the type \<open>DeployEventData\<close>.\<close>

definition auto_rollback ::
  "(rb_site \<Rightarrow> bool) \<Rightarrow> bool \<Rightarrow> time \<Rightarrow> string \<Rightarrow> (nat \<Rightarrow> bool option) \<Rightarrow> 'w deploy_runtime option \<Rightarrow> deploy_event \<Rightarrow>
   AutoRollbackManager \<times> 'w plant \<Rightarrow> AutoRollbackManager \<times> 'w plant" where
  "auto_rollback io listOK now fresh probes runtime ev s =
     (if dv_Type ev \<noteq> ''deploy.failed'' then s
      else if ar_closed (fst s) then s
      else case dv_Data ev of
             EvDeploy data \<Rightarrow> handleFailure io listOK now fresh probes runtime (dd_AppID data) s
           | _ \<Rightarrow> s)"

text \<open>Stop, up to its wait for the calls that run.\<close>

definition ar_Stop :: "AutoRollbackManager \<Rightarrow> AutoRollbackManager" where
  "ar_Stop ar = ar\<lparr>ar_closed := True\<rparr>"

section \<open>The sweeps at start-up\<close>

definition reclaim_log :: "string \<Rightarrow> string \<Rightarrow> string" where
  "reclaim_log staleStatus buildLog =
     (let reason = ''[reclaimed on startup after crash '' @ map char_of [226, 128, 148 :: nat] @ '' previous status: '' @ staleStatus @ '']''
      in if buildLog = [] then reason else buildLog @ char_of (10 :: nat) # reason)"

text \<open>\<open>io d\<close> tells whether the update of the row, the read of its app and the update of the app succeed.\<close>

definition reclaim_one :: "(Deployment \<Rightarrow> bool \<times> bool \<times> bool) \<Rightarrow> time \<Rightarrow> string \<Rightarrow> Deployment \<Rightarrow> AppDB \<Rightarrow> AppDB" where
  "reclaim_one io now staleStatus d db =
     (case UpdateDeployment (fst (io d)) (d\<lparr>de_Status := ''failed'', de_FinishedAt := Some now, de_BuildLog := reclaim_log staleStatus (de_BuildLog d)\<rparr>) db of
        (db1, False) \<Rightarrow> db1
      | (db1, True) \<Rightarrow>
          (case GetApp (fst (snd (io d))) (de_AppID d) db1 of
             Inl e \<Rightarrow> db1
           | Inr app \<Rightarrow> fst (UpdateAppStatus (snd (snd (io d))) (de_AppID d) ''failed'' (ap_TenantID app) db1)))"

definition reclaim_status :: "(Deployment \<Rightarrow> bool \<times> bool \<times> bool) \<Rightarrow> bool \<Rightarrow> time \<Rightarrow> string \<Rightarrow> AppDB \<Rightarrow> AppDB" where
  "reclaim_status io listOK now staleStatus db =
     (case ListDeploymentsByStatus listOK staleStatus db of None \<Rightarrow> db | Some ds \<Rightarrow> fold (reclaim_one io now staleStatus) ds db)"

definition reclaimStaleDeployments :: "(Deployment \<Rightarrow> bool \<times> bool \<times> bool) \<Rightarrow> bool \<Rightarrow> time \<Rightarrow> AppDB \<Rightarrow> AppDB" where
  "reclaimStaleDeployments io listOK now db = fold (reclaim_status io listOK now) [''deploying'', ''building''] db"

text \<open>Any error of the read of the app counts as a missing app.\<close>

definition orphan :: "(string \<Rightarrow> bool) \<Rightarrow> AppDB \<Rightarrow> ContainerInfo \<Rightarrow> bool" where
  "orphan io db c \<longleftrightarrow>
     (let appID = label_get (ci_Labels c) ''monster.app.id''
      in appID \<noteq> [] \<and> (case GetApp (io appID) appID db of Inl e \<Rightarrow> True | Inr app \<Rightarrow> False))"

definition cleanOrphanContainers :: "(string \<Rightarrow> bool) \<Rightarrow> 'w deploy_runtime \<Rightarrow> AppDB \<Rightarrow> 'w \<Rightarrow> 'w" where
  "cleanOrphanContainers io rt db w =
     (case dr_list rt [(''monster.managed'', ''true'')] w of
        None \<Rightarrow> w
      | Some cs \<Rightarrow> fold (\<lambda>c w. if orphan io db c then fst (rt_Remove (dr_api rt) (ci_ID c) True w) else w) cs w)"

section \<open>What a rollback does to the containers\<close>

text \<open>The container of the latest deployment, if there is one, exists, and nothing goes by the name of the new one.\<close>

definition names_free :: "(string \<rightharpoonup> container_view) \<Rightarrow> string \<Rightarrow> string \<Rightarrow> bool" where
  "names_free v name old \<longleftrightarrow> v name = None \<and> (\<forall>i c. v i = Some c \<longrightarrow> cv_name c \<noteq> name) \<and> (old = [] \<or> v old \<noteq> None)"

definition old_container :: "bool \<Rightarrow> string \<Rightarrow> AppDB \<Rightarrow> string" where
  "old_container io appID db = (case GetLatestDeployment io appID db of Inl e \<Rightarrow> [] | Inr d \<Rightarrow> de_ContainerID d)"

text \<open>Stopping does not change what a reference means.\<close>

lemma refers_stopped:
  assumes "host_documented rt view"
  shows "refers view (fst (rt_Stop (dr_api rt) ref w)) ref' i \<longleftrightarrow> refers view w ref' i"
proof -
  have same: "map_option (cv_running_update (\<lambda>_. False)) (view (fst (rt_Stop (dr_api rt) ref w)) i) = map_option (cv_running_update (\<lambda>_. False)) (view w i)" for i
    using host_stop(2)[OF assms] .
  have none: "view (fst (rt_Stop (dr_api rt) ref w)) i = None \<longleftrightarrow> view w i = None" for i using same[of i] by (metis map_option_is_None)
  have "(\<exists>c. view (fst (rt_Stop (dr_api rt) ref w)) i = Some c \<and> cv_name c = ref') \<longleftrightarrow> (\<exists>c. view w i = Some c \<and> cv_name c = ref')"
    using same[of i] by (cases "view w i"; cases "view (fst (rt_Stop (dr_api rt) ref w)) i") (auto, (metis container_view.select_convs(2) container_view.surjective container_view.update_convs(1))+)
  then show ?thesis using none[of ref'] by (simp add: refers_def)
qed

lemma drop_other: "host_documented rt view \<Longrightarrow> \<not> refers view w ref i \<Longrightarrow> view (drop_container rt ref w) i = view w i"
  using host_remove(1)[of rt view ref "fst (rt_Stop (dr_api rt) ref w)"] host_stop(1)[of rt view w ref i] refers_stopped[of rt view ref w ref i]
  by (auto simp: drop_container_def)

lemma finish_world:
  assumes "rollback_finish io now (Some rt) app appID old d pl = (pl', r)"
  shows "pl_world pl' = (if old \<noteq> [] then drop_container rt old (pl_world pl) else pl_world pl)"
    "r = Inl RbPersistFailed \<or> r = Inr (d\<lparr>de_Status := ''running'', de_FinishedAt := Some now\<rparr>)"
  using assms by (auto simp: rollback_finish_def Let_def split: prod.splits bool.splits)

text \<open>The containers after a rollback, from the containers before and the identifier of the old one.\<close>

definition rolled_back :: "(string \<rightharpoonup> container_view) \<Rightarrow> string \<Rightarrow> string \<Rightarrow> Deployment \<Rightarrow> (string \<rightharpoonup> container_view) \<Rightarrow> bool" where
  "rolled_back before old appID d after \<longleftrightarrow>
     before (de_ContainerID d) = None \<and> de_ContainerID d \<noteq> old
     \<and> (\<exists>labels. after (de_ContainerID d) =
          Some \<lparr>cv_running = True, cv_name = container_name appID (de_Version d), cv_image = de_Image d, cv_labels = labels\<rparr>
          \<and> (''monster.app.id'', appID) \<in> set labels)
     \<and> (\<forall>i. i \<noteq> de_ContainerID d \<and> i \<noteq> old \<longrightarrow> after i = before i)"

lemma rollback_to_outcome:
  assumes doc: "host_documented rt view" and app: "ap_ID app = appID"
    and free: "names_free (view (pl_world pl)) (container_name appID (next_version appID (pl_db pl))) (old_container (io RbLatest) appID (pl_db pl))"
    and run: "rollback_to io now fresh probes (Some rt) appID v target app pl = (pl', r)"
  shows "(\<forall>e. r = Inl e \<and> e \<noteq> RbPersistFailed \<longrightarrow> view (pl_world pl) \<subseteq>\<^sub>m view (pl_world pl'))
    \<and> (\<forall>d. r = Inr d \<longrightarrow> de_Image d = de_Image target \<and> rollback_healthy probes
         \<and> rolled_back (view (pl_world pl)) (old_container (io RbLatest) appID (pl_db pl)) appID d (view (pl_world pl'))
         \<and> (removes rt view \<and> old_container (io RbLatest) appID (pl_db pl) \<noteq> [] \<longrightarrow>
              view (pl_world pl') (old_container (io RbLatest) appID (pl_db pl)) = None))"
proof -
  let ?old = "old_container (io RbLatest) appID (pl_db pl)"
  obtain db1 d ok where create: "CreateDeploymentAtomicVersion (io RbReserve) now fresh (rollback_row now appID target v) (pl_db pl) = (db1, d, ok)"
    by (meson prod_cases3)
  show ?thesis
  proof (cases ok)
    case False
    then show ?thesis using run create by (auto simp: rollback_to_def Let_def)
  next
    case ok: True
    have d: "de_Version d = next_version appID (pl_db pl)" "de_Image d = de_Image target"
      using create ok by (auto simp: CreateDeploymentAtomicVersion_def rollback_row_def new_deployment_def with_id_def Let_def split: if_splits)
    let ?pl2 = "set_status (io RbDeploying) appID ''deploying'' (ap_TenantID app) (pl\<lparr>pl_db := db1\<rparr>)"
    let ?name = "container_name appID (de_Version d)"
    define labels where "labels = rollback_labels app appID (de_Version d) v
      (case ListDomainsByApp (io RbDomains) appID (ap_TenantID app) (pl_db ?pl2) of None \<Rightarrow> [] | Some l \<Rightarrow> l)"
    obtain w3 c where start: "CreateAndStart (dr_api rt) (dr_mgr rt) (deploy_opts ?name (de_Image target) labels) (pl_world pl) = (w3, c)"
      by (meson surj_pair)
    note view3 = start_view[OF doc start]
    show ?thesis
    proof (cases c)
      case (Inl e)
      then have r: "r = Inl (RbStartFailed e)" "pl_world pl' = drop_container rt ?name w3"
        using run create ok start app by (auto simp: rollback_to_def Let_def old_container_def labels_def)
      have "view (pl_world pl') i = Some x" if "view (pl_world pl) i = Some x" for i x
      proof -
        have "\<not> refers view w3 ?name i" using view3 Inl free that unfolding d(1)[symmetric] by (auto simp: names_free_def refers_def split: if_splits)
        then have "view (pl_world pl') i = view w3 i" unfolding r(2) by (rule drop_other[OF doc])
        also have "\<dots> = view (pl_world pl) i" using view3 Inl that by auto
        finally show ?thesis using that by simp
      qed
      then show ?thesis using r(1) by (auto simp: map_le_def)
    next
      case (Inr cid)
      have new: "view (pl_world pl) cid = None" "cid \<noteq> []"
        "view w3 = (view (pl_world pl))(cid \<mapsto> \<lparr>cv_running = True, cv_name = ?name, cv_image = de_Image target, cv_labels = labels\<rparr>)"
        using view3 Inr by simp_all
      have label: "(''monster.app.id'', appID) \<in> set labels" by (simp add: labels_def rollback_labels_def)
      show ?thesis
      proof (cases "rollback_healthy probes")
        case False
        then have r: "r = Inl RbUnhealthy" "pl_world pl' = drop_container rt cid w3"
          using run create ok start app Inr new(2) by (auto simp: rollback_to_def Let_def old_container_def labels_def)
        have "view (pl_world pl') i = view (pl_world pl) i" if "i \<noteq> cid" for i
          using drop_view(1)[OF doc _ that, of w3] new(3) that by (simp add: r(2))
        then have "view (pl_world pl) \<subseteq>\<^sub>m view (pl_world pl')" using new(1) unfolding map_le_def by (metis domIff)
        then show ?thesis using r(1) by simp
      next
        case True
        then have fin: "rollback_finish io now (Some rt) app appID ?old (d\<lparr>de_ContainerID := cid\<rparr>) (?pl2\<lparr>pl_world := w3\<rparr>) = (pl', r)"
          using run create ok start app Inr by (auto simp: rollback_to_def Let_def old_container_def labels_def)
        note world = finish_world[OF fin]
        have old: "?old \<noteq> cid" "?old \<noteq> [] \<Longrightarrow> view w3 ?old \<noteq> None" using free new by (auto simp: names_free_def)
        have after: "view (pl_world pl') i = view w3 i" if "i \<noteq> ?old" for i
          using world(1) drop_view(1)[OF doc old(2) that] by simp
        have "removes rt view \<Longrightarrow> ?old \<noteq> [] \<Longrightarrow> view (pl_world pl') ?old = None"
          using world(1) drop_view(2)[OF doc old(2)] by simp
        then show ?thesis using world(2) True after new label old(1) d by (auto simp: rolled_back_def)
      qed
    qed
  qed
qed

lemma rollback_result:
  assumes "host_documented rt view" "removes rt view"
    "names_free (view (pl_world pl)) (container_name appID (next_version appID (pl_db pl))) (old_container (io RbLatest) appID (pl_db pl))"
    "RollbackEngine_Rollback io now fresh probes (Some rt) appID v pl = (pl', r)"
  shows "case r of
      Inl e \<Rightarrow> e = RbPersistFailed \<or> view (pl_world pl) \<subseteq>\<^sub>m view (pl_world pl')
    | Inr d \<Rightarrow> rollback_healthy probes
        \<and> (\<exists>target\<in>set (db_deps (pl_db pl)). de_AppID target = appID \<and> de_Version target = v \<and> de_Image d = de_Image target \<and> de_Image target \<noteq> [])
        \<and> rolled_back (view (pl_world pl)) (old_container (io RbLatest) appID (pl_db pl)) appID d (view (pl_world pl'))
        \<and> view (pl_world pl') (old_container (io RbLatest) appID (pl_db pl)) = None"
proof -
  have same: "?thesis" if "pl' = pl" "\<exists>e. r = Inl e" using that by auto
  show ?thesis
  proof (cases "\<exists>ds target app. ListDeploymentsByApp (io RbList) appID 50 (pl_db pl) = Some ds \<and> find (\<lambda>d. de_Version d = v) ds = Some target
      \<and> de_Image target \<noteq> [] \<and> GetApp (io RbGetApp) appID (pl_db pl) = Inr app")
    case False
    then have "pl' = pl" "\<exists>e. r = Inl e"
      using assms(4) by (auto simp: RollbackEngine_Rollback_def split: option.splits if_splits sum.splits)
    then show ?thesis by (rule same)
  next
    case True
    then obtain ds target app where t: "ListDeploymentsByApp (io RbList) appID 50 (pl_db pl) = Some ds" "find (\<lambda>d. de_Version d = v) ds = Some target"
      "de_Image target \<noteq> []" "GetApp (io RbGetApp) appID (pl_db pl) = Inr app" by blast
    have app: "ap_ID app = appID" using t(4) by (auto simp: GetApp_def find_Some_iff split: if_splits option.splits)
    have "target \<in> set ds" "de_Version target = v" using t(2) by (auto simp: find_Some_iff)
    then obtain row where row: "row \<in> set (db_deps (pl_db pl))" "de_AppID row = appID" "target = read_row row"
      using listed_row[OF t(1)] by blast
    have "rollback_to io now fresh probes (Some rt) appID v target app pl = (pl', r)"
      using assms(4) t by (simp add: RollbackEngine_Rollback_def)
    note outcome = rollback_to_outcome[OF assms(1) app assms(3) this]
    have "de_Version row = v" "de_Image row = de_Image target" using row(3) \<open>de_Version target = v\<close> by (simp_all add: read_row_def)
    moreover have "r = Inr d \<Longrightarrow> view (pl_world pl') (old_container (io RbLatest) appID (pl_db pl)) = None" for d
      using outcome assms(2) host_nameless[OF assms(1), of "pl_world pl'"] by (cases "old_container (io RbLatest) appID (pl_db pl) = []") auto
    ultimately show ?thesis using outcome row(1,2) t(3) by (cases r) auto
  qed
qed


subsection \<open>After a failed deployment\<close>

lemma git_reserved:
  assumes "deployGitApp h io now fresh tags app trig sha pl = (pl', Some (DeployStartError e))"
  shows "\<exists>w2 (result :: BuildResult) rt pl3 db4 dep. pl3 = set_status (io AtDeploying) (ap_ID app) ''deploying'' (ap_TenantID app)
         ((set_status (io AtBuilding) (ap_ID app) ''building'' (ap_TenantID app) pl)\<lparr>pl_world := w2\<rparr>)
    \<and> CreateDeploymentAtomicVersion (io AtReserve) now fresh (new_deployment (ap_ID app) (br_ImageTag result) (br_CommitSHA result) trig) (pl_db pl3) = (db4, dep, True)
    \<and> deploy_reserved io now rt app dep (pl3\<lparr>pl_db := db4\<rparr>) = (pl', Some (DeployStartError e))"
proof -
  obtain rt0 where rt0: "dh_runtime h = Some rt0" using assms by (cases "dh_runtime h") (auto simp: deployGitApp_def)
  let ?pl1 = "set_status (io AtBuilding) (ap_ID app) ''building'' (ap_TenantID app) pl"
  obtain w2 res where build: "dh_buildGit h (git_build_opts h tags app sha) (pl_world ?pl1) = (w2, res)" by (meson surj_pair)
  obtain result where res: "res = Inr result" using assms rt0 build by (cases res) (auto simp: deployGitApp_def Let_def)
  let ?pl3 = "set_status (io AtDeploying) (ap_ID app) ''deploying'' (ap_TenantID app) (?pl1\<lparr>pl_world := w2\<rparr>)"
  have remote: "\<not> (isRemoteApp app \<and> \<not> imageRefHasRegistry (br_ImageTag result))"
    using assms rt0 build res by (intro notI) (simp add: deployGitApp_def Let_def)
  have "deployRuntimeForApp h app \<noteq> Inl (DeployStartError e)" by (auto simp: deployRuntimeForApp_def split: option.splits)
  then obtain rt where rt: "deployRuntimeForApp h app = Inr rt"
    using assms rt0 build res remote by (cases "deployRuntimeForApp h app") (auto simp: deployGitApp_def Let_def)
  obtain db4 dep ok where create: "CreateDeploymentAtomicVersion (io AtReserve) now fresh
      (new_deployment (ap_ID app) (br_ImageTag result) (br_CommitSHA result) trig) (pl_db ?pl3) = (db4, dep, ok)" by (meson prod_cases3)
  have eq: "deployGitApp h io now fresh tags app trig sha pl =
      (if \<not> ok then (failAppAndPublish (io AtFailedApp) ''deploy.failed'' app ReserveFailed (?pl3\<lparr>pl_db := db4\<rparr>), Some ReserveFailed)
       else deploy_reserved io now rt app dep (?pl3\<lparr>pl_db := db4\<rparr>))"
    using rt0 build res remote rt create by (auto simp: deployGitApp_def Let_def)
  have ok: ok using assms unfolding eq by (cases ok) auto
  then have "deploy_reserved io now rt app dep (?pl3\<lparr>pl_db := db4\<rparr>) = (pl', Some (DeployStartError e))"
    using assms unfolding eq by simp
  with create[unfolded eqTrueI[OF ok]] show ?thesis
    by (intro exI[of _ w2] exI[of _ result] exI[of _ rt] exI[of _ ?pl3] exI[of _ db4] exI[of _ dep] conjI refl)
qed

lemma failed_deploy_latest:
  assumes "dep_inv (pl_db pl)" "deployGitApp h io now fresh tags app trig sha pl = (pl', Some (DeployStartError e))"
  shows "\<exists>d. GetLatestDeployment True (ap_ID app) (pl_db pl') = Inr d \<and> de_ContainerID d = []"
proof -
  obtain rt dep pl1 where d: "deploy_reserved io now rt app dep pl1 = (pl', Some (DeployStartError e))"
    "GetLatestDeployment True (ap_ID app) (pl_db pl1) = Inr (read_row (inserted now dep))" "de_ContainerID dep = []"
  proof -
    obtain w2 and result :: BuildResult and pl3 rt db4 dep where r: "pl3 = set_status (io AtDeploying) (ap_ID app) ''deploying'' (ap_TenantID app)
         ((set_status (io AtBuilding) (ap_ID app) ''building'' (ap_TenantID app) pl)\<lparr>pl_world := w2\<rparr>)"
      "CreateDeploymentAtomicVersion (io AtReserve) now fresh (new_deployment (ap_ID app) (br_ImageTag result) (br_CommitSHA result) trig) (pl_db pl3) = (db4, dep, True)"
      "deploy_reserved io now rt app dep (pl3\<lparr>pl_db := db4\<rparr>) = (pl', Some (DeployStartError e))"
      using git_reserved[OF assms(2)] by blast
    have "db_deps (pl_db pl3) = db_deps (pl_db pl)" by (simp add: r(1) set_status_def UpdateAppStatus_def)
    then have inv: "dep_inv (pl_db pl3)" using assms(1) by (simp add: dep_inv_def)
    have io: "io AtReserve" using r(2) by (auto simp: CreateDeploymentAtomicVersion_def Let_def split: if_splits)
    show ?thesis
    proof (rule that[OF r(3)])
      show "GetLatestDeployment True (ap_ID app) (pl_db (pl3\<lparr>pl_db := db4\<rparr>)) = Inr (read_row (inserted now dep))"
        using newest_is_new[OF inv r(2)[unfolded io[THEN eqTrueI]]] by (simp add: new_deployment_def)
      show "de_ContainerID dep = []"
        using r(2) by (auto simp: CreateDeploymentAtomicVersion_def new_deployment_def with_id_def Let_def split: if_splits)
    qed
  qed
  then obtain pl2 where pl': "pl' = failReserved io now app dep (DeployStartError e) pl2" "pl_db pl2 = pl_db pl1"
    by (auto simp: deploy_reserved_def Let_def split: prod.splits option.splits sum.splits)
  let ?s = "fst (UpdateAppStatus (io AtFailedApp) (ap_ID app) ''failed'' (ap_TenantID app) (pl_db pl1))"
  have st: "GetLatestDeployment True (ap_ID app) ?s = Inr (read_row (inserted now dep))"
    using latest_status[of "io AtFailedApp" "ap_ID app" "''failed''" "ap_TenantID app" "pl_db pl1" ?s _ True "ap_ID app"] d(2) by (metis prod.collapse)
  show ?thesis
  proof (cases "de_ID dep = []")
    case True
    then have "pl_db pl' = ?s" by (simp add: pl' failReserved_def failReservedDeployment_def publishDeployFailed_def set_status_def)
    then show ?thesis using st d(3) by (simp add: read_row_def inserted_def)
  next
    case False
    let ?d = "dep\<lparr>de_Status := ''failed'', de_FinishedAt := Some now\<rparr>"
    obtain db ok where upd: "UpdateDeployment (io AtFailedRow) ?d ?s = (db, ok)" by fastforce
    then have "pl_db pl' = db"
      using False by (simp add: pl' failReserved_def failReservedDeployment_def publishDeployFailed_def set_status_def save_row_def)
    moreover note latest_update[OF st upd]
    ultimately show ?thesis using d(3) by (simp add: read_row_def inserted_def row_update_def)
  qed
qed

text \<open>
  C38. A rollback after a failed deployment leaves the old container running: a git deployment whose container does not
  start records no container, so a later rollback that succeeds removes nothing; every container of the app that ran before,
  with its routes, still runs beside the new one.
\<close>

theorem rollback_leaves_old_running:
  assumes "dep_inv (pl_db pl)" "\<forall>rt. deployRuntimeForApp h app = Inr rt \<longrightarrow> host_ready rt view (ap_ID app)"
    "\<forall>opts w. view (fst (dh_buildGit h opts w)) = view w"
    "deployGitApp h dio now fresh tags app trig sha pl = (pl1, Some (DeployStartError e))"
    "host_documented rt view" "removes rt view" "io RbLatest"
    "names_free (view (pl_world pl1)) (container_name (ap_ID app) (next_version (ap_ID app) (pl_db pl1))) []"
    "RollbackEngine_Rollback io now' fresh' probes (Some rt) (ap_ID app) v pl1 = (pl2, Inr d)"
    "view (pl_world pl) i = Some c"
  shows "view (pl_world pl2) i = Some c \<and> i \<noteq> de_ContainerID d \<and> (\<exists>new. view (pl_world pl2) (de_ContainerID d) = Some new \<and> cv_running new \<and> of_app (ap_ID app) new)"
proof -
  have old: "old_container (io RbLatest) (ap_ID app) (pl_db pl1) = []"
    using failed_deploy_latest[OF assms(1,4)] assms(7) by (auto simp: old_container_def)
  have "deploy_outcome view app pl (pl1, Some (DeployStartError e))" using git_outcome[OF assms(2,3)] assms(4) by metis
  then have "view (pl_world pl) \<subseteq>\<^sub>m view (pl_world pl1)" by (simp add: deploy_outcome_def untouched_def)
  then have one: "view (pl_world pl1) i = Some c" using assms(10) by (rule map_le_Some)
  have "rolled_back (view (pl_world pl1)) [] (ap_ID app) d (view (pl_world pl2))"
    using rollback_result[OF assms(5,6) _ assms(9)] assms(8) unfolding old by simp
  moreover have "i \<noteq> []" using one host_nameless[OF assms(5), of "pl_world pl1"] by auto
  ultimately show ?thesis using one by (cases "i = de_ContainerID d") (auto simp: rolled_back_def of_app_def)
qed

section \<open>Automatic rollback never happens\<close>

definition rollback_ignores :: "deploy_event \<Rightarrow> bool" where
  "rollback_ignores ev \<longleftrightarrow> (\<forall>data. dv_Data ev \<noteq> EvDeploy data) \<or> dv_Type ev \<noteq> ''deploy.failed''"

lemma auto_rollback_ignores: "rollback_ignores ev \<Longrightarrow> auto_rollback io listOK now fresh probes runtime ev s = s"
  by (auto simp: auto_rollback_def rollback_ignores_def split: event_data.splits)

definition quiet :: "'w plant \<Rightarrow> 'w plant \<Rightarrow> bool" where
  "quiet pl pl' \<longleftrightarrow> (\<exists>evs. pl_events pl' = pl_events pl @ evs \<and> (\<forall>ev\<in>set evs. rollback_ignores ev))"

lemma quiet_events:
  "pl_events pl' = pl_events pl \<Longrightarrow> quiet pl pl'"
  "pl_events pl' = pl_events pl @ [ev] \<Longrightarrow> rollback_ignores ev \<Longrightarrow> quiet pl pl'"
  by (auto simp: quiet_def)

lemma ignored_events [simp]:
  "rollback_ignores (deployed_event d sha)" "rollback_ignores \<lparr>dv_Type = ty, dv_Source = src, dv_Data = EvMap a e\<rparr>"
  by (simp_all add: rollback_ignores_def deployed_event_def)

lemma quiet_reserved: "quiet pl (fst (deploy_reserved io now rt app dep pl))"
  by (auto simp: deploy_reserved_def Let_def quiet_def split: prod.splits option.splits sum.splits)

lemma quiet_git: "quiet pl (fst (deployGitApp h io now fresh tags app trig sha pl))"
proof -
  have "quiet (pl1\<lparr>pl_db := db\<rparr>) pl' = quiet pl1 pl'" "quiet (pl1\<lparr>pl_world := w\<rparr>) pl' = quiet pl1 pl'"
    "quiet (set_status b i st t pl1) pl' = quiet pl1 pl'" for pl1 pl' :: "'a plant" and db w b i st t by (simp_all add: quiet_def)
  note frame = this
  have "quiet pl (fst (deploy_reserved io now rt app dep (set_status b i st t (set_status b' i' st' t' pl\<lparr>pl_world := w\<rparr>)\<lparr>pl_db := db\<rparr>)))"
    for rt dep b i st t b' i' st' t' w db
    using quiet_reserved[of "set_status b i st t (set_status b' i' st' t' pl\<lparr>pl_world := w\<rparr>)\<lparr>pl_db := db\<rparr>" io now rt app dep] by (simp add: frame)
  then show ?thesis
    by (auto simp: deployGitApp_def Let_def quiet_events(2) split: option.splits prod.splits sum.splits)
qed

lemma quiet_image: "quiet pl (fst (deploy_image h io now fresh app pl))"
  by (auto simp: deploy_image_def Let_def quiet_def failApp_def split: prod.splits option.splits sum.splits)

lemma quiet_webhook: "quiet pl (webhook_deploy h io now fresh tags readOK frozen data pl)"
proof -
  have "quiet pl (publishDeployFailed src i e pl)" for src i e by (simp add: quiet_def publishDeployFailed_def publishAsync_def)
  moreover have "quiet pl pl" by (simp add: quiet_def)
  ultimately show ?thesis by (simp add: webhook_deploy_def quiet_git split: sum.splits)
qed

lemma quiet_inert: "quiet pl pl' \<Longrightarrow> \<exists>evs. pl_events pl' = pl_events pl @ evs \<and> fold (auto_rollback io listOK now fresh probes runtime) evs s = s"
proof -
  have "\<forall>ev\<in>set evs. rollback_ignores ev \<Longrightarrow> fold (auto_rollback io listOK now fresh probes runtime) evs s = s" for evs
    by (induction evs) (simp_all add: auto_rollback_ignores)
  then show "quiet pl pl' \<Longrightarrow> ?thesis" unfolding quiet_def by blast
qed

lemma reserved_failure:
  assumes "deploy_reserved io now rt app dep pl = (pl', Some e)"
  shows "\<exists>ev. pl_events pl' = pl_events pl @ [ev] \<and> dv_Type ev = ''deploy.failed''"
  using assms by (auto simp: deploy_reserved_def Let_def split: prod.splits option.splits sum.splits)

lemma git_failure_published:
  assumes "deployGitApp h io now fresh tags app trig sha pl = (pl', Some e)" "\<forall>m. e \<noteq> BuildError m"
  shows "\<exists>ev. pl_events pl' = pl_events pl @ [ev] \<and> dv_Type ev = ''deploy.failed''"
  using assms by (auto simp: deployGitApp_def Let_def split: option.splits prod.splits sum.splits if_splits dest!: reserved_failure)

text \<open>
  C39. No failed deployment is rolled back automatically: whatever events a deployment from git, a deployment of an image or a
  push to a repository publishes, the manager that subscribes to failures does nothing on them. This holds although every
  deployment from git that fails after its build announces deploy.failed.
\<close>

theorem auto_rollback_inert:
  shows "(\<exists>evs. pl_events (fst (deployGitApp h io now fresh tags app trig sha pl)) = pl_events pl @ evs
           \<and> fold (auto_rollback rio listOK now' fresh' probes runtime) evs s = s)
    \<and> (\<exists>evs. pl_events (fst (TriggerDeploy h io now fresh isFrozen app pl)) = pl_events pl @ evs
           \<and> fold (auto_rollback rio listOK now' fresh' probes runtime) evs s = s)
    \<and> (\<exists>evs. pl_events (webhook_deploy h io now fresh tags readOK frozen data pl) = pl_events pl @ evs
           \<and> fold (auto_rollback rio listOK now' fresh' probes runtime) evs s = s)
    \<and> (\<forall>pl' e. deployGitApp h io now fresh tags app trig sha pl = (pl', Some e) \<and> (\<forall>m. e \<noteq> BuildError m) \<longrightarrow>
         (\<exists>ev. pl_events pl' = pl_events pl @ [ev] \<and> dv_Type ev = ''deploy.failed'' \<and> auto_rollback rio listOK now' fresh' probes runtime ev s = s))"
proof (intro conjI allI impI)
  have "quiet pl pl" by (simp add: quiet_def)
  then have "quiet pl (fst (TriggerDeploy h io now fresh isFrozen app pl))" by (simp add: TriggerDeploy_def quiet_image)
  then show "\<exists>evs. pl_events (fst (TriggerDeploy h io now fresh isFrozen app pl)) = pl_events pl @ evs
      \<and> fold (auto_rollback rio listOK now' fresh' probes runtime) evs s = s" by (rule quiet_inert)
next
  fix pl' e
  assume run: "deployGitApp h io now fresh tags app trig sha pl = (pl', Some e) \<and> (\<forall>m. e \<noteq> BuildError m)"
  then obtain ev where ev: "pl_events pl' = pl_events pl @ [ev]" "dv_Type ev = ''deploy.failed''" using git_failure_published by blast
  moreover have "quiet pl pl'" using quiet_git[of pl h io now fresh tags app trig sha] run by simp
  then have "rollback_ignores ev" using ev(1) by (auto simp: quiet_def)
  ultimately show "\<exists>ev. pl_events pl' = pl_events pl @ [ev] \<and> dv_Type ev = ''deploy.failed'' \<and> auto_rollback rio listOK now' fresh' probes runtime ev s = s"
    using auto_rollback_ignores by blast
qed (rule quiet_inert[OF quiet_git] quiet_inert[OF quiet_webhook])+

section \<open>What the sweep does\<close>

definition stale :: "Deployment \<Rightarrow> bool" where
  "stale d \<longleftrightarrow> de_Status d = ''deploying'' \<or> de_Status d = ''building''"

definition reclaimed :: "time \<Rightarrow> string \<Rightarrow> Deployment \<Rightarrow> Deployment" where
  "reclaimed now st r = r\<lparr>de_Status := ''failed'', de_FinishedAt := Some now, de_BuildLog := reclaim_log st []\<rparr>"

definition mark_rows :: "time \<Rightarrow> string \<Rightarrow> string set \<Rightarrow> Deployment list \<Rightarrow> Deployment list" where
  "mark_rows now st ids rs = map (\<lambda>r. if de_ID r \<in> ids then reclaimed now st r else r) rs"

definition mark_apps :: "string set \<Rightarrow> Application list \<Rightarrow> Application list" where
  "mark_apps ids as = map (\<lambda>a. if ap_ID a \<in> ids then a\<lparr>ap_Status := ''failed''\<rparr> else a) as"

lemma mark_laws [simp]:
  "mark_rows now st {} rs = rs" "mark_apps {} as = as" "map ap_ID (mark_apps ids as) = map ap_ID as" "map de_ID (mark_rows now st ids rs) = map de_ID rs"
  "mark_apps B (mark_apps A as) = mark_apps (A \<union> B) as" "mark_rows now st B (mark_rows now st A rs) = mark_rows now st (A \<union> B) rs"
  by (auto simp: mark_rows_def mark_apps_def reclaimed_def)

definition reads_back :: "Deployment \<Rightarrow> Deployment list \<Rightarrow> bool" where
  "reads_back d rs \<longleftrightarrow> de_BuildLog d = [] \<and> (\<forall>r\<in>set rs. de_ID r = de_ID d \<longrightarrow> de_ContainerID r = de_ContainerID d)"

lemma reads_back_mark: "reads_back d rs \<Longrightarrow> reads_back d (mark_rows now st ids rs)"
  by (auto simp: reads_back_def mark_rows_def reclaimed_def)

lemma fail_app:
  assumes "distinct (map ap_ID (db_apps db))" "GetApp True i db = Inr app"
  shows "UpdateAppStatus True i ''failed'' (ap_TenantID app) db = (db\<lparr>db_apps := mark_apps {i} (db_apps db)\<rparr>, True)"
proof -
  obtain a where "find (\<lambda>a. ap_ID a = i) (db_apps db) = Some a" "ap_TenantID app = ap_TenantID a"
    using assms(2) by (auto simp: GetApp_def split: option.splits)
  then have a: "a \<in> set (db_apps db)" "ap_ID a = i" "ap_TenantID app = ap_TenantID a" by (auto simp: find_Some_iff)
  have "inj_on ap_ID (set (db_apps db))" using assms(1) by (simp add: distinct_map)
  then have "ap_ID b = i \<and> ap_TenantID b = ap_TenantID app \<longleftrightarrow> ap_ID b = i" if "b \<in> set (db_apps db)" for b
    using a that inj_onD[of ap_ID "set (db_apps db)" b a] by auto
  then show ?thesis by (simp add: UpdateAppStatus_def mark_apps_def)
qed

lemma no_app: "GetApp True i db = Inl e \<Longrightarrow> mark_apps {i} (db_apps db) = db_apps db"
  by (auto simp: GetApp_def mark_apps_def find_None_iff split: option.splits intro!: map_idI)

lemma reclaim_one_exact:
  assumes "distinct (map ap_ID (db_apps db))" "reads_back d (db_deps db)"
  shows "reclaim_one (\<lambda>_. (True, True, True)) now st d db =
    db\<lparr>db_deps := mark_rows now st {de_ID d} (db_deps db), db_apps := mark_apps {de_AppID d} (db_apps db)\<rparr>"
proof -
  let ?d = "d\<lparr>de_Status := ''failed'', de_FinishedAt := Some now, de_BuildLog := reclaim_log st (de_BuildLog d)\<rparr>"
  let ?db = "db\<lparr>db_deps := mark_rows now st {de_ID d} (db_deps db)\<rparr>"
  have "row_update ?d r = (if de_ID r \<in> {de_ID d} then reclaimed now st r else r)" if "r \<in> set (db_deps db)" for r
    using assms(2) that by (auto simp: row_update_def reclaimed_def reads_back_def)
  then have upd: "UpdateDeployment True ?d db = (?db, True)" by (simp add: update_rows mark_rows_def)
  show ?thesis
  proof (cases "GetApp True (de_AppID d) ?db")
    case (Inl e)
    then show ?thesis using upd no_app[OF Inl] by (simp add: reclaim_one_def)
  next
    case (Inr app)
    have "distinct (map ap_ID (db_apps ?db))" using assms(1) by simp
    from fail_app[OF this Inr] show ?thesis using upd Inr by (simp add: reclaim_one_def)
  qed
qed

lemma reclaim_fold:
  assumes "distinct (map ap_ID (db_apps db))" "\<forall>d\<in>set ds. reads_back d (db_deps db)"
  shows "fold (reclaim_one (\<lambda>_. (True, True, True)) now st) ds db =
    db\<lparr>db_deps := mark_rows now st (de_ID ` set ds) (db_deps db), db_apps := mark_apps (de_AppID ` set ds) (db_apps db)\<rparr>"
  using assms
proof (induction ds arbitrary: db)
  case (Cons d ds)
  let ?db = "db\<lparr>db_deps := mark_rows now st {de_ID d} (db_deps db), db_apps := mark_apps {de_AppID d} (db_apps db)\<rparr>"
  have "fold (reclaim_one (\<lambda>_. (True, True, True)) now st) ds ?db =
    ?db\<lparr>db_deps := mark_rows now st (de_ID ` set ds) (db_deps ?db), db_apps := mark_apps (de_AppID ` set ds) (db_apps ?db)\<rparr>"
    using Cons.prems by (intro Cons.IH) (auto intro: reads_back_mark)
  then show ?case using reclaim_one_exact[OF Cons.prems(1), of d] Cons.prems(2) by simp
qed simp

definition sweep_rows :: "time \<Rightarrow> string set \<Rightarrow> Deployment list \<Rightarrow> Deployment list" where
  "sweep_rows now sts rs = map (\<lambda>r. if de_Status r \<in> sts then reclaimed now (de_Status r) r else r) rs"

lemma reclaim_status_exact:
  assumes "distinct (map ap_ID (db_apps db))" "distinct (map de_ID (db_deps db))" "length (filter (\<lambda>d. de_Status d = st) (db_deps db)) \<le> 10000"
  shows "reclaim_status (\<lambda>_. (True, True, True)) True now st db =
    db\<lparr>db_deps := sweep_rows now {st} (db_deps db),
       db_apps := mark_apps (de_AppID ` {d \<in> set (db_deps db). de_Status d = st}) (db_apps db)\<rparr>"
proof -
  let ?rows = "sort_key (\<lambda>d. - de_CreatedAt d) (filter (\<lambda>d. de_Status d = st) (db_deps db))"
  have list: "ListDeploymentsByStatus True st db = Some (map read_row ?rows)" using assms(3) by (simp add: ListDeploymentsByStatus_def)
  have unique: "r \<in> set (db_deps db) \<Longrightarrow> r' \<in> set (db_deps db) \<Longrightarrow> de_ID r = de_ID r' \<Longrightarrow> r = r'" for r r'
    using assms(2) unfolding distinct_map inj_on_def by blast
  have ids: "de_ID ` set (map read_row ?rows) = de_ID ` {d \<in> set (db_deps db). de_Status d = st}"
    "de_AppID ` set (map read_row ?rows) = de_AppID ` {d \<in> set (db_deps db). de_Status d = st}"
    by (simp_all add: image_image read_row_def)
  have "\<forall>d\<in>set (map read_row ?rows). reads_back d (db_deps db)" using unique by (auto simp: reads_back_def read_row_def)
  note fold = reclaim_fold[OF assms(1) this, of now st, unfolded ids]
  have "mark_rows now st (de_ID ` {d \<in> set (db_deps db). de_Status d = st}) (db_deps db) = sweep_rows now {st} (db_deps db)"
    unfolding mark_rows_def sweep_rows_def using unique by (intro map_cong) auto
  then show ?thesis using list fold by (simp add: reclaim_status_def)
qed

lemma sweep_others:
  assumes "st \<noteq> ''failed''" "st' \<noteq> st"
  shows "filter (\<lambda>d. de_Status d = st) (sweep_rows now {st'} rs) = filter (\<lambda>d. de_Status d = st) rs"
    "{d \<in> set (sweep_rows now {st'} rs). de_Status d = st} = {d \<in> set rs. de_Status d = st}"
    "map de_ID (sweep_rows now {st'} rs) = map de_ID rs"
proof -
  show rows: "filter (\<lambda>d. de_Status d = st) (sweep_rows now {st'} rs) = filter (\<lambda>d. de_Status d = st) rs"
    using assms by (induction rs) (auto simp: sweep_rows_def reclaimed_def)
  show "{d \<in> set (sweep_rows now {st'} rs). de_Status d = st} = {d \<in> set rs. de_Status d = st}"
    using arg_cong[OF rows, of set] by simp
  show "map de_ID (sweep_rows now {st'} rs) = map de_ID rs" by (simp add: sweep_rows_def reclaimed_def)
qed

lemma sweep_stale:
  "sweep_rows now {''building''} (sweep_rows now {''deploying''} rs) = map (\<lambda>r. if stale r then reclaimed now (de_Status r) r else r) rs"
  "mark_apps (de_AppID ` {d \<in> set rs. de_Status d = ''deploying''} \<union> de_AppID ` {d \<in> set rs. de_Status d = ''building''}) as =
      map (\<lambda>a. if \<exists>d\<in>set rs. stale d \<and> de_AppID d = ap_ID a then a\<lparr>ap_Status := ''failed''\<rparr> else a) as"
proof -
  show "sweep_rows now {''building''} (sweep_rows now {''deploying''} rs) = map (\<lambda>r. if stale r then reclaimed now (de_Status r) r else r) rs"
    by (auto simp: sweep_rows_def reclaimed_def stale_def)
  have "i \<in> de_AppID ` {d \<in> set rs. de_Status d = ''deploying''} \<union> de_AppID ` {d \<in> set rs. de_Status d = ''building''} \<longleftrightarrow>
    (\<exists>d\<in>set rs. stale d \<and> de_AppID d = i)" for i unfolding stale_def by blast
  then show "mark_apps (de_AppID ` {d \<in> set rs. de_Status d = ''deploying''} \<union> de_AppID ` {d \<in> set rs. de_Status d = ''building''}) as =
      map (\<lambda>a. if \<exists>d\<in>set rs. stale d \<and> de_AppID d = ap_ID a then a\<lparr>ap_Status := ''failed''\<rparr> else a) as"
    unfolding mark_apps_def by simp
qed

lemma sweep_two:
  assumes "distinct (map ap_ID (db_apps db))" "distinct (map de_ID (db_deps db))"
    "length (filter (\<lambda>d. de_Status d = st) (db_deps db)) \<le> 10000" "length (filter (\<lambda>d. de_Status d = st') (db_deps db)) \<le> 10000" "st' \<noteq> ''failed''" "st \<noteq> st'"
  shows "fold (reclaim_status (\<lambda>_. (True, True, True)) True now) [st, st'] db =
    db\<lparr>db_deps := sweep_rows now {st'} (sweep_rows now {st} (db_deps db)),
       db_apps := mark_apps (de_AppID ` {d \<in> set (db_deps db). de_Status d = st} \<union> de_AppID ` {d \<in> set (db_deps db). de_Status d = st'}) (db_apps db)\<rparr>"
proof -
  note keep = sweep_others[OF assms(5,6), of now "db_deps db"]
  let ?db = "db\<lparr>db_deps := sweep_rows now {st} (db_deps db), db_apps := mark_apps (de_AppID ` {d \<in> set (db_deps db). de_Status d = st}) (db_apps db)\<rparr>"
  have "distinct (map ap_ID (db_apps ?db))" "distinct (map de_ID (db_deps ?db))" "length (filter (\<lambda>d. de_Status d = st') (db_deps ?db)) \<le> 10000"
    using assms(1,2,4) keep(1,3) by simp_all
  from reclaim_status_exact[OF this, of now] show ?thesis
    using reclaim_status_exact[OF assms(1-3), of now] keep(2) by simp
qed

lemma sweep_exact:
  assumes "distinct (map ap_ID (db_apps db))" "distinct (map de_ID (db_deps db))" "length (filter stale (db_deps db)) \<le> 10000"
  shows "reclaimStaleDeployments (\<lambda>_. (True, True, True)) True now db =
    db\<lparr>db_deps := map (\<lambda>r. if stale r then reclaimed now (de_Status r) r else r) (db_deps db),
       db_apps := map (\<lambda>a. if \<exists>d\<in>set (db_deps db). stale d \<and> de_AppID d = ap_ID a then a\<lparr>ap_Status := ''failed''\<rparr> else a) (db_apps db)\<rparr>"
proof -
  have "length (filter (\<lambda>d. de_Status d = st) rs) \<le> length (filter stale rs)" if "st = ''deploying'' \<or> st = ''building''" for st rs
    using that by (induction rs) (auto simp: stale_def)
  then have "length (filter (\<lambda>d. de_Status d = st) (db_deps db)) \<le> 10000" if "st = ''deploying'' \<or> st = ''building''" for st
    using that assms(3) le_trans by blast
  from sweep_two[OF assms(1,2) this this, of "''deploying''" "''building''" now] show ?thesis
    unfolding reclaimStaleDeployments_def sweep_stale by simp
qed

lemma image_deployed:
  assumes "deployRuntimeForApp h app = Inr rt" "host_ready rt view (ap_ID app)" "deploy_image h (\<lambda>_. True) now fresh app pl = (pl', DeployDone d)"
  shows "\<exists>c. view (pl_world pl') (de_ContainerID d) = Some c \<and> cv_running c \<and> of_app (ap_ID app) c"
    "\<exists>r. db_deps (pl_db pl') = map (row_update d) (db_deps (pl_db pl) @ [r]) \<and> de_ID r = de_ID d \<and> de_AppID r = ap_ID app"
    "de_ID d \<notin> de_ID ` set (db_deps (pl_db pl))" "de_Status d = ''deploying''"
    "map ap_ID (db_apps (pl_db pl')) = map ap_ID (db_apps (pl_db pl))"
proof -
  let ?pl1 = "set_status True (ap_ID app) ''deploying'' (ap_TenantID app) pl"
  let ?row = "new_deployment (ap_ID app) (ap_SourceURL app) [] ''manual''"
  obtain db2 dep ok where create: "CreateDeploymentAtomicVersion True now fresh ?row (pl_db ?pl1) = (db2, dep, ok)" by (meson prod_cases3)
  obtain w1 ne where net: "ensureDeployNetwork rt (pl_world pl) = (w1, ne)" by (meson surj_pair)
  define opts where "opts = deploy_opts (container_name (ap_ID app) (de_Version dep)) (ap_SourceURL app) (buildDeployLabels True app (de_Version dep) db2)"
  obtain w2 c where start: "CreateAndStart (dr_api rt) (dr_mgr rt) opts w1 = (w2, c)" by (meson surj_pair)
  from assms(3) have ok: "ok" and ne: "ne = None" and c: "\<exists>cid. c = Inr cid"
    using create net start assms(1)
    by (auto simp: deploy_image_def Let_def opts_def split: if_splits option.splits sum.splits)
  then obtain cid where cid: "c = Inr cid" by blast
  let ?d = "dep\<lparr>de_ContainerID := cid\<rparr>"
  have run: "d = ?d" "pl_world pl' = cleanupPreviousAppContainers rt (ap_ID app) cid w2"
    "pl_db pl' = fst (UpdateAppStatus True (ap_ID app) ''running'' (ap_TenantID app) (fst (UpdateDeployment True ?d db2)))"
    using assms(3) create net start assms(1) ok ne cid
    by (auto simp: deploy_image_def Let_def opts_def set_status_def save_row_def publishAsync_def)
  have "\<exists>c. view (pl_world pl') cid = Some c \<and> cv_running c \<and> of_app (ap_ID app) c"
    using started_replaced[OF assms(2) start[unfolded opts_def cid]] run(2)
    by (simp add: replaced_def of_app_def buildDeployLabels_def Let_def)
  then show "\<exists>c. view (pl_world pl') (de_ContainerID d) = Some c \<and> cv_running c \<and> of_app (ap_ID app) c" by (simp add: run(1))
  have new: "db2 = (pl_db ?pl1)\<lparr>db_deps := db_deps (pl_db pl) @ [inserted now dep]\<rparr>" "de_AppID dep = ap_ID app" "de_Status dep = ''deploying''"
    "de_ID dep \<notin> de_ID ` set (db_deps (pl_db pl))" "map ap_ID (db_apps (pl_db ?pl1)) = map ap_ID (db_apps (pl_db pl))"
    using create ok by (auto simp: CreateDeploymentAtomicVersion_def Let_def with_id_def new_deployment_def set_status_def UpdateAppStatus_def split: if_splits)
  show "\<exists>r. db_deps (pl_db pl') = map (row_update d) (db_deps (pl_db pl) @ [r]) \<and> de_ID r = de_ID d \<and> de_AppID r = ap_ID app"
    using new by (intro exI[of _ "inserted now dep"]) (simp add: run update_rows UpdateAppStatus_def inserted_def)
  show "de_ID d \<notin> de_ID ` set (db_deps (pl_db pl))" "de_Status d = ''deploying''" using new run(1) by simp_all
  have "map ap_ID (db_apps (fst (UpdateAppStatus True i st t db))) = map ap_ID (db_apps db)" for i st t db by (auto simp: UpdateAppStatus_def)
  then show "map ap_ID (db_apps (pl_db pl')) = map ap_ID (db_apps (pl_db pl))" using new by (simp add: run update_rows)
qed

text \<open>
  C40. A restart reports every app that was deployed from an image as failed: the deployment succeeds and its container
  runs, but its row stays at deploying, so the sweep at the next start marks the row and the app as failed.
\<close>

theorem image_deploy_reclaimed:
  assumes "deployRuntimeForApp h app = Inr rt" "host_ready rt view (ap_ID app)" "dep_inv (pl_db pl)" "distinct (map ap_ID (db_apps (pl_db pl)))"
    "app \<in> set (db_apps (pl_db pl))" "deploy_image h (\<lambda>_. True) now fresh app pl = (pl', DeployDone d)" "length (filter stale (db_deps (pl_db pl'))) \<le> 10000"
    "db = reclaimStaleDeployments (\<lambda>_. (True, True, True)) True now' (pl_db pl')"
  shows "(\<exists>c. view (pl_world pl') (de_ContainerID d) = Some c \<and> cv_running c \<and> of_app (ap_ID app) c)
    \<and> (\<exists>r\<in>set (db_deps db). de_ID r = de_ID d \<and> de_ContainerID r = de_ContainerID d \<and> de_Status r = ''failed'')
    \<and> (\<exists>a\<in>set (db_apps db). ap_ID a = ap_ID app \<and> ap_Status a = ''failed'')"
proof (intro conjI)
  note image = image_deployed[OF assms(1,2,6)]
  show "\<exists>c. view (pl_world pl') (de_ContainerID d) = Some c \<and> cv_running c \<and> of_app (ap_ID app) c" by (rule image(1))
  obtain r where r: "db_deps (pl_db pl') = map (row_update d) (db_deps (pl_db pl) @ [r])" "de_ID r = de_ID d" "de_AppID r = ap_ID app" using image(2) by blast
  have ids: "map de_ID (map (row_update d) rs) = map de_ID rs" for rs by (simp add: row_update_def)
  have "distinct (map de_ID (db_deps (pl_db pl')))" using assms(3) image(3) r unfolding r(1) ids by (simp add: dep_inv_def)
  moreover have "distinct (map ap_ID (db_apps (pl_db pl')))" using assms(4) image(5) by simp
  ultimately have db: "db = (pl_db pl')\<lparr>db_deps := map (\<lambda>r. if stale r then reclaimed now' (de_Status r) r else r) (db_deps (pl_db pl')),
       db_apps := map (\<lambda>a. if \<exists>d\<in>set (db_deps (pl_db pl')). stale d \<and> de_AppID d = ap_ID a then a\<lparr>ap_Status := ''failed''\<rparr> else a) (db_apps (pl_db pl'))\<rparr>"
    using sweep_exact[of "pl_db pl'"] assms(7,8) by simp
  let ?r = "row_update d r"
  have row: "?r \<in> set (db_deps (pl_db pl'))" "stale ?r" "de_AppID ?r = ap_ID app" "de_ContainerID ?r = de_ContainerID d" "de_ID ?r = de_ID d"
    using r image(4) by (simp_all add: row_update_def stale_def)
  have "reclaimed now' (de_Status ?r) ?r \<in> set (db_deps db)" unfolding db using row by force
  then show "\<exists>r\<in>set (db_deps db). de_ID r = de_ID d \<and> de_ContainerID r = de_ContainerID d \<and> de_Status r = ''failed''"
    using row by (intro bexI[of _ "reclaimed now' (de_Status ?r) ?r"]) (simp_all add: reclaimed_def)
  have "ap_ID app \<in> set (map ap_ID (db_apps (pl_db pl')))" using assms(5) image(5) by simp
  then obtain a where a: "a \<in> set (db_apps (pl_db pl'))" "ap_ID a = ap_ID app" by auto
  then have "a\<lparr>ap_Status := ''failed''\<rparr> \<in> set (db_apps db)" unfolding db using row(1-3) by force
  then show "\<exists>a\<in>set (db_apps db). ap_ID a = ap_ID app \<and> ap_Status a = ''failed''"
    using a(2) by (intro bexI[of _ "a\<lparr>ap_Status := ''failed''\<rparr>"]) simp_all
qed

section \<open>Orphans stay\<close>

lemma remove_all_view:
  assumes "host_documented rt view" "distinct (map ci_ID cs)" "\<forall>c\<in>set cs. view w (ci_ID c) \<noteq> None" "i \<notin> ci_ID ` set cs"
  shows "view (fold (\<lambda>c w. if P c then fst (rt_Remove (dr_api rt) (ci_ID c) True w) else w) cs w) i = view w i"
  using assms(2-4)
proof (induction cs arbitrary: w)
  case (Cons c cs)
  let ?w = "if P c then fst (rt_Remove (dr_api rt) (ci_ID c) True w) else w"
  have other: "view ?w j = view w j" if "j \<noteq> ci_ID c" for j
    using host_remove(1)[OF assms(1), of "ci_ID c" w] Cons.prems(2) that by (auto simp: refers_def)
  have "view ?w (ci_ID d) \<noteq> None" if "d \<in> set cs" for d
  proof -
    have "ci_ID d \<noteq> ci_ID c" using Cons.prems(1) that by (metis distinct.simps(2) image_eqI list.map(2) list.set_map)
    then show ?thesis using other[of "ci_ID d"] Cons.prems(2) that by simp
  qed
  then show ?case using Cons.IH[of ?w] Cons.prems(1,3) other by simp
qed simp

text \<open>The sweep looks for a label that no deployment sets, so the containers of a deleted app are never found.\<close>

lemma unmanaged_stays:
  assumes "host_documented rt view" "view w i = Some c" "(''monster.managed'', ''true'') \<notin> set (cv_labels c)"
  shows "view (cleanOrphanContainers io rt db w) i = Some c"
proof (cases "dr_list rt [(''monster.managed'', ''true'')] w")
  case (Some cs)
  note l = host_list[OF assms(1) Some]
  have "i \<notin> ci_ID ` set cs" using l(2) assms(2,3) by auto
  moreover have "\<forall>c\<in>set cs. view w (ci_ID c) \<noteq> None" using l(2) by blast
  ultimately show ?thesis using remove_all_view[OF assms(1) l(1)] assms(2) Some by (simp add: cleanOrphanContainers_def)
qed (simp add: cleanOrphanContainers_def assms(2))

lemma domain_labels_unmanaged: "(''monster.managed'', x) \<notin> set (all_domain_labels app ds)"
  by (auto simp: all_domain_labels_def domain_labels_def Let_def)

lemma app_container_stays:
  assumes "host_documented rt view" "view w i = Some c"
    "cv_labels c = buildDeployLabels ok app v db0 \<or> cv_labels c = rollback_labels app appID v target ds"
  shows "view (cleanOrphanContainers io rt db w) i = Some c"
proof (intro unmanaged_stays[OF assms(1,2)])
  have "(''monster.managed'', ''true'') \<notin> set (buildDeployLabels ok app v db0)"
    by (simp add: buildDeployLabels_def domain_labels_unmanaged split: option.splits)
  moreover have "(''monster.managed'', ''true'') \<notin> set (rollback_labels app appID v target ds)"
    by (simp add: rollback_labels_def domain_labels_unmanaged)
  ultimately show "(''monster.managed'', ''true'') \<notin> set (cv_labels c)" using assms(3) by metis
qed

lemma stopped_manager_inert: "auto_rollback io listOK now fresh probes runtime ev (ar_Stop ar, pl) = (ar_Stop ar, pl)"
  by (simp add: auto_rollback_def ar_Stop_def)

section \<open>An instance\<close>

definition ex_rollback :: "ex_world plant \<Rightarrow> ex_world plant \<times> (rollback_error + Deployment)" where
  "ex_rollback = RollbackEngine_Rollback (\<lambda>_. True) 9 ''d3'' (\<lambda>_. Some True) (Some ex_host) ''a'' 1"

definition ex_names_free :: "ex_world \<Rightarrow> string \<Rightarrow> string \<Rightarrow> bool" where
  "ex_names_free w name old \<longleftrightarrow> list_all (\<lambda>(i, c). i \<noteq> name \<and> cv_name c \<noteq> name) w \<and> (old = [] \<or> ex_view w old \<noteq> None)"

lemma ex_free: "ex_names_free w name old \<Longrightarrow> names_free (ex_view w) name old"
proof -
  assume free: "ex_names_free w name old"
  have "i \<noteq> name \<and> cv_name c \<noteq> name" if "ex_view w i = Some c" for i c
    using that free by (auto simp: ex_view_def ex_names_free_def list_all_iff split: if_splits dest!: map_of_SomeD)
  note other = this
  have "ex_view w name = None" using other[of name] by (cases "ex_view w name") auto
  then show ?thesis using free other by (auto simp: names_free_def ex_names_free_def)
qed

lemma ex_runs:
  "case snd (ex_rollback ex_plant) of Inl e \<Rightarrow> False | Inr d \<Rightarrow> de_ContainerID d = ''c-dm-a-2''"
  "ex_names_free (pl_world ex_plant) (container_name ''a'' (next_version ''a'' (pl_db ex_plant))) (old_container True ''a'' (pl_db ex_plant))"
  "old_container True ''a'' (pl_db ex_plant) = ''c-dm-a-1''"
  by code_simp+

lemma ex_failed_runs:
  "case snd (ex_git ''bad'') of Some (DeployStartError e) \<Rightarrow> True | _ \<Rightarrow> False"
  "case snd (ex_rollback (fst (ex_git ''bad''))) of Inl e \<Rightarrow> False | Inr d \<Rightarrow> de_ContainerID d = ''c-dm-a-3''"
  "ex_names_free (pl_world (fst (ex_git ''bad''))) (container_name ''a'' (next_version ''a'' (pl_db (fst (ex_git ''bad''))))) []"
  by code_simp+

lemma ex_removes: "removes ex_host ex_view"
  using ex_host_ready by (simp add: host_ready_def)


theorem rollback_leaves_old_running_witness:
  "\<exists>pl d. ex_rollback (fst (ex_git ''bad'')) = (pl, Inr d) \<and> de_ContainerID d = ''c-dm-a-3''
    \<and> ex_view (pl_world pl) ''c-dm-a-1'' = Some ex_old \<and> cv_running ex_old \<and> ex_view (pl_world pl) ''c-dm-a-3'' \<noteq> None"
proof -
  obtain pl1 e where git: "ex_git ''bad'' = (pl1, Some (DeployStartError e))"
    using ex_failed_runs(1) by (cases "ex_git ''bad''") (auto split: option.splits deploy_failure.splits)
  obtain pl d where run: "ex_rollback pl1 = (pl, Inr d)" "de_ContainerID d = ''c-dm-a-3''"
    using ex_failed_runs(2) unfolding git by (cases "ex_rollback pl1") (auto split: sum.splits)
  have inv: "dep_inv (pl_db ex_plant)" by (simp add: dep_inv_def ex_plant_def)
  have free: "ex_names_free (pl_world pl1) (container_name ''a'' (next_version ''a'' (pl_db pl1))) []" using ex_failed_runs(3) by (simp add: git)
  have old: "ex_view (pl_world ex_plant) ''c-dm-a-1'' = Some ex_old" by (simp add: ex_plant_def ex_view_def)
  have a: "ap_ID ex_app = ''a''" by (simp add: ex_app_def)
  note out = rollback_leaves_old_running[OF inv ex_handler_ready git[unfolded ex_git_def] ex_host_documented ex_removes _ _ _ old,
      of "\<lambda>_. True", unfolded a, OF TrueI ex_free[OF free] run(1)[unfolded ex_rollback_def]]
  show ?thesis using out run git by (intro exI[of _ pl] exI[of _ d]) (auto simp: ex_old_def)
qed

theorem auto_rollback_inert_witness:
  "\<exists>pl e ev. ex_git ''bad'' = (pl, Some e) \<and> pl_events pl = [ev] \<and> dv_Type ev = ''deploy.failed''
    \<and> auto_rollback (\<lambda>_. True) True 9 ''d3'' (\<lambda>_. Some True) (Some ex_host) ev (NewAutoRollbackManager, pl) = (NewAutoRollbackManager, pl)"
proof -
  obtain pl e where git: "ex_git ''bad'' = (pl, Some (DeployStartError e))"
    using ex_failed_runs(1) by (cases "ex_git ''bad''") (auto split: option.splits deploy_failure.splits)
  have "\<forall>m. DeployStartError e \<noteq> BuildError m" by simp
  with auto_rollback_inert[of "ex_handler ''bad''" "\<lambda>_. True" 5 "''d2''" "([], [])" ex_app "''manual''" "[]" ex_plant "\<lambda>_. True" True 9 "''d3''"
      "\<lambda>_. Some True" "Some ex_host" "(NewAutoRollbackManager, pl)", THEN conjunct2, THEN conjunct2, THEN conjunct2] git[unfolded ex_git_def]
  have "\<exists>ev. pl_events pl = pl_events ex_plant @ [ev] \<and> dv_Type ev = ''deploy.failed''
      \<and> auto_rollback (\<lambda>_. True) True 9 ''d3'' (\<lambda>_. Some True) (Some ex_host) ev (NewAutoRollbackManager, pl) = (NewAutoRollbackManager, pl)"
    by blast
  then show ?thesis using git by (auto simp: ex_plant_def)
qed

definition ex_image_deploy :: "ex_world plant \<times> deploy_reply" where
  "ex_image_deploy = deploy_image (ex_handler []) (\<lambda>_. True) 5 ''d2'' ex_app ex_plant"

lemma ex_image_runs:
  "case snd ex_image_deploy of DeployDone d \<Rightarrow> de_ContainerID d = ''c-dm-a-2'' | _ \<Rightarrow> False"
  "length (filter stale (db_deps (pl_db (fst ex_image_deploy)))) = 1"
  by code_simp+

theorem image_deploy_reclaimed_witness:
  "\<exists>pl d. ex_image_deploy = (pl, DeployDone d) \<and> ex_view (pl_world pl) ''c-dm-a-2'' \<noteq> None
    \<and> (\<exists>r\<in>set (db_deps (reclaimStaleDeployments (\<lambda>_. (True, True, True)) True 9 (pl_db pl))). de_ContainerID r = ''c-dm-a-2'' \<and> de_Status r = ''failed'')"
proof -
  obtain pl d where run: "ex_image_deploy = (pl, DeployDone d)" "de_ContainerID d = ''c-dm-a-2''"
    using ex_image_runs(1) by (cases "snd ex_image_deploy") (auto simp: prod_eq_iff)
  have rt: "deployRuntimeForApp (ex_handler []) ex_app = Inr ex_host" by (simp add: deployRuntimeForApp_def isRemoteApp_def ex_handler_def ex_app_def)
  have inv: "dep_inv (pl_db ex_plant)" "distinct (map ap_ID (db_apps (pl_db ex_plant)))" "ex_app \<in> set (db_apps (pl_db ex_plant))"
    by (simp_all add: dep_inv_def ex_plant_def)
  have few: "length (filter stale (db_deps (pl_db pl))) \<le> 10000" using ex_image_runs(2) by (simp add: run(1))
  note out = image_deploy_reclaimed[OF rt ex_host_ready inv run(1)[unfolded ex_image_deploy_def] few refl, of 9]
  show ?thesis using out run by (intro exI[of _ pl] exI[of _ d]) auto
qed

end
