(* ===== verification/Spec2Isabelle.thy ===== *)
theory Spec2Isabelle
  imports Prelude Route_Table Module_Registry Circuit_Breaker Retry Event_Bus KV_Store Http Rate_Limit
    Jwt_Service Login_Session Access_Control Load_Balancer Build_Queue Idempotency Compose_Stack
    Container_Runtime Stack_Deploy Topology Topology_Compile Topology_YAML Topology_Draw Discovery
    Vault Secrets Key_Rotation Secret_Resolution Scheduler Command_Policy Cron
    App_Store App_Deploy Rollback
begin

text \<open>
  A verification development of DeployMonster (\<open>src/\<close>), a self-hosted platform in Go that deploys applications as Docker
  containers, routes traffic to them and offers a REST API with tenants, secrets and background jobs.

  \<^bold>\<open>The program.\<close> \<open>internal/core\<close> holds the registry that starts the modules in dependency order, the event bus, the
  circuit breaker, retry and the job scheduler. The API (\<open>internal/api\<close>) is a chain of middleware in front of handlers. State is kept in a
  relational store and in a key-value store (\<open>internal/db\<close>). Stacks are read by \<open>internal/compose\<close> and
  \<open>internal/topology\<close> and created through the container runtime (\<open>internal/deploy\<close>); the labels of the
  containers are read back by \<open>internal/discovery\<close> into the routing table of \<open>internal/ingress\<close>.

  \<^bold>\<open>Style.\<close> A struct is a record whose fields carry a prefix of their own, an error a value of a datatype or a sum, a
  critical section one function on the state. Where goroutines interleave, each is an element of a multiset at a program
  point and the program is an inductive step relation; properties of every interleaving are proved by induction on
  reachability. A Go map that is iterated is an association list in iteration order, or the order is an argument. Clocks,
  random bytes, identifiers and whether a database answers are arguments. Code outside the repository (Docker, JWT, AES-GCM,
  bcrypt, YAML, JSON) is an argument with a named hypothesis (\<open>docker_documented\<close>, \<open>host_documented\<close>, \<open>jwt_documented\<close>, \<open>aead_opens\<close>,
  \<open>codec_ok\<close>), for which an instance is given. Integers are unbounded except where the width matters (\<open>int64\<close>
  durations in \<open>Retry\<close>, \<open>uint64\<close> and \<open>uint32\<close> words in \<open>Load_Balancer\<close>).

  \<^bold>\<open>Interfaces.\<close> A contract between components is a locale, interpreted on the model: \<open>slice_sorter\<close> (what sort.Slice
  promises) and \<open>keyed_store\<close> (a store that is a map) in \<open>Prelude\<close>, \<open>kv_storer\<close> in \<open>KV_Store\<close>, \<open>window_store\<close> and
  its extension \<open>kv_window\<close> in \<open>Rate_Limit\<close>, \<open>lb_strategy\<close> in \<open>Load_Balancer\<close>, \<open>drain_system\<close> (a pool of goroutines
  that shuts down) in \<open>Build_Queue\<close>, also interpreted in \<open>Scheduler\<close>.

  \<^bold>\<open>Theories.\<close>

  \<^item> \<open>Prelude\<close>: strings, paths, integers and sorting of Go's library.
  \<^item> \<open>Route_Table\<close>: \<open>internal/ingress/router.go\<close>. The table refines a map over every history of writes; a match is a
    most specific route.
  \<^item> \<open>Load_Balancer\<close>: \<open>internal/ingress/lb\<close>. Every strategy picks from its pool; smooth weighted round robin is exactly
    proportional over a period.
  \<^item> \<open>Module_Registry\<close>: \<open>registry.go\<close> and \<open>module.go\<close> of \<open>internal/core\<close>. Resolution returns a dependency order exactly
    when there is one. Its recursion carries fuel, one more than the number of modules, which is shown to be enough.
  \<^item> \<open>Circuit_Breaker\<close>, \<open>Retry\<close>: the files of those names in \<open>internal/core\<close>. The breaker's invariant over interleaved
    calls and a half-open state it never leaves; attempts and delays of a retry.
  \<^item> \<open>Event_Bus\<close>: \<open>events.go\<close>. Slots and handlers stay within bounds; a reachable state in which publishers and workers
    wait for each other.
  \<^item> \<open>KV_Store\<close>: \<open>internal/db/kv.go\<close> with its SQL. Set and get, expiry, atomic batches.
  \<^item> \<open>Http\<close>, \<open>Rate_Limit\<close>, \<open>Idempotency\<close>, \<open>Access_Control\<close>: \<open>internal/api/middleware\<close>. What the limiters admit; at
    most one execution per idempotency key; who is authenticated and when a cookie session needs its CSRF token.
  \<^item> \<open>Jwt_Service\<close>, \<open>Login_Session\<close>: \<open>internal/auth/jwt.go\<close> and the handlers of \<open>auth.go\<close>. Life of tokens, rotation of refresh
    tokens, lockout, the limit on sessions.
  \<^item> \<open>Vault\<close>, \<open>Secrets\<close>, \<open>Key_Rotation\<close>, \<open>Secret_Resolution\<close>: \<open>internal/secrets\<close>, \<open>internal/db/secrets.go\<close> and the
    handlers of \<open>secrets.go\<close>. Encryption round trip; what a complete and an interrupted rotation or migration leave; scopes; when the
    expansion of references ends. That loop may run forever and is a partial function into an option.
  \<^item> \<open>Build_Queue\<close>: \<open>tenant_queue.go\<close> and the worker pool of \<open>internal/build\<close>. Limits hold in every interleaving and a
    shutdown drains.
  \<^item> \<open>Compose_Stack\<close>, \<open>Container_Runtime\<close>, \<open>Stack_Deploy\<close>: \<open>internal/compose\<close>, \<open>internal/deploy/docker.go\<close>. Dependency
    order of services (fuel: the number of services and one, shown to be enough), generated secrets, path checks, rollback.
  \<^item> \<open>Topology\<close>, \<open>Topology_Compile\<close>, \<open>Topology_YAML\<close>, \<open>Topology_Draw\<close>: \<open>internal/topology\<close> and its handlers. Exact
    validation; every reference of a compiled configuration resolves; determinism of the rendering; what an editor's
    drawing becomes.
  \<^item> \<open>Discovery\<close>: \<open>internal/discovery\<close>. A reconciliation against its specification; the composition of \<open>Stack_Deploy\<close>,
    \<open>Discovery\<close> and \<open>Route_Table\<close>, from the labels of a deployed stack to the answer of the routing table; health
    verdicts.
  \<^item> \<open>Scheduler\<close>, \<open>Command_Policy\<close>, \<open>Cron\<close>: \<open>scheduler.go\<close> and \<open>command_safety.go\<close> of \<open>internal/core\<close>,
    \<open>internal/cron\<close> and the handlers of \<open>cronjobs.go\<close>. One handler per job object, a Stop that drains, what a tick starts; which
    commands pass; that a refresh makes the scheduler follow the store, and what it does to intervals and running jobs.
  \<^item> \<open>App_Store\<close>, \<open>App_Deploy\<close>, \<open>Rollback\<close>: \<open>deployments.go\<close> and parts of \<open>apps.go\<close> and \<open>domains.go\<close> of \<open>internal/db\<close>,
    \<open>deploy_pipeline.go\<close>, and \<open>rollback.go\<close>, \<open>autorollback.go\<close> and \<open>module.go\<close> of \<open>internal/deploy\<close>. Versions stay distinct in every
    interleaving; what a deployment and a rollback, successful or not, leave of the containers; that automatic rollback never acts; what the
    sweeps at start-up do. The health check of a rollback tries ten times, as the code does.

  \<^bold>\<open>Not modelled.\<close> HTTP clients of third parties (DNS, VPS, git, Stripe, notification services), the reverse proxy and ACME, web
  sockets, the terminal, file streaming of backups, subprocesses of git and docker, and the agent protocol are I/O whose
  meaning lies outside the source. The relational stores pass each call to one SQL statement; those of secrets, of deployments and of
  the key-value store are modelled because rotation, versions and expiry depend on them. Approvals and scheduled or preview
  deployments, and the restart of crashed containers, are left out. Metrics, autoscaling and alert thresholds
  compute in floating point. Most REST handlers decode, check a tenant and call one service. The marketplace and
  the managed database engines are literals. Logging is left out everywhere.
\<close>

end
